(* ===== verification/Prelude.thy ===== *)
theory Prelude
  imports Main "HOL-Library.Word"
begin

text \<open>
  Prelude of the development: the bytes, C strings and character classes that every program of
  the repository works on, the named collections the component proofs draw on, and the generic
  lemmas on lists they share.

  A byte is a \<^typ>\<open>char\<close> (eight bits), a buffer or a C string is a \<^typ>\<open>string\<close>. A C string
  as the program hands it around (an element of argv, a literal) is represented by its bytes up
  to, and without, the terminating NUL; a raw buffer that may hold a NUL is cut by \<open>cstr\<close>.
\<close>

named_theorems c_simps \<open>unfolding of the C library functions\<close>
named_theorems prog_simps \<open>unfolding of program fragments and of their runs\<close>

section \<open>Bytes and C strings\<close>

abbreviation NUL :: char where "NUL \<equiv> CHR 0x00"
abbreviation NL :: char where "NL \<equiv> CHR 0x0A"
abbreviation TAB :: char where "TAB \<equiv> CHR 0x09"

definition cstr :: "string \<Rightarrow> string" where
  "cstr b = takeWhile (\<lambda>c. c \<noteq> NUL) b"

definition no_nul :: "string \<Rightarrow> bool" where
  "no_nul s = list_all (\<lambda>c. c \<noteq> NUL) s"

definition code :: "char \<Rightarrow> nat" where
  "code c = of_char c"

text \<open>\<open>strchr s c \<noteq> NULL\<close>: the terminating NUL is part of the searched string.\<close>

definition strchr_found :: "string \<Rightarrow> char \<Rightarrow> bool" where
  "strchr_found s c = (c = NUL \<or> c \<in> set s)"

text \<open>The string that \<open>snprintf(buf, n, ...)\<close> leaves in \<open>buf\<close> when the whole output is \<open>s\<close>.\<close>

definition snprintf :: "nat \<Rightarrow> string \<Rightarrow> string" where
  "snprintf n s = take (n - 1) s"

text \<open>The string that \<open>strncpy(dst, s, n)\<close> leaves in a zeroed \<open>dst\<close> of more than \<open>n\<close> bytes.\<close>

definition strncpy :: "nat \<Rightarrow> string \<Rightarrow> string" where
  "strncpy n s = take n s"

section \<open>Character classes of the C locale\<close>

definition isdigit :: "char \<Rightarrow> bool" where
  "isdigit c = (48 \<le> code c \<and> code c \<le> 57)"

definition isupper :: "char \<Rightarrow> bool" where
  "isupper c = (65 \<le> code c \<and> code c \<le> 90)"

definition islower :: "char \<Rightarrow> bool" where
  "islower c = (97 \<le> code c \<and> code c \<le> 122)"

definition isalnum :: "char \<Rightarrow> bool" where
  "isalnum c = (isdigit c \<or> isupper c \<or> islower c)"

definition isspace :: "char \<Rightarrow> bool" where
  "isspace c = (code c = 32 \<or> (9 \<le> code c \<and> code c \<le> 13))"

definition isprint :: "char \<Rightarrow> bool" where
  "isprint c = (32 \<le> code c \<and> code c \<le> 126)"

definition toupper :: "char \<Rightarrow> char" where
  "toupper c = (if islower c then char_of (code c - 32) else c)"

lemmas ctype_defs [c_simps] = isdigit_def isupper_def islower_def isalnum_def isspace_def isprint_def

section \<open>Lemmas\<close>

lemma cstr_no_nul [simp]: "no_nul s \<Longrightarrow> cstr s = s"
  by (simp add: cstr_def no_nul_def takeWhile_eq_all_conv list_all_iff)

lemma cstr_append_nul [simp]: "cstr (s @ NUL # t) = cstr s"
  by (induction s) (simp_all add: cstr_def)

lemma no_nul_append [simp]: "no_nul (s @ t) = (no_nul s \<and> no_nul t)"
  by (simp add: no_nul_def)

lemma no_nul_Cons [simp]: "no_nul (c # s) = (c \<noteq> NUL \<and> no_nul s)"
  by (simp add: no_nul_def)

lemma no_nul_Nil [simp]: "no_nul []"
  by (simp add: no_nul_def)

lemma no_nul_take [intro]: "no_nul s \<Longrightarrow> no_nul (take n s)"
  by (auto simp: no_nul_def list_all_iff dest: in_set_takeD)

lemma no_nul_cstr [simp]: "no_nul (cstr b)"
  by (auto simp: cstr_def no_nul_def list_all_iff dest: set_takeWhileD)

lemma length_cstr_le: "length (cstr b) \<le> length b"
  by (simp add: cstr_def length_takeWhile_le)

lemma length_snprintf: "0 < n \<Longrightarrow> length (snprintf n s) < n"
  by (simp add: snprintf_def)

lemma snprintf_fits [simp]: "length s < n \<Longrightarrow> snprintf n s = s"
  by (simp add: snprintf_def)

lemma code_less [simp]: "code c < 256"
  by (simp add: code_def)

lemma code_char_of_mod [simp]: "code (char_of n) = n mod 256"
  by (simp add: code_def)

lemma code_char_of: "n < 256 \<Longrightarrow> code (char_of n) = n"
  by simp

lemma char_of_code [simp]: "char_of (code c) = c"
  by (simp add: code_def)

lemma code_inject [simp]: "code c = code d \<longleftrightarrow> c = d"
  by (simp add: code_def)

lemma code_toupper:
  "code (toupper c) = (if islower c then code c - 32 else code c)"
  using code_less [of c] by (auto simp: toupper_def islower_def intro!: code_char_of)

lemma toupper_not_lower [simp]: "\<not> islower (toupper c)"
  by (auto simp: code_toupper islower_def [of "toupper c"]) (auto simp: islower_def)

lemma toupper_id [simp]: "\<not> islower c \<Longrightarrow> toupper c = c"
  by (simp add: toupper_def)

lemma toupper_idem [simp]: "toupper (toupper c) = toupper c"
  by simp

lemma toupper_nul [simp]: "toupper c = NUL \<longleftrightarrow> c = NUL"
proof -
  have "toupper c = NUL \<longleftrightarrow> code (toupper c) = code NUL" by (simp only: code_inject)
  also have "\<dots> \<longleftrightarrow> code c = code NUL"
    by (auto simp: code_toupper islower_def) (auto simp: code_def)
  also have "\<dots> \<longleftrightarrow> c = NUL" by (simp only: code_inject)
  finally show ?thesis .
qed

lemma take_min_length [simp]: "take (min (length xs) n) xs = take n xs" "take (min n (length xs)) xs = take n xs"
  by (simp_all add: min_def)

lemma insort_key_map: "insort_key f (g x) (map g xs) = map g (insort_key (f \<circ> g) x xs)"
  by (induction xs) simp_all

lemma sort_key_map: "sort_key f (map g xs) = map g (sort_key (f \<circ> g) xs)"
  by (induction xs) (simp_all add: insort_key_map comp_def)

end
