(* ===== verification/C_Numbers.thy ===== *)
theory C_Numbers
  imports Prelude
begin

text \<open>
  Decimal, octal and hexadecimal numbers as the programs print and read them: the conversions
  of printf (\<open>%d\<close>, \<open>%ld\<close>, \<open>%u\<close>, \<open>%x\<close>) and of the C library's strtol, atoi and atol, with the
  widths of the LP64 ABI (int has 32 bits, long has 64). The main facts are that every number
  that is printed is read back (\<open>strtol_show_int\<close>, \<open>atoi_show_int\<close>) and how wide a printed
  32-bit number can be.
\<close>

section \<open>Integer widths\<close>

definition INT_MIN :: int where "INT_MIN = - (2 ^ 31)"
definition INT_MAX :: int where "INT_MAX = 2 ^ 31 - 1"
definition LONG_MIN :: int where "LONG_MIN = - (2 ^ 63)"
definition LONG_MAX :: int where "LONG_MAX = 2 ^ 63 - 1"

lemmas int_limits = INT_MIN_def INT_MAX_def LONG_MIN_def LONG_MAX_def

text \<open>Conversion to \<open>int\<close> and to \<open>uint32_t\<close> (modulo \<open>2 ^ 32\<close>), and to \<open>size_t\<close> (modulo \<open>2 ^ 64\<close>).\<close>

definition to_int :: "int \<Rightarrow> int" where
  "to_int i = (i + 2 ^ 31) mod 2 ^ 32 - 2 ^ 31"

definition to_uint :: "int \<Rightarrow> int" where
  "to_uint i = i mod 2 ^ 32"

definition to_size :: "int \<Rightarrow> int" where
  "to_size i = i mod 2 ^ 64"

lemma to_size_id [simp]: "0 \<le> i \<Longrightarrow> i < 2 ^ 64 \<Longrightarrow> to_size i = i"
  by (simp add: to_size_def)

section \<open>Printing\<close>

definition digit_char :: "nat \<Rightarrow> char" where
  "digit_char d = char_of (if d < 10 then 48 + d else 87 + d)"

fun show_base :: "nat \<Rightarrow> nat \<Rightarrow> string" where
  "show_base b n =
     (if b < 2 \<or> n < b then [digit_char n] else show_base b (n div b) @ [digit_char (n mod b)])"

declare show_base.simps [simp del]

definition show_nat :: "nat \<Rightarrow> string" where
  "show_nat n = show_base 10 n"

definition show_int :: "int \<Rightarrow> string" where
  "show_int i = (if i < 0 then CHR ''-'' # show_nat (nat (- i)) else show_nat (nat i))"

definition show_hex :: "nat \<Rightarrow> string" where
  "show_hex n = show_base 16 n"

definition pad_left :: "char \<Rightarrow> nat \<Rightarrow> string \<Rightarrow> string" where
  "pad_left c w s = replicate (w - length s) c @ s"

section \<open>Reading\<close>

definition digit_val :: "char \<Rightarrow> nat" where
  "digit_val c = code c - 48"

fun digits_val :: "nat \<Rightarrow> string \<Rightarrow> nat" where
  "digits_val acc [] = acc"
| "digits_val acc (c # cs) = digits_val (10 * acc + digit_val c) cs"

definition clamp_long :: "int \<Rightarrow> int" where
  "clamp_long i = (if i > LONG_MAX then LONG_MAX else if i < LONG_MIN then LONG_MIN else i)"

text \<open>
  \<open>strtol(s, &end, 10)\<close>: the value and the unread rest \<open>end\<close>. White space and one sign are
  skipped; when no digit follows, nothing is consumed and the value is 0.
\<close>

definition strtol :: "string \<Rightarrow> int \<times> string" where
  "strtol s =
     (let t = dropWhile isspace s;
          neg = (t \<noteq> [] \<and> hd t = CHR ''-'');
          u = (if t \<noteq> [] \<and> (hd t = CHR ''-'' \<or> hd t = CHR ''+'') then tl t else t);
          ds = takeWhile isdigit u;
          v = int (digits_val 0 ds)
      in if ds = [] then (0, s) else (clamp_long (if neg then - v else v), dropWhile isdigit u))"

definition atol :: "string \<Rightarrow> int" where
  "atol s = fst (strtol s)"

definition atoi :: "string \<Rightarrow> int" where
  "atoi s = to_int (atol s)"

section \<open>Integers in memory\<close>

text \<open>An \<open>int\<close> in memory: four bytes, least significant first.\<close>

fun le_encode :: "nat \<Rightarrow> nat \<Rightarrow> string" where
  "le_encode 0 v = []"
| "le_encode (Suc n) v = char_of (v mod 256) # le_encode n (v div 256)"

fun le_decode :: "string \<Rightarrow> nat" where
  "le_decode [] = 0"
| "le_decode (c # cs) = code c + 256 * le_decode cs"

definition int_bytes :: "int \<Rightarrow> string" where
  "int_bytes i = le_encode 4 (nat (to_uint i))"

definition int_of_bytes :: "string \<Rightarrow> int" where
  "int_of_bytes b = to_int (int (le_decode b))"

section \<open>Lemmas\<close>

lemma to_int_id [simp]: "INT_MIN \<le> i \<Longrightarrow> i \<le> INT_MAX \<Longrightarrow> to_int i = i"
  by (simp add: to_int_def int_limits)

lemma to_int_range: "INT_MIN \<le> to_int i \<and> to_int i \<le> INT_MAX"
  by (simp add: to_int_def int_limits)

lemma atoi_range: "INT_MIN \<le> atoi s \<and> atoi s \<le> INT_MAX"
  by (simp add: atoi_def to_int_range)

lemma to_uint_range: "0 \<le> to_uint i \<and> to_uint i < 2 ^ 32"
  by (simp add: to_uint_def)

lemma code_digit_char: "d < 10 \<Longrightarrow> code (digit_char d) = 48 + d"
  by (simp add: digit_char_def)

lemma isdigit_digit_char [simp]: "d < 10 \<Longrightarrow> isdigit (digit_char d)"
  by (simp add: isdigit_def code_digit_char)

lemma digit_val_digit_char [simp]: "d < 10 \<Longrightarrow> digit_val (digit_char d) = d"
  by (simp add: digit_val_def code_digit_char)

lemma show_nat_rec:
  "show_nat n = (if n < 10 then [digit_char n] else show_nat (n div 10) @ [digit_char (n mod 10)])"
  by (simp add: show_nat_def show_base.simps [of 10 n])

lemma show_nat_induct [case_names small step]:
  assumes "\<And>n. n < 10 \<Longrightarrow> P n" and "\<And>n. 10 \<le> n \<Longrightarrow> P (n div 10) \<Longrightarrow> P n"
  shows "P (n::nat)"
proof (induction n rule: less_induct)
  case (less n)
  then show ?case using assms by (cases "n < 10") auto
qed

lemma show_nat_digits: "list_all isdigit (show_nat n)"
proof (induction n rule: show_nat_induct)
  case (small n) then show ?case by (simp add: show_nat_rec)
next
  case (step n) then show ?case by (subst show_nat_rec) simp
qed

lemma show_nat_not_Nil [simp]: "show_nat n \<noteq> []"
  by (subst show_nat_rec) simp

lemma digits_val_append [simp]: "digits_val a (s @ t) = digits_val (digits_val a s) t"
  by (induction s arbitrary: a) simp_all

lemma digits_val_show_nat [simp]: "digits_val 0 (show_nat n) = n"
proof (induction n rule: show_nat_induct)
  case (small n) then show ?case by (simp add: show_nat_rec)
next
  case (step n) then show ?case by (subst show_nat_rec) simp
qed

lemma length_show_nat_le: "n < 10 ^ k \<Longrightarrow> 0 < k \<Longrightarrow> length (show_nat n) \<le> k"
proof (induction n arbitrary: k rule: show_nat_induct)
  case (small n) then show ?case by (simp add: show_nat_rec)
next
  case (step n)
  obtain j where k: "k = Suc j" using step.prems by (cases k) auto
  from step.prems step.hyps have "n div 10 < 10 ^ j" "0 < j"
    unfolding k by (auto simp: less_mult_imp_div_less mult.commute intro!: Nat.gr0I)
  then have "length (show_nat (n div 10)) \<le> j" by (rule step.IH)
  with step.hyps show ?case unfolding k by (subst show_nat_rec) simp
qed

lemma isdigit_not_special:
  "isdigit c \<Longrightarrow> \<not> isspace c \<and> c \<noteq> CHR ''-'' \<and> c \<noteq> CHR ''+'' \<and> c \<noteq> NUL \<and> c \<noteq> NL"
  by (auto simp: isdigit_def isspace_def) (auto simp: code_def)

lemma show_nat_hd: "isdigit (hd (show_nat n))"
  using show_nat_digits [of n] by (cases "show_nat n") auto

lemma takeWhile_digits:
  assumes "list_all isdigit s" and "t = [] \<or> \<not> isdigit (hd t)"
  shows "takeWhile isdigit (s @ t) = s" and "dropWhile isdigit (s @ t) = t"
  using assms by (induction s; cases t; auto)+

lemma clamp_long_id: "LONG_MIN \<le> i \<Longrightarrow> i \<le> LONG_MAX \<Longrightarrow> clamp_long i = i"
  by (simp add: clamp_long_def)

lemma strtol_show_int:
  assumes "LONG_MIN \<le> i" and "i \<le> LONG_MAX" and t: "t = [] \<or> \<not> isdigit (hd t)"
  shows "strtol (show_int i @ t) = (i, t)"
proof -
  note tw = takeWhile_digits [OF show_nat_digits t]
  have hd_nat: "show_nat n @ t \<noteq> []" "hd (show_nat n @ t) = hd (show_nat n)" for n by simp_all
  have ws: "dropWhile isspace (show_nat n @ t) = show_nat n @ t" for n
    using isdigit_not_special [OF show_nat_hd [of n]] by (cases "show_nat n") auto
  have minus: "\<not> isspace (CHR ''-'')" by (simp add: isspace_def code_def)
  show ?thesis
  proof (cases "i < 0")
    case True
    with assms(1) show ?thesis
      by (simp add: strtol_def show_int_def Let_def minus tw clamp_long_def int_limits)
  next
    case False
    with assms(2) isdigit_not_special [OF show_nat_hd [of "nat i"]] show ?thesis
      by (simp add: strtol_def show_int_def Let_def ws tw clamp_long_def int_limits)
  qed
qed

lemma atol_show_int:
  "LONG_MIN \<le> i \<Longrightarrow> i \<le> LONG_MAX \<Longrightarrow> t = [] \<or> \<not> isdigit (hd t) \<Longrightarrow> atol (show_int i @ t) = i"
  by (simp add: atol_def strtol_show_int)

lemma atoi_show_int:
  "INT_MIN \<le> i \<Longrightarrow> i \<le> INT_MAX \<Longrightarrow> t = [] \<or> \<not> isdigit (hd t) \<Longrightarrow> atoi (show_int i @ t) = i"
  by (subst atoi_def, subst atol_show_int) (auto simp: int_limits to_int_def)

lemma no_nul_show_nat [simp]: "no_nul (show_nat n)"
  using show_nat_digits [of n] isdigit_not_special by (auto simp: no_nul_def list_all_iff)

lemma no_nul_show_int [simp]: "no_nul (show_int i)"
  by (simp add: show_int_def)

lemma NL_notin_show_int [simp]: "NL \<notin> set (show_int i)"
  using show_nat_digits isdigit_not_special by (auto simp: show_int_def list_all_iff)

lemma length_show_int: "INT_MIN \<le> i \<Longrightarrow> i \<le> INT_MAX \<Longrightarrow> length (show_int i) \<le> 11"
  using length_show_nat_le [of "nat (- i)" 10] length_show_nat_le [of "nat i" 11]
  by (auto simp: show_int_def int_limits nat_less_iff)

lemma length_le_encode [simp]: "length (le_encode n v) = n"
  by (induction n arbitrary: v) simp_all

lemma le_decode_encode: "v < 256 ^ n \<Longrightarrow> le_decode (le_encode n v) = v"
proof (induction n arbitrary: v)
  case 0
  then show ?case by simp
next
  case (Suc n)
  then have "v div 256 < 256 ^ n" by (simp add: less_mult_imp_div_less mult.commute)
  then have "le_decode (le_encode n (v div 256)) = v div 256" by (rule Suc.IH)
  then show ?case by simp
qed

lemma length_int_bytes [simp]: "length (int_bytes i) = 4"
  by (simp add: int_bytes_def)

lemma to_int_to_uint [simp]: "to_int (to_uint i) = to_int i"
  by (simp add: to_int_def to_uint_def mod_simps)

lemma int_of_bytes_int_bytes: "int_of_bytes (int_bytes i) = to_int i"
proof -
  have "nat (to_uint i) < 256 ^ 4" using to_uint_range [of i] by (simp add: nat_less_iff)
  then show ?thesis
    using to_uint_range [of i] by (simp add: int_of_bytes_def int_bytes_def le_decode_encode)
qed

lemma show_nat_inject [simp]: "show_nat m = show_nat n \<longleftrightarrow> m = n"
  by (metis digits_val_show_nat)

lemma show_int_inject [simp]: "show_int i = show_int j \<longleftrightarrow> i = j"
proof
  assume eq: "show_int i = show_int j"
  have "show_nat n \<noteq> CHR ''-'' # s" "CHR ''-'' # s \<noteq> show_nat n" for n s
    using show_nat_hd [of n] isdigit_not_special by (metis list.sel(1))+
  with eq show "i = j" by (auto simp: show_int_def split: if_splits)
qed simp

end
