(* ===== verification/Syscalls.thy ===== *)
theory Syscalls
  imports C_Numbers
begin

text \<open>
  The boundary between the programs and the system. Every C program of the repository is a
  \<open>prog\<close>: a tree whose inner nodes are output on a standard stream (\<open>Put\<close>) and calls of the
  kernel or of a library that is not part of the repository (\<open>Call\<close>), and whose leaves say how
  the process ends (\<open>Halt\<close>). The continuation of a call takes what the call hands back: its
  value, \<open>errno\<close>, and what it stored through its pointer arguments (a \<open>ret\<close>). The C control flow
  between two calls is a HOL function, so a program reads as the code does: one \<open>Call\<close> per call
  expression, in the order of the source, with the guards of the source between them.

  What the other side does is a parameter: a \<open>kernel\<close> is a function from its state and a call to
  a \<open>ret\<close> and a new state, and \<open>run\<close> executes a program against it, giving the trace of events,
  the way the process ended and the final kernel state. A statement about all behaviours of the
  environment quantifies over the kernel. \<open>ret_ok\<close> is what the manual pages promise of single
  calls (a read never returns more bytes than asked for, and so on); the locale \<open>posix\<close> is the
  interface of kernels that keep that promise.
\<close>

section \<open>Calls\<close>

type_synonym flags = "32 word"

record addrinfo =
  ai_family :: int
  ai_socktype :: int
  ai_protocol :: int
  ai_addrlen :: int
  ai_addr :: string

datatype io_call =
    Open string flags flags
  | Close int
  | Read int int
  | Write int string
  | Lseek int int int
  | Pipe
  | Dup2 int int
  | Getfl int
  | Setfl int flags
  | Setown int int
  | Fstat int
  | Ftruncate int int

datatype path_call =
    Mkfifo string flags
  | Unlink string
  | Remove string
  | Mkstemp string
  | Umask flags
  | Chdir string
  | Stat string
  | Lstat string
  | Mount string string "string option" "64 word" "string option"

datatype proc_call =
    Fork
  | Vfork
  | Wait
  | Waitpid int flags
  | Execlp string "string list"
  | Execve string "string list" "string list"
  | Getpid
  | Getppid
  | Setsid
  | Sleep int
  | Atexit string
  | On_exit string int
  | System string
  | Popen string
  | Pclose
  | Fgets int int

datatype sig_call =
    Signal int string
  | Sigaction int string flags "int set"
  | Sigprocmask int "(int set) option"
  | Sigpending
  | Sigsuspend "int set"
  | Pause
  | Kill int int
  | Sigqueue int int int

datatype sock_call =
    Socket int int int
  | Bind int string
  | Listen int int
  | Accept int
  | Connect int string
  | Sendto int string string
  | Recvfrom int int
  | Setsockopt int int int int
  | Getaddrinfo "string option" string addrinfo flags
  | Freeaddrinfo
  | Getnameinfo string flags
  | Inet_pton int string
  | Inet_ntop int string

datatype sys_call =
    Sysconf string
  | Fpathconf int string
  | Malloc int
  | Getenv string
  | Getpwnam string
  | Getpwuid int
  | Getspnam string
  | Getgrnam string
  | Getgrgid int
  | Getpass string
  | Crypt string string
  | Tcgetattr int
  | Tcsetattr int int "32 word list" "int list"
  | Inotify_init
  | Inotify_add_watch int string flags

datatype ipc_call =
    Mq_open string flags flags "(int \<times> int) option"
  | Mq_unlink string
  | Mq_send int string int
  | Mq_receive int int
  | Mq_getattr int
  | Mq_notify int string
  | Sem_open string flags flags int
  | Sem_unlink string
  | Sem_post int
  | Sem_wait int
  | Sem_getvalue int
  | Shm_open string flags flags
  | Shm_unlink string

text \<open>
  Memory the process shares with the system: a mapping is an address, and what is stored to or
  loaded from it (\<open>Mem_store\<close>, \<open>Mem_load\<close>) is visible outside of the process.
\<close>

datatype mem_call =
    Mmap int flags flags int int
  | Munmap int int
  | Msync int int flags
  | Mem_store int string
  | Mem_load int int
  | Sbrk int
  | Calloc int int
  | Free int
  | Sigaltstack int int

datatype time_call =
    Time
  | Gettimeofday
  | Clock
  | Times
  | Localtime int
  | Gmtime int
  | Mktime "int list"
  | Ctime int
  | Asctime "int list"
  | Strftime string "int list"
  | Setlocale string
  | Strptime string string

datatype event_call =
    Poll "int list" flags int
  | Select int "int set" "int set" "int option"
  | Epoll_create int
  | Epoll_add int int flags
  | Epoll_wait int int int
  | Srandom int
  | Random
  | Pthread_create string int
  | Pthread_join int
  | Pthread_cancel int
  | Uname
  | Getuid

datatype syscall =
    Io io_call
  | Path path_call
  | Proc proc_call
  | Sig sig_call
  | Sock sock_call
  | Sys sys_call
  | Ipc ipc_call
  | Mem mem_call
  | Tm time_call
  | Ev event_call

text \<open>
  What a call hands back. \<open>rv\<close> is its value (a NULL pointer is 0, SEM_FAILED and the like are
  -1), \<open>err\<close> the errno it leaves, the other fields are what it stored through pointers.
\<close>

record ret =
  rv :: int
  err :: int
  bytes :: string
  ints :: "int list"
  ints2 :: "int list"
  strs :: "string list"
  ais :: "addrinfo list"

abbreviation ok :: "int \<Rightarrow> ret" where
  "ok v \<equiv> \<lparr>rv = v, err = 0, bytes = [], ints = [], ints2 = [], strs = [], ais = []\<rparr>"

abbreviation fail :: "int \<Rightarrow> ret" where
  "fail e \<equiv> \<lparr>rv = -1, err = e, bytes = [], ints = [], ints2 = [], strs = [], ais = []\<rparr>"

abbreviation got :: "string \<Rightarrow> ret" where
  "got s \<equiv> \<lparr>rv = int (length s), err = 0, bytes = s, ints = [], ints2 = [], strs = [], ais = []\<rparr>"

text \<open>The byte a one-byte read stored.\<close>

definition byte0 :: "ret \<Rightarrow> char" where
  "byte0 r = (case bytes r of [] \<Rightarrow> NUL | c # _ \<Rightarrow> c)"

text \<open>The errno values the programs test.\<close>

abbreviation (input) ENOENT :: int where "ENOENT \<equiv> 2"
abbreviation (input) EINTR :: int where "EINTR \<equiv> 4"
abbreviation (input) ECHILD :: int where "ECHILD \<equiv> 10"
abbreviation (input) EAGAIN :: int where "EAGAIN \<equiv> 11"
abbreviation (input) EACCES :: int where "EACCES \<equiv> 13"
abbreviation (input) EEXIST :: int where "EEXIST \<equiv> 17"
abbreviation (input) EINVAL :: int where "EINVAL \<equiv> 22"
abbreviation (input) ENOSYS :: int where "ENOSYS \<equiv> 38"

section \<open>Programs\<close>

datatype port = Stdout | Stderr | Perror | Syslog | Flush

datatype outcome =
    Exited int      \<comment> \<open>\<open>exit(3)\<close> or a return from main\<close>
  | Exited_now int  \<comment> \<open>\<open>_exit(2)\<close>\<close>
  | Aborted         \<comment> \<open>\<open>abort(3)\<close>\<close>
  | Replaced        \<comment> \<open>a successful exec: the program no longer runs\<close>
  | Undefined       \<comment> \<open>undefined behaviour: the C standard says nothing about what follows\<close>
  | Unfinished      \<comment> \<open>the model's fuel for a loop is used up: the process still runs\<close>

datatype prog =
    Halt outcome
  | Put port string prog
  | Call syscall "ret \<Rightarrow> prog"

abbreviation (input) exit :: "int \<Rightarrow> prog" where "exit n \<equiv> Halt (Exited n)"
abbreviation (input) exit_now :: "int \<Rightarrow> prog" where "exit_now n \<equiv> Halt (Exited_now n)"
abbreviation (input) EXIT_SUCCESS :: int where "EXIT_SUCCESS \<equiv> 0"
abbreviation (input) EXIT_FAILURE :: int where "EXIT_FAILURE \<equiv> 1"
abbreviation (input) printf :: "string \<Rightarrow> prog \<Rightarrow> prog" where "printf s p \<equiv> Put Stdout s p"
abbreviation (input) eprintf :: "string \<Rightarrow> prog \<Rightarrow> prog" where "eprintf s p \<equiv> Put Stderr s p"
abbreviation (input) perror :: "string \<Rightarrow> prog \<Rightarrow> prog" where "perror s p \<equiv> Put Perror s p"
abbreviation (input) fflush_stdout :: "prog \<Rightarrow> prog" where "fflush_stdout p \<equiv> Put Flush [] p"

text \<open>Reading \<open>argv[i]\<close> as a string: \<open>argv[argc]\<close> is NULL, and dereferencing it is undefined.\<close>

definition with_arg :: "string list \<Rightarrow> nat \<Rightarrow> (string \<Rightarrow> prog) \<Rightarrow> prog" where
  "with_arg argv i f = (if i < length argv then f (argv ! i) else Halt Undefined)"

text \<open>A store into a char array, undefined outside of it.\<close>

definition poke :: "string \<Rightarrow> nat \<Rightarrow> char \<Rightarrow> (string \<Rightarrow> prog) \<Rightarrow> prog" where
  "poke b i c f = (if i < length b then f (b[i := c]) else Halt Undefined)"

section \<open>Runs\<close>

datatype event = Emit port string | Did syscall ret

type_synonym 'k kernel = "'k \<Rightarrow> syscall \<Rightarrow> ret \<times> 'k"

primrec run :: "'k kernel \<Rightarrow> prog \<Rightarrow> 'k \<Rightarrow> event list \<times> outcome \<times> 'k" where
  "run K (Halt out) = (\<lambda>k. ([], out, k))"
| "run K (Put p s q) = (\<lambda>k. case run K q k of (tr, out, k') \<Rightarrow> (Emit p s # tr, out, k'))"
| "run K (Call c f) =
     (\<lambda>k. case K k c of (r, k1) \<Rightarrow>
            case run K (f r) k1 of (tr, out, k2) \<Rightarrow> (Did c r # tr, out, k2))"

definition trace :: "'k kernel \<Rightarrow> prog \<Rightarrow> 'k \<Rightarrow> event list" where
  "trace K p k = fst (run K p k)"

definition outcome :: "'k kernel \<Rightarrow> prog \<Rightarrow> 'k \<Rightarrow> outcome" where
  "outcome K p k = fst (snd (run K p k))"

definition final :: "'k kernel \<Rightarrow> prog \<Rightarrow> 'k \<Rightarrow> 'k" where
  "final K p k = snd (snd (run K p k))"

text \<open>What appears on a standard stream, and the calls of a run, in order.\<close>

fun emitted :: "port \<Rightarrow> event list \<Rightarrow> string" where
  "emitted p [] = []"
| "emitted p (Emit q s # es) = (if q = p then s else []) @ emitted p es"
| "emitted p (Did c r # es) = emitted p es"

fun calls :: "event list \<Rightarrow> syscall list" where
  "calls [] = []"
| "calls (Emit q s # es) = calls es"
| "calls (Did c r # es) = c # calls es"

text \<open>A kernel that answers from a list, and then fails every call.\<close>

fun script :: "ret list kernel" where
  "script [] c = (fail 5, [])"
| "script (r # rs) c = (r, rs)"

section \<open>Lemmas on runs\<close>

lemma run_parts: "run K p k = (trace K p k, outcome K p k, final K p k)"
  by (simp add: trace_def outcome_def final_def)

lemma trace_simps [simp]:
  "trace K (Halt out) k = []"
  "trace K (Put q s p) k = Emit q s # trace K p k"
  "trace K (Call c f) k = Did c (fst (K k c)) # trace K (f (fst (K k c))) (snd (K k c))"
  by (simp_all add: trace_def split: prod.splits)

lemma outcome_simps [simp]:
  "outcome K (Halt out) k = out"
  "outcome K (Put q s p) k = outcome K p k"
  "outcome K (Call c f) k = outcome K (f (fst (K k c))) (snd (K k c))"
  by (simp_all add: outcome_def split: prod.splits)

lemma final_simps [simp]:
  "final K (Halt out) k = k"
  "final K (Put q s p) k = final K p k"
  "final K (Call c f) k = final K (f (fst (K k c))) (snd (K k c))"
  by (simp_all add: final_def split: prod.splits)

lemma emitted_append [simp]: "emitted p (es @ fs) = emitted p es @ emitted p fs"
  by (induction es rule: emitted.induct) simp_all

lemma calls_append [simp]: "calls (es @ fs) = calls es @ calls fs"
  by (induction es rule: calls.induct) simp_all

lemma with_arg_simps [simp]:
  "i < length argv \<Longrightarrow> with_arg argv i f = f (argv ! i)"
  "\<not> i < length argv \<Longrightarrow> with_arg argv i f = Halt Undefined"
  by (simp_all add: with_arg_def)

lemma poke_simps [simp]:
  "i < length b \<Longrightarrow> poke b i c f = f (b[i := c])"
  "\<not> i < length b \<Longrightarrow> poke b i c f = Halt Undefined"
  by (simp_all add: poke_def)

text \<open>
  \<open>leads K p k tr p' k'\<close>: started in kernel state \<open>k\<close>, the program \<open>p\<close> performs the events
  \<open>tr\<close> and is then at \<open>p'\<close> with the kernel in \<open>k'\<close>. Statements about a library function in
  continuation style have this form: it leads to its continuation, applied to its result.
\<close>

inductive leads :: "'k kernel \<Rightarrow> prog \<Rightarrow> 'k \<Rightarrow> event list \<Rightarrow> prog \<Rightarrow> 'k \<Rightarrow> bool" for K where
  leads_refl [intro!, simp]: "leads K p k [] p k"
| leads_Put: "leads K p k tr p' k' \<Longrightarrow> leads K (Put q s p) k (Emit q s # tr) p' k'"
| leads_Call: "K k c = (r, k1) \<Longrightarrow> leads K (f r) k1 tr p' k' \<Longrightarrow>
     leads K (Call c f) k (Did c r # tr) p' k'"

inductive_cases leads_HaltE [elim!]: "leads K (Halt out) k tr p' k'"

lemma leads_trans:
  "leads K p k tr p' k' \<Longrightarrow> leads K p' k' tr' p'' k'' \<Longrightarrow> leads K p k (tr @ tr') p'' k''"
  by (induction rule: leads.induct) (auto intro: leads_Put leads_Call)

lemma leads_run:
  "leads K p k tr p' k' \<Longrightarrow>
   trace K p k = tr @ trace K p' k' \<and> outcome K p k = outcome K p' k' \<and> final K p k = final K p' k'"
  by (induction rule: leads.induct) auto

lemma leads_end: "leads K p k tr (Halt out) k' \<Longrightarrow> run K p k = (tr, out, k')"
  using leads_run [of K p k tr "Halt out" k'] by (simp add: run_parts)

text \<open>The same without the trace.\<close>

definition reaches :: "'k kernel \<Rightarrow> prog \<Rightarrow> 'k \<Rightarrow> prog \<Rightarrow> 'k \<Rightarrow> bool" where
  "reaches K p k p' k' = (\<exists>tr. leads K p k tr p' k')"

lemma reaches_refl [intro!, simp]: "reaches K p k p k"
  by (auto simp: reaches_def)

lemma reaches_trans: "reaches K p k p' k' \<Longrightarrow> reaches K p' k' p'' k'' \<Longrightarrow> reaches K p k p'' k''"
  by (auto simp: reaches_def intro: leads_trans)

lemma reaches_Put: "reaches K p k p' k' \<Longrightarrow> reaches K (Put q s p) k p' k'"
  by (auto simp: reaches_def intro: leads_Put)

lemma reaches_Call:
  "reaches K (f (fst (K k c))) (snd (K k c)) p' k' \<Longrightarrow> reaches K (Call c f) k p' k'"
  unfolding reaches_def by (metis leads_Call prod.collapse)

lemmas reaches_intros = reaches_Put reaches_Call

lemma reaches_outcome: "reaches K p k p' k' \<Longrightarrow> outcome K p k = outcome K p' k'"
  and reaches_final: "reaches K p k p' k' \<Longrightarrow> final K p k = final K p' k'"
  by (auto simp: reaches_def dest: leads_run)

section \<open>What the manual pages promise of a single call\<close>

fun ret_ok :: "syscall \<Rightarrow> ret \<Rightarrow> bool" where
  "ret_ok (Io (Read fd n)) r =
     (rv r = -1 \<or> (0 \<le> rv r \<and> rv r = int (length (bytes r)) \<and> rv r \<le> n))"
| "ret_ok (Io (Write fd s)) r = (rv r = -1 \<or> (0 \<le> rv r \<and> rv r \<le> int (length s)))"
| "ret_ok (Io (Open p fl m)) r = (-1 \<le> rv r)"
| "ret_ok (Io (Close fd)) r = (rv r = -1 \<or> rv r = 0)"
| "ret_ok (Io (Dup2 a b)) r = (rv r = -1 \<or> rv r = b)"
| "ret_ok (Io Pipe) r = (rv r = -1 \<or> (rv r = 0 \<and> length (ints r) = 2))"
| "ret_ok (Proc Fork) r = (-1 \<le> rv r)"
| "ret_ok (Proc (Fgets fd n)) r = (int (length (bytes r)) \<le> max 0 (n - 1))"
| "ret_ok (Sock (Socket f t p)) r = (-1 \<le> rv r)"
| "ret_ok (Sock (Accept fd)) r = (-1 \<le> rv r)"
| "ret_ok (Sock (Bind fd a)) r = (rv r = -1 \<or> rv r = 0)"
| "ret_ok (Sock (Connect fd a)) r = (rv r = -1 \<or> rv r = 0)"
| "ret_ok (Sock (Listen fd b)) r = (rv r = -1 \<or> rv r = 0)"
| "ret_ok (Sock (Setsockopt fd l q v)) r = (rv r = -1 \<or> rv r = 0)"
| "ret_ok (Sock (Recvfrom fd n)) r =
     (rv r = -1 \<or> (0 \<le> rv r \<and> rv r = int (length (bytes r)) \<and> rv r \<le> n))"
| "ret_ok (Sock (Sendto fd s a)) r = (rv r = -1 \<or> (0 \<le> rv r \<and> rv r \<le> int (length s)))"
| "ret_ok c r = True"

text \<open>
  \<open>always P p\<close>: whatever answers the manual pages allow, \<open>p\<close> ends in an outcome that satisfies
  \<open>P\<close>. The instance \<open>safe\<close> is the absence of undefined behaviour.
\<close>

primrec always :: "(outcome \<Rightarrow> bool) \<Rightarrow> prog \<Rightarrow> bool" where
  "always P (Halt out) = P out"
| "always P (Put q s p) = always P p"
| "always P (Call c f) = (\<forall>r. ret_ok c r \<longrightarrow> always P (f r))"

abbreviation safe :: "prog \<Rightarrow> bool" where
  "safe p \<equiv> always (\<lambda>out. out \<noteq> Undefined) p"

text \<open>\<open>calls_only Q p\<close>: whatever answers the manual pages allow, \<open>p\<close> makes only calls that satisfy \<open>Q\<close>.\<close>

primrec calls_only :: "(syscall \<Rightarrow> bool) \<Rightarrow> prog \<Rightarrow> bool" where
  "calls_only Q (Halt out) = True"
| "calls_only Q (Put q s p) = calls_only Q p"
| "calls_only Q (Call c f) = (Q c \<and> (\<forall>r. ret_ok c r \<longrightarrow> calls_only Q (f r)))"

lemma always_poke [simp]:
  "i < length b \<Longrightarrow> always P (poke b i c f) = always P (f (b[i := c]))"
  by simp

locale posix =
  fixes K :: "'k kernel"
  assumes promised: "ret_ok c (fst (K k c))"
begin

lemma promised_ret: "K k c = (r, k') \<Longrightarrow> ret_ok c r"
  using promised [of c k] by simp

text \<open>Every call of a run gets an answer the manual pages allow.\<close>

lemma trace_promised: "Did c r \<in> set (trace K p k) \<Longrightarrow> ret_ok c r"
  by (induction p arbitrary: k) (auto simp: promised)

lemma always_outcome: "always P p \<Longrightarrow> P (outcome K p k)"
  by (induction p arbitrary: k) (auto simp: promised)

lemma calls_only_trace: "calls_only Q p \<Longrightarrow> c \<in> set (calls (trace K p k)) \<Longrightarrow> Q c"
proof (induction p arbitrary: k)
  case (Call d f)
  then show ?case using promised [of d k] by (fastforce simp: rangeI)
qed simp_all

end

text \<open>
  A kernel whose answers are replaced by a failure where they break the promise. It gives an
  instance of the interface over any kernel, in particular over \<open>script\<close>.
\<close>

definition guarded :: "'k kernel \<Rightarrow> 'k kernel" where
  "guarded K k c = (case K k c of (r, k') \<Rightarrow> (if ret_ok c r then r else fail 5, k'))"

lemma ret_ok_fail: "ret_ok c (fail e)"
  by (cases "(c, fail e)" rule: ret_ok.cases) simp_all

interpretation checked: posix "guarded K" for K :: "'k kernel"
  by unfold_locales (simp add: guarded_def ret_ok_fail split: prod.splits)

end
