(* ===== verification/Read_Line.thy ===== *)
theory Read_Line
  imports Syscalls
begin

text \<open>
  \<open>readLine\<close> (src/sockets/read_line.c): reads a line byte by byte from a descriptor into a
  caller's array of \<open>n\<close> bytes, restarting interrupted reads, discarding what does not fit and
  terminating the result with a NUL. The array is a list that stores are made into with
  \<open>poke\<close>, so that a store outside of it would end the run as \<open>Undefined\<close>.

  The locale \<open>byte_stream\<close> is the interface of a descriptor that delivers a finite stream of
  bytes with finitely many interruptions; the behaviour of \<open>readLine\<close> on such a descriptor
  (\<open>readLine_leads\<close>) is proved once in it.
\<close>

section \<open>The code\<close>

primrec readLine_loop ::
    "nat \<Rightarrow> int \<Rightarrow> nat \<Rightarrow> string \<Rightarrow> nat \<Rightarrow> (int \<times> int \<times> string \<Rightarrow> prog) \<Rightarrow> prog" where
  "readLine_loop 0 fd n buf totRead return = Halt Unfinished"
| "readLine_loop (Suc fuel) fd n buf totRead return =
     Call (Io (Read fd 1)) (\<lambda>r.
       if rv r = -1 then
         if err r = EINTR then readLine_loop fuel fd n buf totRead return
         else return (-1, err r, buf)
       else if rv r = 0 then
         if totRead = 0 then return (0, err r, buf)
         else poke buf totRead NUL (\<lambda>buf. return (int totRead, err r, buf))
       else if totRead < n - 1 then
         poke buf totRead (byte0 r) (\<lambda>buf.
           if byte0 r = NL
           then poke buf (totRead + 1) NUL (\<lambda>buf. return (int (totRead + 1), err r, buf))
           else readLine_loop fuel fd n buf (totRead + 1) return)
       else
         if byte0 r = NL
         then poke buf totRead NUL (\<lambda>buf. return (int totRead, err r, buf))
         else readLine_loop fuel fd n buf totRead return)"

definition readLine ::
    "nat \<Rightarrow> int \<Rightarrow> string option \<Rightarrow> nat \<Rightarrow> (int \<times> int \<times> string \<Rightarrow> prog) \<Rightarrow> prog" where
  "readLine fuel fd buffer n return =
     (if n \<le> 0 \<or> buffer = None then return (-1, EINVAL, (case buffer of None \<Rightarrow> [] | Some b \<Rightarrow> b))
      else readLine_loop fuel fd n (the buffer) 0 return)"

section \<open>What a line is\<close>

fun first_line :: "string \<Rightarrow> string" where
  "first_line [] = []"
| "first_line (c # s) = (if c = NL then [c] else c # first_line s)"

definition rest_lines :: "string \<Rightarrow> string" where
  "rest_lines s = drop (length (first_line s)) s"

lemma first_line_rest: "first_line s @ rest_lines s = s"
  by (induction s) (auto simp: rest_lines_def)

lemma first_line_Nil_iff [simp]: "first_line s = [] \<longleftrightarrow> s = []"
  by (cases s) auto

lemma first_line_NL: "NL \<notin> set s \<Longrightarrow> first_line (s @ NL # t) = s @ [NL]"
  by (induction s) auto

lemma first_line_no_NL: "NL \<notin> set s \<Longrightarrow> first_line s = s"
  by (induction s) auto

lemma rest_lines_Cons [simp]: "rest_lines (c # s) = (if c = NL then s else rest_lines s)"
  by (simp add: rest_lines_def)

lemma rest_lines_Nil [simp]: "rest_lines [] = []"
  by (simp add: rest_lines_def)

text \<open>
  What \<open>readLine\<close> returns, and what the array of size \<open>n\<close> holds then, when \<open>tot\<close> bytes are
  in the array \<open>b\<close> and the descriptor still delivers \<open>s\<close>.
\<close>

definition line_result :: "nat \<Rightarrow> string \<Rightarrow> nat \<Rightarrow> string \<Rightarrow> int \<times> string" where
  "line_result n b tot s =
     (if tot = 0 \<and> s = [] then (0, b)
      else let l = take (n - 1 - tot) (first_line s)
           in (int (tot + length l), take tot b @ l @ NUL # drop (Suc (tot + length l)) b))"

lemma line_result_Nil:
  "0 < tot \<Longrightarrow> tot < length b \<Longrightarrow> line_result n b tot [] = (int tot, b[tot := NUL])"
  by (simp add: line_result_def upd_conv_take_nth_drop)

lemma line_result_NL:
  assumes "tot < length b" and "tot < n - 1 \<Longrightarrow> Suc tot < length b"
  shows "line_result n b tot (NL # s) =
    (if tot < n - 1 then (int (tot + 1), b[tot := NL, tot + 1 := NUL]) else (int tot, b[tot := NUL]))"
  using assms by (auto simp: line_result_def Let_def upd_conv_take_nth_drop take_Cons')

lemma line_result_Cons:
  assumes "c \<noteq> NL" and "tot < length b" and "1 < n"
  shows "line_result n b tot (c # s) =
    (if tot < n - 1 then line_result n (b[tot := c]) (tot + 1) s else line_result n b tot s)"
proof (cases "tot < n - 1")
  case True
  then have "take (n - 1 - tot) (c # t) = c # take (n - 1 - (tot + 1)) t" for t :: string
    by (simp add: take_Cons' add.commute)
  with True assms show ?thesis
    by (simp add: line_result_def Let_def take_Suc_conv_app_nth flip: Suc_eq_plus1)
next
  case False
  with assms show ?thesis by (auto simp: line_result_def)
qed

section \<open>Descriptors that deliver a stream of bytes\<close>

text \<open>
  \<open>inp\<close> is what is still to be read (then end of file), \<open>intr\<close> bounds the interruptions still to
  come, \<open>frame\<close> is whatever a read of this descriptor does not change.
\<close>

locale byte_stream =
  fixes K :: "'k kernel" and fd :: int
    and good :: "'k \<Rightarrow> bool" and inp :: "'k \<Rightarrow> string" and intr :: "'k \<Rightarrow> nat" and frame :: "'k \<Rightarrow> 'f"
  assumes read_inv: "good k \<Longrightarrow> K k (Io (Read fd 1)) = (r, k') \<Longrightarrow> good k' \<and> frame k' = frame k"
    and read_step: "good k \<Longrightarrow> K k (Io (Read fd 1)) = (r, k') \<Longrightarrow>
      (rv r = -1 \<and> err r = EINTR \<and> inp k' = inp k \<and> intr k' < intr k) \<or>
      (inp k = [] \<and> rv r = 0 \<and> inp k' = [] \<and> intr k' \<le> intr k) \<or>
      (\<exists>c s. inp k = c # s \<and> rv r = 1 \<and> bytes r = [c] \<and> inp k' = s \<and> intr k' \<le> intr k)"
begin

text \<open>
  \<open>returns k s res return p\<close>: from \<open>k\<close>, the program \<open>p\<close> does nothing but read one byte at a time
  from \<open>fd\<close> until \<open>s\<close> is what is left to read, and then returns \<open>res\<close> to \<open>return\<close>.
\<close>

definition returns ::
    "'k \<Rightarrow> string \<Rightarrow> int \<times> string \<Rightarrow> (int \<times> int \<times> string \<Rightarrow> prog) \<Rightarrow> prog \<Rightarrow> bool" where
  "returns k s res return p = (\<exists>k' e tr.
     good k' \<and> frame k' = frame k \<and> inp k' = s \<and>
     set (calls tr) \<subseteq> {Io (Read fd 1)} \<and> (\<forall>q. emitted q tr = []) \<and>
     leads K p k tr (return (fst res, e, snd res)) k')"

lemma returns_now: "good k \<Longrightarrow> inp k = s \<Longrightarrow> returns k s (i, b) return (return (i, e, b))"
  unfolding returns_def by (intro exI [of _ k] exI [of _ e] exI [of _ "[]"]) simp

lemma returns_read:
  assumes K: "K k (Io (Read fd 1)) = (r, k1)" and "frame k1 = frame k"
    and "returns k1 s res return (f r)"
  shows "returns k s res return (Call (Io (Read fd 1)) f)"
proof -
  from assms(3) obtain k' e tr where
    k': "good k'" "frame k' = frame k1" "inp k' = s" "set (calls tr) \<subseteq> {Io (Read fd 1)}"
      "\<forall>q. emitted q tr = []" and l: "leads K (f r) k1 tr (return (fst res, e, snd res)) k'"
    unfolding returns_def by blast
  have "leads K (Call (Io (Read fd 1)) f) k (Did (Io (Read fd 1)) r # tr)
          (return (fst res, e, snd res)) k'"
    using K l by (rule leads_Call)
  with k' assms(2) show ?thesis
    unfolding returns_def
    by (intro exI [of _ k'] exI [of _ e] exI [of _ "Did (Io (Read fd 1)) r # tr"]) simp
qed

lemma readLine_loop_returns:
  assumes "good k" and "length (inp k) + intr k < fuel" and "tot < n" and "n \<le> length b" and "1 < n"
  shows "returns k (rest_lines (inp k)) (line_result n b tot (inp k)) return
    (readLine_loop fuel fd n b tot return)"
  using assms
proof (induction fuel arbitrary: k b tot)
  case 0
  then show ?case by simp
next
  case (Suc fuel)
  obtain r k1 where K: "K k (Io (Read fd 1)) = (r, k1)" by force
  have k1: "good k1" "frame k1 = frame k" using read_inv [OF Suc.prems(1) K] by simp_all
  note step = returns_read [OF K k1(2)]
  from read_step [OF Suc.prems(1) K] consider
      (intr) "rv r = -1" "err r = EINTR" "inp k1 = inp k" "intr k1 < intr k"
    | (eof) "inp k = []" "rv r = 0" "inp k1 = []"
    | (byte) c s where "inp k = c # s" "rv r = 1" "bytes r = [c]" "inp k1 = s" "intr k1 \<le> intr k"
    by blast
  then show ?case
  proof cases
    case intr
    with Suc.IH [of k1 tot b] Suc.prems k1 show ?thesis
      by (auto intro!: step)
  next
    case eof
    then show ?thesis
      using Suc.prems k1
      by (auto intro!: step returns_now simp: line_result_Nil line_result_def [of n b 0])
  next
    case byte
    then have b0: "byte0 r = c" by (simp add: byte0_def)
    show ?thesis
    proof (cases "c = NL")
      case True
      with byte b0 Suc.prems k1 show ?thesis
        by (auto intro!: step returns_now simp: line_result_NL)
    next
      case False
      with byte b0 Suc.prems k1 Suc.IH [of k1 tot b] Suc.IH [of k1 "tot + 1" "b[tot := c]"]
      show ?thesis
        by (auto intro!: step simp: line_result_Cons)
    qed
  qed
qed

lemma readLine_returns:
  assumes "good k" and "length (inp k) + intr k < fuel" and "1 < n" and "n \<le> length b"
  shows "returns k (rest_lines (inp k)) (line_result n b 0 (inp k)) return
    (readLine fuel fd (Some b) n return)"
  using readLine_loop_returns [OF assms(1,2) _ assms(4,3), of 0] assms(3) by (simp add: readLine_def)

end

section \<open>Properties\<close>

text \<open>
  (C1) On a descriptor that delivers a stream of bytes with finitely many interruptions,
  \<open>readLine\<close> with an array of \<open>n > 1\<close> bytes reads exactly one line (up to and including its
  newline, or up to end of file) and nothing after it, restarts every interrupted read, and
  returns the first \<open>n - 1\<close> bytes of the line, NUL-terminated in the array, and their number;
  it does return, given fuel for every byte and interruption.
\<close>

theorem readLine_reads_one_line:
  assumes "byte_stream K fd good inp intr frame" and "good k" and "length (inp k) + intr k < fuel"
    and "1 < n" and "n \<le> length b"
  shows "\<exists>k' e tr. good k' \<and> frame k' = frame k \<and> inp k' = rest_lines (inp k) \<and>
    set (calls tr) \<subseteq> {Io (Read fd 1)} \<and>
    leads K (readLine fuel fd (Some b) n return) k tr
      (return (fst (line_result n b 0 (inp k)), e, snd (line_result n b 0 (inp k)))) k'"
  using byte_stream.readLine_returns [OF assms, of return]
  unfolding byte_stream.returns_def [OF assms(1)] by blast

text \<open>
  Whatever the kernel answers, the stores stay inside the array and the value returned is -1 or
  the number of bytes before the NUL.
\<close>

definition line_returned :: "nat \<Rightarrow> string \<Rightarrow> int \<times> int \<times> string \<Rightarrow> bool" where
  "line_returned n b = (\<lambda>(i, e, b'). length b' = length b \<and> -1 \<le> i \<and> i < int n \<and>
     (0 < i \<longrightarrow> b' ! nat i = NUL))"

lemma readLine_loop_always:
  assumes "tot < n" and "n \<le> length b" and "length b = length b0"
    and "\<And>res. line_returned n b0 res \<Longrightarrow> always P (return res)" and "P Unfinished"
  shows "always P (readLine_loop fuel fd n b tot return)"
  using assms(1-3)
proof (induction fuel arbitrary: b tot)
  case 0
  then show ?case using assms(5) by simp
next
  case (Suc fuel)
  have lens: "tot < length b" "tot < n - 1 \<Longrightarrow> Suc tot < length b" "0 < length b"
    using Suc.prems by auto
  have ret: "line_returned n b0 (i, e, b')"
    if "length b' = length b" "-1 \<le> i" "i < int n" "0 < i \<Longrightarrow> b' ! nat i = NUL" for i e b'
    using that Suc.prems by (simp add: line_returned_def)
  show ?case
    using lens Suc.prems
    by (auto simp: always_poke nat_add_distrib nth_list_update simp del: poke_simps length_greater_0_conv intro!: Suc.IH assms(4) ret)
qed

lemma readLine_always:
  assumes "n \<le> length b" and "0 < n"
    and "\<And>res. line_returned n b res \<Longrightarrow> always P (return res)" and "P Unfinished"
  shows "always P (readLine fuel fd (Some b) n return)"
  using readLine_loop_always [OF assms(2,1) refl assms(3,4)] assms(2) by (simp add: readLine_def)

text \<open>
  The bytes that the reads of a trace delivered, and what \<open>readLine\<close> may hand to its caller when its
  reads delivered \<open>s\<close>: the array keeps its size and what it holds beyond its first \<open>n\<close> bytes; the
  value is -1, never for an interrupted read, or the number of bytes stored. These are the first
  bytes of \<open>s\<close>, with a NUL behind them, except that an end of file with nothing stored leaves the array
  as it was.
\<close>

definition byte_of :: "ret \<Rightarrow> string" where
  "byte_of r = (if rv r = -1 \<or> rv r = 0 then [] else [byte0 r])"

fun delivered :: "event list \<Rightarrow> string" where
  "delivered [] = []"
| "delivered (Did c r # tr) = byte_of r @ delivered tr"
| "delivered (Emit q x # tr) = delivered tr"

definition line_stored :: "nat \<Rightarrow> string \<Rightarrow> string \<Rightarrow> int \<Rightarrow> string \<Rightarrow> bool" where
  "line_stored n b s i b' = (i = int (min (n - 1) (length s)) \<and> take (nat i) b' = take (nat i) s \<and>
     (b' ! nat i = NUL \<or> i = 0 \<and> b' = b \<and> (s = [] \<or> n = 1)))"

definition line_typed :: "nat \<Rightarrow> string \<Rightarrow> string \<Rightarrow> int \<times> int \<times> string \<Rightarrow> bool" where
  "line_typed n b s = (\<lambda>(i, e, b'). length b' = length b \<and> drop n b' = drop n b \<and>
     (if i = -1 then e \<noteq> EINTR else i < int n \<and> line_stored n b s i b'))"

definition returns_line :: "'k kernel \<Rightarrow> int \<Rightarrow> nat \<Rightarrow> nat \<Rightarrow> string \<Rightarrow> string \<Rightarrow> (int \<times> int \<times> string \<Rightarrow> prog) \<Rightarrow> prog \<Rightarrow> 'k \<Rightarrow> bool" where
  "returns_line K fd fuel n b s return p k = (\<exists>tr p' k'. leads K p k tr p' k' \<and> set (calls tr) \<subseteq> {Io (Read fd 1)} \<and> length (calls tr) \<le> fuel \<and>
     ((\<exists>res. p' = return res \<and> line_typed n b (s @ delivered tr) res) \<or> p' = Halt Unfinished \<and> length (calls tr) = fuel))"

lemma returns_line_now: "line_typed n b s res \<Longrightarrow> returns_line K fd fuel n b s return (return res) k"
  unfolding returns_line_def by (intro exI [of _ "[]"] exI [of _ "return res"] exI [of _ k] conjI disjI1 exI [of _ res]) simp_all

lemma returns_line_Call:
  assumes "\<And>r k. returns_line K fd fuel n b (s @ byte_of r) return (f r) k"
  shows "returns_line K fd (Suc fuel) n b s return (Call (Io (Read fd 1)) f) k"
proof -
  obtain r k1 where r: "K k (Io (Read fd 1)) = (r, k1)" by (cases "K k (Io (Read fd 1))")
  obtain tr p' k' where "leads K (f r) k1 tr p' k'" "set (calls tr) \<subseteq> {Io (Read fd 1)}" "length (calls tr) \<le> fuel"
    "(\<exists>res. p' = return res \<and> line_typed n b ((s @ byte_of r) @ delivered tr) res) \<or> p' = Halt Unfinished \<and> length (calls tr) = fuel"
    using assms [of r k1] unfolding returns_line_def by blast
  then show ?thesis unfolding returns_line_def
    by (intro exI [of _ "Did (Io (Read fd 1)) r # tr"] exI [of _ p'] exI [of _ k'] conjI) (auto intro: leads_Call [where K = K and k = k, OF r])
qed

lemma line_typed_stop:
  assumes "tot = min (n - 1) (length s)" "0 < n" "n \<le> length b" "length b = length b0" "drop n b = drop n b0" "take tot b = take tot s"
  shows "line_typed n b0 s (int tot, e, b[tot := NUL])"
  using assms by (auto simp: line_typed_def line_stored_def)

text \<open>\<open>tot\<close> of the bytes \<open>s\<close> delivered so far are in the array.\<close>

lemma readLine_loop_typed:
  assumes "tot = min (n - 1) (length s)" "0 < n" "n \<le> length b" "length b = length b0" "drop n b = drop n b0"
    "take tot b = take tot s" "tot = 0 \<Longrightarrow> b = b0"
  shows "returns_line K fd fuel n b0 s return (readLine_loop fuel fd n b tot return) k"
  using assms
proof (induction fuel arbitrary: b tot s k)
  case (0 b tot s k)
  show ?case unfolding returns_line_def by (intro exI [of _ "[]"] exI [of _ "Halt Unfinished"] exI [of _ k]) auto
next
  case (Suc fuel)
  note stop = line_typed_stop [OF Suc.prems(1-6)]
  have lens: "tot < length b" "tot < n - 1 \<Longrightarrow> Suc tot < length b \<and> tot = length s" using Suc.prems by auto
  have eof: "line_typed n b0 s (0, e, b)" if "tot = 0" for e
    using that Suc.prems by (auto simp: line_typed_def line_stored_def min_def split: if_splits)
  have more: "take (Suc tot) (b[tot := c]) = take (Suc tot) (s @ [c])" if "tot < n - 1" for c
    using that lens Suc.prems(6) by (simp add: take_Suc_conv_app_nth)
  show ?case unfolding readLine_loop.simps
  proof (rule returns_line_Call)
    fix r :: ret and k
    let ?loop = "\<lambda>b tot. readLine_loop fuel fd n b tot return" and ?ret = "\<lambda>s p. returns_line K fd fuel n b0 s return p k"
    consider "rv r = -1" | "rv r = 0" | (got) "rv r \<noteq> -1" "rv r \<noteq> 0" by blast
    then show "?ret (s @ byte_of r) (if rv r = -1 then if err r = EINTR then ?loop b tot else return (-1, err r, b)
       else if rv r = 0 then if tot = 0 then return (0, err r, b) else poke b tot NUL (\<lambda>b. return (int tot, err r, b))
       else if tot < n - 1 then poke b tot (byte0 r) (\<lambda>b.
           if byte0 r = NL then poke b (tot + 1) NUL (\<lambda>b. return (int (tot + 1), err r, b)) else ?loop b (tot + 1))
       else if byte0 r = NL then poke b tot NUL (\<lambda>b. return (int tot, err r, b)) else ?loop b tot)"
    proof cases
      case 1
      have "line_typed n b0 s (-1, err r, b)" if "err r \<noteq> EINTR" using that Suc.prems by (simp add: line_typed_def)
      with 1 show ?thesis using Suc.IH [OF Suc.prems] by (simp add: byte_of_def returns_line_now)
    next
      case 2
      then show ?thesis using stop eof lens by (simp add: byte_of_def returns_line_now)
    next
      case got
      then show ?thesis
      proof (cases "tot < n - 1")
        case True
        have len: "Suc tot = min (n - 1) (length (s @ [byte0 r]))" using True lens by simp
        have b1: "n \<le> length (b[tot := byte0 r])" "length (b[tot := byte0 r]) = length b0" "drop n (b[tot := byte0 r]) = drop n b0"
          using Suc.prems True by simp_all
        note prems = len Suc.prems(2) b1 more [OF True]
        show ?thesis using got True lens line_typed_stop [OF prems] Suc.IH [OF prems]
          by (auto simp: byte_of_def intro!: returns_line_now)
      next
        case False
        have prems: "tot = min (n - 1) (length (s @ [byte0 r]))" "take tot b = take tot (s @ [byte0 r])" using False Suc.prems(1,6) by auto
        show ?thesis
          using got False lens line_typed_stop [OF prems(1) Suc.prems(2-5) prems(2)] Suc.IH [OF prems(1) Suc.prems(2-5) prems(2) Suc.prems(7)]
          by (auto simp: byte_of_def intro!: returns_line_now)
      qed
    qed
  qed
qed

lemma line_stored_cstr:
  assumes "line_stored n b s i b'" and "0 < i" and "i < int (length b')" and "no_nul s"
  shows "cstr b' = take (nat i) s"
proof -
  have "b' = take (nat i) s @ NUL # drop (Suc (nat i)) b'"
    using assms(1-3) id_take_nth_drop [of "nat i" b'] by (auto simp: line_stored_def)
  moreover have "no_nul (take (nat i) s)" using assms(4) by (auto simp: no_nul_def list_all_iff dest: in_set_takeD)
  ultimately show ?thesis by (metis cstr_append_nul cstr_no_nul)
qed

lemma line_typed_facts:
  assumes "n \<le> length b" and "line_typed n b s (i, e, b')"
  shows "length b' = length b \<and> drop n b' = drop n b \<and>
    (i = -1 \<and> e \<noteq> EINTR \<or>
     i < int n \<and> i = int (min (n - 1) (length s)) \<and> take (nat i) b' = take (nat i) s \<and>
     (b' ! nat i = NUL \<or> i = 0 \<and> b' = b \<and> (s = [] \<or> n = 1)) \<and>
     (0 < i \<and> no_nul s \<longrightarrow> length (cstr b') = nat i))"
proof (cases "i = -1")
  case True
  then show ?thesis using assms(2) by (simp add: line_typed_def)
next
  case False
  then have st: "line_stored n b s i b'" "i < int n" "length b' = length b" "drop n b' = drop n b"
    using assms(2) by (simp_all add: line_typed_def)
  have "length (cstr b') = nat i" if "0 < i" "no_nul s"
    using line_stored_cstr [OF st(1) that(1) _ that(2)] st that(1) assms(1) by (auto simp: line_stored_def)
  then show ?thesis using st unfolding line_stored_def by blast
qed

text \<open>
  (C16) Whatever the system answers (no promise of any manual page is assumed), \<open>readLine\<close> does nothing but
  read single bytes from its descriptor, stores inside of the first n bytes of its array only, and
  hands its caller -1, and then for another reason than an interruption, or the number i < n of bytes
  it stored: the first of the bytes that its reads delivered, all of them or n - 1. Behind them it
  stores a NUL, so that i is the length of the string in the array when no byte delivered was a NUL.
  The exception is an end of file when nothing is stored: then i is 0 and the array is left as it
  was, without a NUL. readLine goes on only as long as reads are answered.
\<close>

theorem readLine_typed:
  assumes "n \<le> length b"
  shows "\<exists>tr p' k'. leads K (readLine fuel fd (Some b) n return) k tr p' k' \<and> set (calls tr) \<subseteq> {Io (Read fd 1)} \<and> length (calls tr) \<le> fuel \<and>
    ((\<exists>i e b'. p' = return (i, e, b') \<and> length b' = length b \<and> drop n b' = drop n b \<and>
        (i = -1 \<and> e \<noteq> EINTR \<or>
         i < int n \<and> i = int (min (n - 1) (length (delivered tr))) \<and> take (nat i) b' = take (nat i) (delivered tr) \<and>
         (b' ! nat i = NUL \<or> i = 0 \<and> b' = b \<and> (delivered tr = [] \<or> n = 1)) \<and>
         (0 < i \<and> no_nul (delivered tr) \<longrightarrow> length (cstr b') = nat i))) \<or>
     p' = Halt Unfinished \<and> length (calls tr) = fuel)"
proof -
  have "returns_line K fd fuel n b [] return (readLine fuel fd (Some b) n return) k"
  proof (cases "n = 0")
    case True
    then show ?thesis by (auto simp: readLine_def line_typed_def intro: returns_line_now)
  next
    case False
    then show ?thesis using readLine_loop_typed [of 0 n "[]" b b] assms by (simp add: readLine_def)
  qed
  then obtain tr p' k' where tr: "leads K (readLine fuel fd (Some b) n return) k tr p' k'" "set (calls tr) \<subseteq> {Io (Read fd 1)}"
      "length (calls tr) \<le> fuel"
    and cases: "(\<exists>res. p' = return res \<and> line_typed n b (delivered tr) res) \<or> p' = Halt Unfinished \<and> length (calls tr) = fuel"
    unfolding returns_line_def append_Nil by blast
  from cases show ?thesis
  proof
    assume "\<exists>res. p' = return res \<and> line_typed n b (delivered tr) res"
    then obtain i e b' where res: "p' = return (i, e, b')" "line_typed n b (delivered tr) (i, e, b')" by auto
    then show ?thesis using tr line_typed_facts [OF assms res(2)] by blast
  next
    assume "p' = Halt Unfinished \<and> length (calls tr) = fuel"
    then show ?thesis using tr by blast
  qed
qed

lemma readLine_typed_witness:
  "\<exists>tr p' k'. leads (\<lambda>k c. (got ''xy'', k)) (readLine 3 0 (Some ''abc'') 2 (\<lambda>res. exit 0)) () tr p' k' \<and> length (calls tr) \<le> 3"
  using readLine_typed [of 2 "''abc''" "\<lambda>k c. (got ''xy'', k)" 3 0 "\<lambda>res. exit 0" "()"] by auto

end
