(* ===== verification/Net_Kernel.thy ===== *)
theory Net_Kernel
  imports Read_Line
begin

text \<open>
  A kernel for the stream-socket programs, as the manual pages describe accept, read, write and
  close on TCP sockets: clients wait in a queue, each with the bytes it sends (and the signals
  that interrupt the reads of those bytes); accept takes the next one; a read of the connection
  delivers its next byte, is interrupted, or reports end of file; writes are recorded. The
  number of open connections is counted, so that a leaked descriptor shows.
  Everything else succeeds. The kernel provides the interface \<open>byte_stream\<close> that \<open>readLine\<close>
  relies on.
\<close>

datatype item = Byte char | Intr

record net =
  pending :: "item list list"
  conn :: "item list"
  outbox :: "string list"
  opened :: int

definition conn_fd :: int where "conn_fd = 4"

fun sent :: "item list \<Rightarrow> string" where
  "sent [] = []"
| "sent (Byte c # xs) = c # sent xs"
| "sent (Intr # xs) = sent xs"

definition net_read :: "net \<Rightarrow> ret \<times> net" where
  "net_read s = (case conn s of
      [] \<Rightarrow> (ok 0, s)
    | Intr # xs \<Rightarrow> (fail EINTR, s\<lparr>conn := xs\<rparr>)
    | Byte c # xs \<Rightarrow> (got [c], s\<lparr>conn := xs\<rparr>))"

definition net_io :: "net \<Rightarrow> io_call \<Rightarrow> ret \<times> net" where
  "net_io s c = (case c of
      Read fd n \<Rightarrow> if fd = conn_fd \<and> 0 < n then net_read s else (ok 0, s)
    | Write fd b \<Rightarrow> (ok (int (length b)), s\<lparr>outbox := outbox s @ [b]\<rparr>)
    | Close fd \<Rightarrow> (ok 0, s\<lparr>opened := opened s - 1\<rparr>)
    | _ \<Rightarrow> (ok 0, s))"

definition net_sock :: "net \<Rightarrow> sock_call \<Rightarrow> ret \<times> net" where
  "net_sock s c = (case c of
      Accept fd \<Rightarrow> (case pending s of
          [] \<Rightarrow> (fail EAGAIN, s)
        | x # xs \<Rightarrow> (ok conn_fd, s\<lparr>pending := xs, conn := x, opened := opened s + 1\<rparr>))
    | Socket f t p \<Rightarrow> (ok conn_fd, s\<lparr>opened := opened s + 1\<rparr>)
    | Getaddrinfo h v i fl \<Rightarrow> ((ok 0)\<lparr>ais := [i]\<rparr>, s)
    | Getnameinfo a fl \<Rightarrow> ((ok 0)\<lparr>strs := [''host'', ''port'']\<rparr>, s)
    | _ \<Rightarrow> (ok 0, s))"

definition net_K :: "net kernel" where
  "net_K s c = (case c of Io i \<Rightarrow> net_io s i | Sock i \<Rightarrow> net_sock s i | _ \<Rightarrow> (ok 0, s))"

lemmas net_defs = net_K_def net_io_def net_sock_def net_read_def

text \<open>The interruptions still to come are what shrinks while no byte is delivered.\<close>

definition interrupts :: "net \<Rightarrow> nat" where
  "interrupts s = length (filter (\<lambda>i. i = Intr) (conn s))"

definition net_frame :: "net \<Rightarrow> item list list \<times> string list \<times> int" where
  "net_frame s = (pending s, outbox s, opened s)"

interpretation net_stream:
  byte_stream net_K conn_fd "\<lambda>s. True" "\<lambda>s. sent (conn s)" interrupts net_frame
proof unfold_locales
  fix k r k'
  assume K: "net_K k (Io (Read conn_fd 1)) = (r, k')"
  then show "True \<and> net_frame k' = net_frame k"
    by (auto simp: net_defs net_frame_def split: list.splits item.splits)
  show "(rv r = -1 \<and> err r = EINTR \<and> sent (conn k') = sent (conn k) \<and> interrupts k' < interrupts k) \<or>
      (sent (conn k) = [] \<and> rv r = 0 \<and> sent (conn k') = [] \<and> interrupts k' \<le> interrupts k) \<or>
      (\<exists>c s. sent (conn k) = c # s \<and> rv r = 1 \<and> bytes r = [c] \<and> sent (conn k') = s \<and>
             interrupts k' \<le> interrupts k)"
    using K by (auto simp: net_defs interrupts_def split: list.splits item.splits)
qed

text \<open>\<open>readLine\<close> on a connection that sends two lines, with one interruption.\<close>

lemma readLine_reads_one_line_witness:
  "\<exists>k' e tr. sent (conn k') = ''x'' \<and>
     leads net_K (readLine 9 conn_fd (Some ''.........'') 9 (\<lambda>(i, e, b). exit i))
       \<lparr>pending = [], conn = [Byte (CHR ''h''), Intr, Byte (CHR ''i''), Byte NL, Byte (CHR ''x'')],
        outbox = [], opened = 1\<rparr> tr (exit 3) k'"
proof -
  let ?k = "\<lparr>pending = [], conn = [Byte (CHR ''h''), Intr, Byte (CHR ''i''), Byte NL, Byte (CHR ''x'')],
        outbox = [], opened = 1\<rparr> :: net"
  have fuel: "length (sent (conn ?k)) + interrupts ?k < 9" by (simp add: interrupts_def)
  have "line_result 9 ''.........'' 0 (sent (conn ?k)) = (3, ''hi\<newline>'' @ NUL # ''.....'')"
    by (simp add: line_result_def Let_def)
  moreover have "rest_lines (sent (conn ?k)) = ''x''" by simp
  ultimately show ?thesis
    using readLine_reads_one_line [where n = 9 and b = "''.........''" and return = "\<lambda>(i, e, b). exit i"
        and k = ?k and fuel = 9, OF net_stream.byte_stream_axioms] fuel
    by auto
qed

end
