(* ===== verification/Seq_Alloc.thy ===== *)
theory Seq_Alloc
  imports Prelude
begin

text \<open>
  What the two sequence-number services of the repository promise (the FIFO server of
  src/pipes_and_fifo and the TCP server of src/sockets): a request for \<open>n\<close> numbers is granted
  \<open>n\<close> consecutive numbers starting at the current position, which then moves behind them, and a
  refused request changes nothing. The locale \<open>seq_allocator\<close> is that contract. From it follows,
  once for both servers, that no number is ever handed out twice and none is skipped
  (\<open>grants_disjoint\<close>, \<open>grants_cover\<close>).

  A server does not keep the contract for every request (a request may be negative, or the
  counter may wrap around); \<open>fair s q\<close> says for which it does.
\<close>

text \<open>Serving a sequence of requests: the granted ranges (start, length) and the state in the end.\<close>

fun serve_all :: "('s \<Rightarrow> 'q \<Rightarrow> (int \<times> int) option \<times> 's) \<Rightarrow> 's \<Rightarrow> 'q list \<Rightarrow> (int \<times> int) list \<times> 's" where
  "serve_all serve s [] = ([], s)"
| "serve_all serve s (q # qs) =
     (case serve s q of (g, s') \<Rightarrow>
        case serve_all serve s' qs of (gs, t) \<Rightarrow>
          ((case g of None \<Rightarrow> gs | Some g \<Rightarrow> g # gs), t))"

fun all_fair :: "('s \<Rightarrow> 'q \<Rightarrow> 'g \<times> 's) \<Rightarrow> ('s \<Rightarrow> 'q \<Rightarrow> bool) \<Rightarrow> 's \<Rightarrow> 'q list \<Rightarrow> bool" where
  "all_fair serve fair s [] = True"
| "all_fair serve fair s (q # qs) = (fair s q \<and> all_fair serve fair (snd (serve s q)) qs)"

definition range_set :: "int \<times> int \<Rightarrow> int set" where
  "range_set g = {fst g ..< fst g + snd g}"

locale seq_allocator =
  fixes pos :: "'s \<Rightarrow> int" and serve :: "'s \<Rightarrow> 'q \<Rightarrow> (int \<times> int) option \<times> 's"
    and fair :: "'s \<Rightarrow> 'q \<Rightarrow> bool"
  assumes granted: "fair s q \<Longrightarrow> serve s q = (Some (a, n), s') \<Longrightarrow> 0 \<le> n \<and> a = pos s \<and> pos s' = pos s + n"
    and refused: "fair s q \<Longrightarrow> serve s q = (None, s') \<Longrightarrow> pos s' = pos s"
begin

lemma serve_fair:
  assumes "fair s q" and "serve s q = (g, s')"
  shows "pos s \<le> pos s' \<and> (case g of None \<Rightarrow> pos s' = pos s | Some g \<Rightarrow> range_set g = {pos s ..< pos s'})"
  using assms granted refused by (cases g) (force simp: range_set_def)+

lemma grants_cover:
  "all_fair serve fair s qs \<Longrightarrow> serve_all serve s qs = (gs, t) \<Longrightarrow>
   pos s \<le> pos t \<and> (\<Union>g \<in> set gs. range_set g) = {pos s ..< pos t}"
proof (induction qs arbitrary: s gs t)
  case Nil
  then show ?case by simp
next
  case (Cons q qs)
  obtain g s' where q: "serve s q = (g, s')" by force
  obtain gs' where qs: "serve_all serve s' qs = (gs', t)" and gs: "gs = (case g of None \<Rightarrow> gs' | Some g \<Rightarrow> g # gs')"
    using Cons.prems(2) q by (auto split: prod.splits)
  from Cons.IH [OF _ qs] Cons.prems(1) q
  have "pos s' \<le> pos t" "(\<Union>g \<in> set gs'. range_set g) = {pos s' ..< pos t}" by auto
  with serve_fair [OF _ q] Cons.prems(1) gs show ?case
    by (auto split: option.splits)
qed

lemma grants_disjoint:
  "all_fair serve fair s qs \<Longrightarrow> serve_all serve s qs = (gs, t) \<Longrightarrow> i < j \<Longrightarrow> j < length gs \<Longrightarrow>
   range_set (gs ! i) \<inter> range_set (gs ! j) = {}"
proof (induction qs arbitrary: s gs t i j)
  case Nil
  then show ?case by simp
next
  case (Cons q qs)
  obtain g s' where q: "serve s q = (g, s')" by force
  obtain gs' where qs: "serve_all serve s' qs = (gs', t)" and gs: "gs = (case g of None \<Rightarrow> gs' | Some g \<Rightarrow> g # gs')"
    using Cons.prems(2) q by (auto split: prod.splits)
  have fair: "fair s q" "all_fair serve fair s' qs" using Cons.prems(1) q by simp_all
  show ?case
  proof (cases g)
    case None
    with Cons.IH [OF fair(2) qs Cons.prems(3)] Cons.prems(4) gs show ?thesis by simp
  next
    case (Some h)
    show ?thesis
    proof (cases i)
      case 0
      then obtain j' where j: "j = Suc j'" using Cons.prems(3) by (cases j) auto
      with Cons.prems(4) gs Some have "range_set (gs' ! j') \<subseteq> (\<Union>g \<in> set gs'. range_set g)"
        by (intro UN_upper) simp
      also have "\<dots> = {pos s' ..< pos t}" using grants_cover [OF fair(2) qs] by simp
      finally show ?thesis using serve_fair [OF fair(1) q] Some 0 j gs by auto
    next
      case (Suc i')
      with Cons.IH [OF fair(2) qs, of i' "j - 1"] Cons.prems(3,4) gs Some show ?thesis
        by (cases j) auto
    qed
  qed
qed

end

end
