(* ===== verification/Seqnum_Net.thy ===== *)
theory Seqnum_Net
  imports Net_Kernel Seq_Alloc
begin

text \<open>
  The TCP sequence-number service: src/sockets/net_stream_sock_seqnum_server.c and
  net_stream_sock_seqnum_client.c (with net_stream_sock_seqnum.h). The server's counter is the
  \<open>uint32_t\<close> of the source, a 32-bit word; the client's request and the server's answer are
  newline-terminated decimal strings read with \<open>readLine\<close> into arrays of INT_LEN bytes.

  Loops: the walk over the addresses is structural; \<open>seqnum_server_loop n\<close> is the first \<open>n\<close>
  iterations of the server's endless loop; \<open>rl\<close> is the fuel of \<open>readLine\<close>.
\<close>

section \<open>The code\<close>

definition PORT_NUM :: string where "PORT_NUM = ''50000''"
definition INT_LEN :: nat where "INT_LEN = 30"
definition BACKLOG :: int where "BACKLOG = 50"
definition NI_MAXHOST :: nat where "NI_MAXHOST = 1025"
definition NI_MAXSERV :: nat where "NI_MAXSERV = 32"
definition ADDRSTRLEN :: nat where "ADDRSTRLEN = NI_MAXHOST + NI_MAXSERV + 10"

abbreviation (input) AF_UNSPEC :: int where "AF_UNSPEC \<equiv> 0"
abbreviation (input) SOCK_STREAM :: int where "SOCK_STREAM \<equiv> 1"
abbreviation (input) SOCK_DGRAM :: int where "SOCK_DGRAM \<equiv> 2"
abbreviation (input) SOL_SOCKET :: int where "SOL_SOCKET \<equiv> 1"
abbreviation (input) SO_REUSEADDR :: int where "SO_REUSEADDR \<equiv> 2"
abbreviation (input) SIGPIPE :: int where "SIGPIPE \<equiv> 13"
abbreviation (input) AI_PASSIVE :: flags where "AI_PASSIVE \<equiv> 1"
abbreviation (input) AI_NUMERICSERV :: flags where "AI_NUMERICSERV \<equiv> 1024"

text \<open>\<open>memset(&hints, 0, ...)\<close> and the assignments after it.\<close>

definition stream_hints :: addrinfo where
  "stream_hints = \<lparr>ai_family = AF_UNSPEC, ai_socktype = SOCK_STREAM, ai_protocol = 0,
                   ai_addrlen = 0, ai_addr = []\<rparr>"

text \<open>The client's walk over the addresses: the connected socket, or None.\<close>

fun connect_walk :: "addrinfo list \<Rightarrow> (int option \<Rightarrow> prog) \<Rightarrow> prog" where
  "connect_walk [] found = found None"
| "connect_walk (rp # rps) found =
     Call (Sock (Socket (ai_family rp) (ai_socktype rp) (ai_protocol rp))) (\<lambda>s.
       if rv s = -1 then connect_walk rps found
       else Call (Sock (Connect (rv s) (ai_addr rp))) (\<lambda>c.
         if rv c \<noteq> -1 then found (Some (rv s))
         else Call (Io (Close (rv s))) (\<lambda>_. connect_walk rps found)))"

text \<open>The server's walk: the bound socket, or None.\<close>

fun bind_walk :: "addrinfo list \<Rightarrow> (int option \<Rightarrow> prog) \<Rightarrow> prog" where
  "bind_walk [] found = found None"
| "bind_walk (rp # rps) found =
     Call (Sock (Socket (ai_family rp) (ai_socktype rp) (ai_protocol rp))) (\<lambda>s.
       if rv s = -1 then bind_walk rps found
       else Call (Sock (Setsockopt (rv s) SOL_SOCKET SO_REUSEADDR 1)) (\<lambda>q.
         if rv q = -1 then perror ''setsockopt'' (exit EXIT_FAILURE)
         else Call (Sock (Bind (rv s) (ai_addr rp))) (\<lambda>b.
           if rv b = 0 then found (Some (rv s))
           else Call (Io (Close (rv s))) (\<lambda>_. bind_walk rps found))))"

text \<open>
  The part of an iteration from the test of what \<open>readLine\<close> returned; \<open>next\<close> is the next
  iteration, given the counter and the array.
\<close>

definition seqnum_answer ::
    "int \<Rightarrow> 32 word \<Rightarrow> (32 word \<Rightarrow> string \<Rightarrow> prog) \<Rightarrow> int \<times> int \<times> string \<Rightarrow> prog" where
  "seqnum_answer cfd seqNum next = (\<lambda>(numRead, e, reqLenStr).
     if numRead \<le> 0 then Call (Io (Close cfd)) (\<lambda>_. next seqNum reqLenStr)
     else let reqLen = atoi (cstr reqLenStr) in
     if reqLen < 0 then Call (Io (Close cfd)) (\<lambda>_. next seqNum reqLenStr)
     else let seqNumStr = snprintf INT_LEN (show_int (sint seqNum) @ [NL]) in
       Call (Io (Write cfd seqNumStr)) (\<lambda>w.
         (if rv w \<noteq> int (length seqNumStr) then Put Stderr ''Error on write'' else (\<lambda>p. p))
         (Call (Io (Close cfd)) (\<lambda>c.
            if rv c = -1 then perror ''close'' (exit EXIT_FAILURE)
            else next (seqNum + word_of_int reqLen) reqLenStr))))"

fun seqnum_server_loop :: "nat \<Rightarrow> nat \<Rightarrow> int \<Rightarrow> 32 word \<Rightarrow> string \<Rightarrow> prog" where
  "seqnum_server_loop 0 rl lfd seqNum reqLenStr = Halt Unfinished"
| "seqnum_server_loop (Suc n) rl lfd seqNum reqLenStr =
     Call (Sock (Accept lfd)) (\<lambda>a.
       if rv a = -1 then eprintf ''accept'' (seqnum_server_loop n rl lfd seqNum reqLenStr)
       else let cfd = rv a in
         Call (Sock (Getnameinfo (bytes a) 0)) (\<lambda>g.
           let addrStr = snprintf ADDRSTRLEN
             (if rv g = 0 then ''('' @ strs g ! 0 @ '' '' @ strs g ! 1 @ '')'' else ''(?UNKNOWN?)'')
           in printf (''Connection from '' @ addrStr @ [NL])
             (readLine rl cfd (Some reqLenStr) INT_LEN
               (seqnum_answer cfd seqNum (\<lambda>seqNum reqLenStr.
                  seqnum_server_loop n rl lfd seqNum reqLenStr)))))"

text \<open>\<open>reqLenStr\<close> is the uninitialised array of the source: any INT_LEN bytes.\<close>

definition seqnum_server_main :: "nat \<Rightarrow> nat \<Rightarrow> string \<Rightarrow> string list \<Rightarrow> prog" where
  "seqnum_server_main n rl reqLenStr argv =
     (if length argv > 1 \<and> argv ! 1 = ''--help'' then
        eprintf (argv ! 0 @ '' [init-seq-num]\<newline>'') (exit EXIT_FAILURE)
      else
        let seqNum = (if length argv > 1 then word_of_int (atoi (argv ! 1)) else 0) in
        Call (Sig (Signal SIGPIPE ''SIG_IGN'')) (\<lambda>s.
        if rv s = -1 then perror ''signal'' (exit EXIT_FAILURE)
        else Call (Sock (Getaddrinfo None PORT_NUM stream_hints (or AI_PASSIVE AI_NUMERICSERV))) (\<lambda>g.
        if rv g \<noteq> 0 then perror ''getaddrinfo'' (exit EXIT_FAILURE)
        else bind_walk (ais g) (\<lambda>found. case found of
            None \<Rightarrow> perror ''FATAL: could not bind to any address at all'' (exit EXIT_FAILURE)
          | Some lfd \<Rightarrow>
              Call (Sock (Listen lfd BACKLOG)) (\<lambda>l.
              if rv l = -1 then perror ''listen'' (exit EXIT_FAILURE)
              else Call (Sock Freeaddrinfo) (\<lambda>_.
                seqnum_server_loop n rl lfd seqNum reqLenStr))))))"

text \<open>What the client does with what \<open>readLine\<close> returned.\<close>

definition seqnum_client_show :: "int \<times> int \<times> string \<Rightarrow> prog" where
  "seqnum_client_show = (\<lambda>(numRead, e, seqNumStr).
     if numRead = -1 then perror ''readLine'' (exit EXIT_FAILURE)
     else if numRead = 0 then perror ''FATAL: Unexpected EOF from the server'' (exit EXIT_FAILURE)
     else printf (''Sequence Number (recvd from server): '' @ cstr seqNumStr) (exit EXIT_SUCCESS))"

definition seqnum_client_main :: "nat \<Rightarrow> string \<Rightarrow> string list \<Rightarrow> prog" where
  "seqnum_client_main rl seqNumStr argv =
     (if length argv < 2 \<or> argv ! 1 = ''--help'' then
        eprintf (argv ! 0 @ '' server-host [sequence-len]\<newline>'') (exit EXIT_FAILURE)
      else
        Call (Sock (Getaddrinfo (Some (argv ! 1)) PORT_NUM stream_hints AI_NUMERICSERV)) (\<lambda>g.
        if rv g \<noteq> 0 then perror ''getaddrinfo'' (exit EXIT_FAILURE)
        else connect_walk (ais g) (\<lambda>found. case found of
            None \<Rightarrow> eprintf ''FATAL: Could not connect to the server at all at any address'' (exit EXIT_FAILURE)
          | Some cfd \<Rightarrow>
              Call (Sock Freeaddrinfo) (\<lambda>_.
              let reqLenStr = (if length argv > 2 then argv ! 2 else ''1'') in
              Call (Io (Write cfd reqLenStr)) (\<lambda>w.
              if rv w \<noteq> int (length reqLenStr) then
                perror ''Partial/failed write to the server (reqLenStr)'' (exit EXIT_FAILURE)
              else Call (Io (Write cfd [NL])) (\<lambda>w.
              if rv w \<noteq> 1 then
                perror ''Partial/failed write to the server (newLine)'' (exit EXIT_FAILURE)
              else readLine rl cfd (Some seqNumStr) INT_LEN seqnum_client_show))))))"

section \<open>What the server does for a client\<close>

text \<open>The length asked for by a client that sends \<open>s\<close>, and what the server does about it.\<close>

definition request_len :: "string \<Rightarrow> int" where
  "request_len s = atoi (cstr (take (INT_LEN - 1) (first_line s)))"

definition tcp_serve :: "32 word \<Rightarrow> string \<Rightarrow> (int \<times> int) option \<times> 32 word" where
  "tcp_serve seqNum s =
     (if s = [] \<or> request_len s < 0 then (None, seqNum)
      else (Some (uint seqNum, request_len s), seqNum + word_of_int (request_len s)))"

definition tcp_reply :: "32 word \<Rightarrow> string" where
  "tcp_reply seqNum = show_int (sint seqNum) @ [NL]"

fun tcp_replies :: "32 word \<Rightarrow> string list \<Rightarrow> string list" where
  "tcp_replies seqNum [] = []"
| "tcp_replies seqNum (s # ss) =
     (case tcp_serve seqNum s of (g, seqNum') \<Rightarrow>
        (case g of None \<Rightarrow> [] | Some _ \<Rightarrow> [tcp_reply seqNum]) @ tcp_replies seqNum' ss)"

lemma length_tcp_reply: "length (tcp_reply seqNum) < INT_LEN"
proof -
  have "length (show_int (sint seqNum)) \<le> 11"
    using sint_ge [of seqNum] sint_lt [of seqNum] by (intro length_show_int) (simp_all add: int_limits)
  then show ?thesis by (simp add: tcp_reply_def INT_LEN_def)
qed

lemma net_K_simps [simp]:
  "net_K k (Sock (Accept fd)) = (case pending k of
      [] \<Rightarrow> (fail EAGAIN, k)
    | x # xs \<Rightarrow> (ok conn_fd, k\<lparr>pending := xs, conn := x, opened := opened k + 1\<rparr>))"
  "net_K k (Sock (Getnameinfo a fl)) = ((ok 0)\<lparr>strs := [''host'', ''port'']\<rparr>, k)"
  "net_K k (Io (Write fd b)) = (ok (int (length b)), k\<lparr>outbox := outbox k @ [b]\<rparr>)"
  "net_K k (Io (Close fd)) = (ok 0, k\<lparr>opened := opened k - 1\<rparr>)"
  by (simp_all add: net_defs)

lemma sent_bound: "length (sent x) + length (filter (\<lambda>i. i = Intr) x) = length x"
  by (induction x rule: sent.induct) simp_all

lemma net_readLine:
  assumes "length (conn k) < fuel" and "1 < n" and "n \<le> length b"
  obtains k' e where "net_frame k' = net_frame k"
    and "reaches net_K (readLine fuel conn_fd (Some b) n return) k
      (return (fst (line_result n b 0 (sent (conn k))), e, snd (line_result n b 0 (sent (conn k))))) k'"
proof -
  have "length (sent (conn k)) + interrupts k < fuel"
    using assms(1) sent_bound [of "conn k"] by (simp add: interrupts_def)
  from net_stream.readLine_returns [OF TrueI this assms(2,3), of return] that show ?thesis
    unfolding net_stream.returns_def reaches_def by blast
qed

lemma line_result_request:
  assumes "s \<noteq> []" and "length b = INT_LEN"
  obtains m b' where "line_result INT_LEN b 0 s = (m, b')" and "0 < m" and "length b' = INT_LEN"
    and "atoi (cstr b') = request_len s"
proof
  let ?l = "take (INT_LEN - 1) (first_line s)"
  show "line_result INT_LEN b 0 s = (int (length ?l), ?l @ NUL # drop (Suc (length ?l)) b)"
    using assms by (simp add: line_result_def Let_def)
  show "0 < int (length ?l)" "length (?l @ NUL # drop (Suc (length ?l)) b) = INT_LEN"
    using assms by (auto simp: INT_LEN_def)
  show "atoi (cstr (?l @ NUL # drop (Suc (length ?l)) b)) = request_len s"
    by (simp only: cstr_append_nul request_len_def)
qed

text \<open>
  After reading a request, the answer: the connection is closed, the reply of \<open>tcp_serve\<close> is
  written (if any) and the next iteration starts with its counter.
\<close>

lemma seqnum_answer_reaches:
  assumes "length b = INT_LEN"
  shows "\<exists>k' b'. length b' = INT_LEN \<and> pending k' = pending k \<and> opened k' = opened k - 1 \<and>
    outbox k' = outbox k @ tcp_replies seqNum [s] \<and>
    reaches net_K (seqnum_answer cfd seqNum next (fst (line_result INT_LEN b 0 s), e, snd (line_result INT_LEN b 0 s))) k
      (next (snd (tcp_serve seqNum s)) b') k'"
proof (cases "s = []")
  case True
  with assms show ?thesis
    by (intro exI [of _ "k\<lparr>opened := opened k - 1\<rparr>"] exI [of _ b])
       (auto simp: seqnum_answer_def line_result_def tcp_serve_def intro!: reaches_Call)
next
  case False
  from False assms obtain m b' where res: "line_result INT_LEN b 0 s = (m, b')" and m: "0 < m"
    and b': "length b' = INT_LEN" "atoi (cstr b') = request_len s"
    by (rule line_result_request)
  have reply: "snprintf INT_LEN (show_int (sint seqNum) @ [NL]) = tcp_reply seqNum"
    using length_tcp_reply [of seqNum] by (simp add: tcp_reply_def)
  let ?sent = "if request_len s < 0 then [] else [tcp_reply seqNum]"
  show ?thesis
    by (intro exI [of _ "k\<lparr>outbox := outbox k @ ?sent, opened := opened k - 1\<rparr>"] exI [of _ b'] conjI b'(1))
       (use m b' False in \<open>auto simp: res seqnum_answer_def tcp_serve_def Let_def reply not_le
          intro!: reaches_Call\<close>)
qed

lemma seqnum_iteration:
  assumes "pending k = x # xs" and "length x < rl" and "length b = INT_LEN"
  shows "\<exists>k' b'. length b' = INT_LEN \<and> pending k' = xs \<and> opened k' = opened k \<and>
    outbox k' = outbox k @ tcp_replies seqNum [sent x] \<and>
    reaches net_K (seqnum_server_loop (Suc n) rl lfd seqNum b) k
      (seqnum_server_loop n rl lfd (snd (tcp_serve seqNum (sent x))) b') k'"
proof -
  let ?k1 = "k\<lparr>pending := xs, conn := x, opened := opened k + 1\<rparr>"
  let ?next = "\<lambda>seqNum b. seqnum_server_loop n rl lfd seqNum b"
  let ?res = "line_result INT_LEN b 0 (sent x)"
  obtain k2 e where k2: "net_frame k2 = net_frame ?k1"
    and rl: "reaches net_K (readLine rl conn_fd (Some b) INT_LEN (seqnum_answer conn_fd seqNum ?next)) ?k1
      (seqnum_answer conn_fd seqNum ?next (fst ?res, e, snd ?res)) k2"
    by (rule net_readLine [of ?k1 rl INT_LEN b "seqnum_answer conn_fd seqNum ?next"])
       (use assms in \<open>simp_all add: INT_LEN_def\<close>)
  from seqnum_answer_reaches [OF assms(3), of k2 seqNum "sent x" conn_fd ?next e] obtain k' b' where
    k': "length b' = INT_LEN" "pending k' = pending k2" "opened k' = opened k2 - 1"
      "outbox k' = outbox k2 @ tcp_replies seqNum [sent x]" and
    ans: "reaches net_K (seqnum_answer conn_fd seqNum ?next (fst ?res, e, snd ?res)) k2
      (?next (snd (tcp_serve seqNum (sent x))) b') k'" by blast
  have "reaches net_K (seqnum_server_loop (Suc n) rl lfd seqNum b) k
      (?next (snd (tcp_serve seqNum (sent x))) b') k'"
    using reaches_trans [OF rl ans] assms(1)
    by (auto simp: Let_def conn_fd_def intro!: reaches_intros)
  with k' k2 show ?thesis by (auto simp: net_frame_def)
qed

lemma seqnum_loop_serves:
  assumes "pending k = cs" and "\<forall>x \<in> set cs. length x < rl" and "length b = INT_LEN"
  shows "\<exists>k' b'. pending k' = [] \<and> opened k' = opened k \<and>
    outbox k' = outbox k @ tcp_replies seqNum (map sent cs) \<and>
    reaches net_K (seqnum_server_loop (length cs) rl lfd seqNum b) k (Halt Unfinished) k'"
  using assms
proof (induction cs arbitrary: k seqNum b)
  case Nil
  then show ?case by auto
next
  case (Cons x xs)
  from seqnum_iteration [OF Cons.prems(1) _ Cons.prems(3)] Cons.prems(2) obtain k1 b1 where
    k1: "length b1 = INT_LEN" "pending k1 = xs" "opened k1 = opened k"
      "outbox k1 = outbox k @ tcp_replies seqNum [sent x]" and
    r1: "reaches net_K (seqnum_server_loop (Suc (length xs)) rl lfd seqNum b) k
      (seqnum_server_loop (length xs) rl lfd (snd (tcp_serve seqNum (sent x))) b1) k1"
    by (metis list.set_intros(1))
  from Cons.IH [OF k1(2) _ k1(1)] Cons.prems(2) obtain k2 where
    "pending k2 = []" "opened k2 = opened k1"
    "outbox k2 = outbox k1 @ tcp_replies (snd (tcp_serve seqNum (sent x))) (map sent xs)"
    "reaches net_K (seqnum_server_loop (length xs) rl lfd (snd (tcp_serve seqNum (sent x))) b1) k1
      (Halt Unfinished) k2"
    by (metis list.set_intros(2))
  with k1 reaches_trans [OF r1] show ?case
    by (auto simp: case_prod_beta)
qed

text \<open>
  (C2) The TCP sequence-number server, given any queue of clients with any bytes and any
  interruptions of its reads, answers each of them in turn exactly as \<open>tcp_serve\<close> says (nothing
  for an empty or negative request, otherwise the current counter as a decimal line, moving the
  counter on by the requested length), leaves no connection open and is then still running.
\<close>

theorem seqnum_server_serves:
  assumes "\<forall>x \<in> set cs. length x < rl" and "length b = INT_LEN"
    and k: "k = \<lparr>pending = cs, conn = [], outbox = [], opened = 0\<rparr>"
  shows "outbox (final net_K (seqnum_server_loop (length cs) rl lfd seqNum b) k) =
           tcp_replies seqNum (map sent cs) \<and>
         opened (final net_K (seqnum_server_loop (length cs) rl lfd seqNum b) k) = 0 \<and>
         outcome net_K (seqnum_server_loop (length cs) rl lfd seqNum b) k = Unfinished"
proof -
  from seqnum_loop_serves [OF _ assms(1,2), of k seqNum lfd] k obtain k' where
    "opened k' = 0" "outbox k' = tcp_replies seqNum (map sent cs)"
    "reaches net_K (seqnum_server_loop (length cs) rl lfd seqNum b) k (Halt Unfinished) k'" by auto
  then show ?thesis by (simp add: reaches_final reaches_outcome)
qed

lemma seqnum_server_serves_witness:
  "outbox (final net_K
     (seqnum_server_loop 2 9 3 7 (replicate INT_LEN (CHR ''x'')))
     \<lparr>pending = [[Byte (CHR ''5''), Intr, Byte NL], [Byte (CHR ''1''), Byte NL]],
      conn = [], outbox = [], opened = 0\<rparr>) = [''7\<newline>'', ''12\<newline>'']"
proof -
  let ?cs = "[[Byte (CHR ''5''), Intr, Byte NL], [Byte (CHR ''1''), Byte NL]]"
  have cs: "\<forall>x \<in> set ?cs. length x < 9" and n: "length ?cs = 2" by simp_all
  have "tcp_replies 7 (map sent ?cs) = [''7\<newline>'', ''12\<newline>'']" by code_simp
  with seqnum_server_serves [where cs = ?cs and rl = 9 and lfd = 3 and seqNum = 7
      and b = "replicate INT_LEN (CHR ''x'')", OF cs length_replicate refl] show ?thesis
    unfolding n by (elim conjE) (simp only:)
qed

section \<open>No number is handed out twice\<close>

text \<open>
  Requests for which the counter stays in the range where the \<open>%d\<close> of the reply prints it as
  it is (the counter is unsigned, the conversion signed).
\<close>

definition tcp_fair :: "32 word \<Rightarrow> string \<Rightarrow> bool" where
  "tcp_fair seqNum s = (uint seqNum + max 0 (request_len s) < 2 ^ 31)"

lemma uint_add_int:
  fixes w :: "32 word"
  assumes "0 \<le> n" and "uint w + n < 2 ^ 32"
  shows "uint (w + word_of_int n) = uint w + n"
proof -
  have "uint (w + word_of_int n) = (uint w + n) mod 2 ^ 32"
    by (simp add: uint_word_ariths uint_word_of_int mod_simps)
  with assms show ?thesis by (simp add: uint_ge_0)
qed

lemma sint_eq_uint_small:
  fixes w :: "32 word"
  assumes "uint w < 2 ^ 31"
  shows "sint w = uint w"
  using assms by (simp add: sint_uint signed_take_bit_eq_if_positive bit_iff_odd take_bit_int_eq_self_iff)

interpretation tcp: seq_allocator uint tcp_serve tcp_fair
  by unfold_locales (auto simp: tcp_serve_def tcp_fair_def uint_add_int not_less split: if_splits)

lemma tcp_replies_ranges:
  "all_fair tcp_serve tcp_fair seqNum ss \<Longrightarrow> serve_all tcp_serve seqNum ss = (gs, seqNum') \<Longrightarrow>
   tcp_replies seqNum ss = map (\<lambda>g. show_int (fst g) @ [NL]) gs"
proof (induction ss arbitrary: seqNum gs)
  case Nil
  then show ?case by simp
next
  case (Cons s ss)
  obtain g t where g: "tcp_serve seqNum s = (g, t)" by force
  with Cons.prems obtain gs' where gs': "serve_all tcp_serve t ss = (gs', seqNum')"
    and gs: "gs = (case g of None \<Rightarrow> gs' | Some h \<Rightarrow> h # gs')"
    by (auto split: prod.splits)
  have "uint seqNum < 2 ^ 31" using Cons.prems(1) by (auto simp: tcp_fair_def max_def split: if_splits)
  then have "tcp_reply seqNum = show_int (uint seqNum) @ [NL]"
    by (simp add: tcp_reply_def sint_eq_uint_small)
  with Cons.IH [OF _ gs'] Cons.prems(1) g gs show ?case
    by (auto simp: tcp_serve_def split: if_splits)
qed

lemma tcp_grant_lengths:
  "serve_all tcp_serve seqNum (map f xs) = (gs, seqNum') \<Longrightarrow>
   map snd gs = filter (\<lambda>n. 0 \<le> n) (map (\<lambda>x. request_len (f x)) (filter (\<lambda>x. f x \<noteq> []) xs))"
  by (induction xs arbitrary: seqNum gs) (fastforce simp: tcp_serve_def split: prod.splits if_splits option.splits)+

text \<open>
  (C3) As long as the counter does not run past the largest \<open>int\<close>, the TCP server hands out no number
  twice: whatever its clients send, the lines that it writes are the starts of the ranges that it
  grants, these ranges are pairwise disjoint, and together they are exactly the numbers between
  the first and the last value of the counter.
\<close>

theorem tcp_ranges_disjoint:
  assumes "\<forall>x \<in> set cs. length x < rl" and "length b = INT_LEN"
    and k: "k = \<lparr>pending = cs, conn = [], outbox = [], opened = 0\<rparr>"
    and fair: "all_fair tcp_serve tcp_fair seqNum (map sent cs)"
  shows "\<exists>gs seqNum'. outbox (final net_K (seqnum_server_loop (length cs) rl lfd seqNum b) k) =
      map (\<lambda>g. show_int (fst g) @ [NL]) gs \<and>
    (\<forall>i j. i < j \<and> j < length gs \<longrightarrow> range_set (gs ! i) \<inter> range_set (gs ! j) = {}) \<and>
    (\<Union>g \<in> set gs. range_set g) = {uint seqNum ..< uint (seqNum' :: 32 word)} \<and>
    map snd gs = filter (\<lambda>n. 0 \<le> n) (map (\<lambda>x. request_len (sent x)) (filter (\<lambda>x. sent x \<noteq> []) cs))"
proof -
  obtain gs t where gs: "serve_all tcp_serve seqNum (map sent cs) = (gs, t)" by force
  from seqnum_loop_serves [OF _ assms(1,2), of k seqNum lfd] k obtain k' where
    "outbox k' = tcp_replies seqNum (map sent cs)"
    "reaches net_K (seqnum_server_loop (length cs) rl lfd seqNum b) k (Halt Unfinished) k'" by auto
  then have "outbox (final net_K (seqnum_server_loop (length cs) rl lfd seqNum b) k) = tcp_replies seqNum (map sent cs)"
    by (simp add: reaches_final)
  then show ?thesis
    using tcp_replies_ranges [OF fair gs] tcp.grants_disjoint [OF fair gs] tcp.grants_cover [OF fair gs]
      tcp_grant_lengths [OF gs] by (intro exI [of _ gs] exI [of _ t]) simp
qed

lemma tcp_ranges_disjoint_witness:
  "\<exists>gs. outbox (final net_K (seqnum_server_loop 2 9 3 7 (replicate INT_LEN (CHR ''x'')))
     \<lparr>pending = [[Byte (CHR ''5''), Intr, Byte NL], [Byte (CHR ''1''), Byte NL]], conn = [], outbox = [], opened = 0\<rparr>) =
     map (\<lambda>g. show_int (fst g) @ [NL]) gs \<and> range_set (gs ! 0) \<inter> range_set (gs ! 1) = {} \<and> map snd gs = [5, 1]"
proof -
  let ?cs = "[[Byte (CHR ''5''), Intr, Byte NL], [Byte (CHR ''1''), Byte NL]]"
  have cs: "\<forall>x \<in> set ?cs. length x < 9" and n: "length ?cs = 2" by simp_all
  have fair: "all_fair tcp_serve tcp_fair 7 (map sent ?cs)" by code_simp
  have lens: "filter (\<lambda>n. 0 \<le> n) (map (\<lambda>x. request_len (sent x)) (filter (\<lambda>x. sent x \<noteq> []) ?cs)) = [5, 1]" by code_simp
  obtain gs t where "outbox (final net_K (seqnum_server_loop (length ?cs) 9 3 7 (replicate INT_LEN (CHR ''x'')))
     \<lparr>pending = ?cs, conn = [], outbox = [], opened = 0\<rparr>) = map (\<lambda>g. show_int (fst g) @ [NL]) gs"
    and disj: "\<forall>i j. i < j \<and> j < length gs \<longrightarrow> range_set (gs ! i) \<inter> range_set (gs ! j) = {}"
    and "(\<Union>g \<in> set gs. range_set g) = {uint (7 :: 32 word) ..< uint (t :: 32 word)}"
    and gs: "map snd gs = filter (\<lambda>n. 0 \<le> n) (map (\<lambda>x. request_len (sent x)) (filter (\<lambda>x. sent x \<noteq> []) ?cs))"
    using tcp_ranges_disjoint [where b = "replicate INT_LEN (CHR ''x'')" and lfd = 3, OF cs length_replicate refl fair]
    by (elim exE conjE)
  moreover have "length gs = 2" using arg_cong [OF gs [unfolded lens], of length] by simp
  then have "range_set (gs ! 0) \<inter> range_set (gs ! 1) = {}" using disj [rule_format, of 0 1] by simp
  ultimately show ?thesis unfolding n lens by (intro exI [of _ gs] conjI)
qed

section \<open>The client\<close>

lemma net_readLine_leads:
  assumes "length (conn k) < fuel" and "1 < n" and "n \<le> length b"
  obtains k' e tr where "net_frame k' = net_frame k" and "\<forall>q. emitted q tr = []"
    and "leads net_K (readLine fuel conn_fd (Some b) n return) k tr
      (return (fst (line_result n b 0 (sent (conn k))), e, snd (line_result n b 0 (sent (conn k))))) k'"
proof -
  have "length (sent (conn k)) + interrupts k < fuel"
    using assms(1) sent_bound [of "conn k"] by (simp add: interrupts_def)
  from net_stream.readLine_returns [OF TrueI this assms(2,3), of return] that show ?thesis
    unfolding net_stream.returns_def by blast
qed

lemma request_len_show:
  assumes "0 \<le> n" and "n \<le> INT_MAX"
  shows "request_len (show_int n @ [NL]) = n"
proof -
  have "length (show_int n) \<le> 11" using assms by (intro length_show_int) (auto simp: int_limits)
  then have "take (INT_LEN - 1) (show_int n @ [NL]) = show_int n @ [NL]" by (simp add: INT_LEN_def)
  moreover have "cstr (show_int n @ [NL]) = show_int n @ [NL]" by simp
  moreover have "atoi (show_int n @ [NL]) = n"
    using assms by (intro atoi_show_int) (auto simp: int_limits isdigit_def code_def)
  ultimately show ?thesis by (simp add: request_len_def first_line_NL)
qed

lemma line_result_reply:
  assumes "length b = INT_LEN"
  shows "\<exists>m b'. line_result INT_LEN b 0 (tcp_reply seqNum) = (m, b') \<and> 0 < m \<and> cstr b' = tcp_reply seqNum"
proof -
  have "first_line (tcp_reply seqNum) = tcp_reply seqNum"
    by (simp add: tcp_reply_def first_line_NL)
  moreover have "take (INT_LEN - 1) (tcp_reply seqNum) = tcp_reply seqNum"
    using length_tcp_reply [of seqNum] by simp
  moreover have "tcp_reply seqNum \<noteq> []" "cstr (tcp_reply seqNum) = tcp_reply seqNum"
    by (simp_all add: tcp_reply_def)
  ultimately show ?thesis by (simp add: line_result_def Let_def)
qed

text \<open>
  (C17) A client that asks for \<open>n\<close> numbers, connected to a server that answers with its counter
  (whatever the interruptions), exits successfully and prints that counter; and the bytes it has
  written are parsed by the server as exactly \<open>n\<close>.
\<close>

theorem seqnum_client_round_trip:
  assumes "0 \<le> n" and "n \<le> INT_MAX" and "length b = INT_LEN" and "length (conn k) < rl"
    and "sent (conn k) = tcp_reply seqNum" and "outbox k = []" and "host \<noteq> ''--help''"
  shows "outcome net_K (seqnum_client_main rl b [self, host, show_int n]) k = Exited EXIT_SUCCESS \<and>
    emitted Stdout (trace net_K (seqnum_client_main rl b [self, host, show_int n]) k) =
      ''Sequence Number (recvd from server): '' @ show_int (sint seqNum) @ [NL] \<and>
    request_len (concat (outbox (final net_K (seqnum_client_main rl b [self, host, show_int n]) k))) = n"
proof -
  let ?k = "k\<lparr>opened := opened k + 1, outbox := [show_int n, [NL]]\<rparr>"
  obtain m b' where res: "line_result INT_LEN b 0 (tcp_reply seqNum) = (m, b')" "0 < m" "cstr b' = tcp_reply seqNum"
    using line_result_reply [OF assms(3)] by blast
  obtain k' e tr where k': "net_frame k' = net_frame ?k" "\<forall>q. emitted q tr = []"
    and l: "leads net_K (readLine rl conn_fd (Some b) INT_LEN seqnum_client_show) ?k tr
      (seqnum_client_show (m, e, b')) k'"
    by (rule net_readLine_leads [of ?k rl INT_LEN b seqnum_client_show])
       (use assms res in \<open>auto simp: INT_LEN_def\<close>)
  from res have shown: "seqnum_client_show (m, e, b') =
      printf (''Sequence Number (recvd from server): '' @ tcp_reply seqNum) (exit EXIT_SUCCESS)"
    by (simp add: seqnum_client_show_def)
  from leads_run [OF l [unfolded shown]] k' assms request_len_show [OF assms(1,2)] show ?thesis
    by (simp add: seqnum_client_main_def Let_def net_K_def net_io_def net_sock_def conn_fd_def tcp_reply_def net_frame_def)
qed

lemma seqnum_client_round_trip_witness:
  "outcome net_K (seqnum_client_main 9 (replicate INT_LEN (CHR ''?'')) [''client'', ''localhost'', show_int 5])
     \<lparr>pending = [], conn = [Byte (CHR ''4''), Intr, Byte (CHR ''2''), Byte NL], outbox = [], opened = 0\<rparr> =
   Exited EXIT_SUCCESS"
proof -
  let ?k = "\<lparr>pending = [], conn = [Byte (CHR ''4''), Intr, Byte (CHR ''2''), Byte NL], outbox = [], opened = 0\<rparr> :: net"
  have "sent (conn ?k) = tcp_reply 42" by code_simp
  then show ?thesis
    using seqnum_client_round_trip [of 5 "replicate INT_LEN (CHR ''?'')" ?k 9 42 "''localhost''" "''client''"]
    by (simp add: int_limits)
qed

text \<open>
  When the unsigned counter has passed the largest \<open>int\<close>, the reply is a negative number:
  the \<open>%d\<close> conversion of the server prints the counter as a signed value.
\<close>

theorem tcp_reply_negative:
  assumes "2 ^ 31 \<le> uint seqNum"
  shows "tcp_reply seqNum = CHR ''-'' # show_nat (nat (2 ^ 32 - uint seqNum)) @ [NL]"
proof -
  have "sint seqNum = uint seqNum - 2 ^ 32"
    using assms uint_lt2p [of seqNum] minus_mod_self2 [of "uint seqNum + 2 ^ 31" "2 ^ 32"]
    by (simp add: sint_uint signed_take_bit_eq_take_bit_shift take_bit_eq_mod)
  then show ?thesis
    using uint_lt2p [of seqNum] by (simp add: tcp_reply_def show_int_def)
qed

lemma tcp_reply_negative_witness: "tcp_reply 0x80000000 = ''-2147483648\<newline>''"
proof -
  have "tcp_reply 0x80000000 = CHR ''-'' # show_nat 2147483648 @ [NL]"
    using tcp_reply_negative [of "0x80000000"] by (simp add: One_nat_def)
  moreover have "show_nat 2147483648 = ''2147483648''"
    by (simp add: show_nat_rec digit_char_def char_of_def bit_simps)
  ultimately show ?thesis by simp
qed

section \<open>Memory safety\<close>

lemma seqnum_answer_always:
  assumes "line_returned INT_LEN b res" and "length b = INT_LEN" and "P (Exited EXIT_FAILURE)"
    and "\<And>seqNum b. length b = INT_LEN \<Longrightarrow> always P (next seqNum b)"
  shows "always P (seqnum_answer cfd seqNum next res)"
  using assms by (auto simp: seqnum_answer_def line_returned_def Let_def split: prod.splits)

lemma seqnum_server_loop_always:
  "length b = INT_LEN \<Longrightarrow>
   always (\<lambda>out. out = Unfinished \<or> out = Exited EXIT_FAILURE) (seqnum_server_loop n rl lfd seqNum b)"
proof (induction n arbitrary: seqNum b)
  case 0
  then show ?case by simp
next
  case (Suc n)
  then show ?case
    by (auto simp: Let_def INT_LEN_def intro!: readLine_always seqnum_answer_always)
qed

lemma bind_walk_always:
  "P (Exited EXIT_FAILURE) \<Longrightarrow> (\<And>f. always P (found f)) \<Longrightarrow> always P (bind_walk rps found)"
  by (induction rps found rule: bind_walk.induct) auto

text \<open>
  (C18) Whatever the kernel answers and whatever bytes the clients send, the TCP server performs
  no store outside of its line buffer: it keeps running or exits with EXIT_FAILURE.
\<close>

theorem seqnum_server_safe:
  assumes "length b = INT_LEN"
  shows "always (\<lambda>out. out = Unfinished \<or> out = Exited EXIT_FAILURE) (seqnum_server_main n rl b argv)"
  using seqnum_server_loop_always [OF assms]
  by (auto simp: seqnum_server_main_def Let_def intro!: bind_walk_always split: option.splits)

lemma seqnum_server_safe_witness:
  "always (\<lambda>out. out = Unfinished \<or> out = Exited EXIT_FAILURE)
     (seqnum_server_main 3 40 (replicate INT_LEN NUL) [''server'', ''17''])"
  using seqnum_server_safe [of "replicate INT_LEN NUL" 3 40 "[''server'', ''17'']"] by simp

end
