(* ===== verification/Dgram.thy ===== *)
theory Dgram
  imports Syscalls
begin

text \<open>
  Datagram sockets. \<open>dgram_kernel\<close> is the interface the datagram servers of the repository rely
  on: recvfrom delivers the next datagram with its sender's address, cut to the size of the
  buffer (the rest of a datagram is discarded), sendto sends one datagram. \<open>dgram_K\<close> is a kernel
  that provides it: a queue of incoming and a log of outgoing datagrams.
\<close>

text \<open>The address recvfrom stored.\<close>

definition src_addr :: "ret \<Rightarrow> string" where
  "src_addr r = (case strs r of [] \<Rightarrow> [] | a # _ \<Rightarrow> a)"

locale dgram_kernel =
  fixes K :: "'k kernel" and incoming :: "'k \<Rightarrow> (string \<times> string) list" and outgoing :: "'k \<Rightarrow> (string \<times> string) list"
  assumes recvfrom: "incoming k = (a, d) # ds \<Longrightarrow> K k (Sock (Recvfrom fd n)) = (r, k') \<Longrightarrow>
      bytes r = take (nat n) d \<and> rv r = int (length (take (nat n) d)) \<and> src_addr r = a \<and>
      incoming k' = ds \<and> outgoing k' = outgoing k"
    and sendto: "K k (Sock (Sendto fd d a)) = (r, k') \<Longrightarrow>
      rv r = int (length d) \<and> incoming k' = incoming k \<and> outgoing k' = outgoing k @ [(a, d)]"
    and others: "K k c = (r, k') \<Longrightarrow> (\<forall>i. c \<noteq> Sock (Recvfrom (fst i) (snd i))) \<Longrightarrow>
      (\<forall>i. c \<noteq> Sock (Sendto (fst i) (fst (snd i)) (snd (snd i)))) \<Longrightarrow>
      incoming k' = incoming k \<and> outgoing k' = outgoing k"
begin

text \<open>
  A server whose iteration turns each received datagram \<open>d\<close> into a reply \<open>f d\<close> to its sender,
  and then goes on, answers every waiting datagram in turn.
\<close>

lemma server_replies:
  assumes step: "\<And>n k a d ds. incoming k = (a, d) # ds \<Longrightarrow>
      \<exists>k'. incoming k' = ds \<and> outgoing k' = outgoing k @ [(a, f d)] \<and> reaches K (loop (Suc n)) k (loop n) k'"
    and "incoming k = ds"
  shows "\<exists>k'. incoming k' = [] \<and> outgoing k' = outgoing k @ map (\<lambda>(a, d). (a, f d)) ds \<and>
    reaches K (loop (length ds)) k (loop 0) k'"
  using assms(2)
proof (induction ds arbitrary: k)
  case Nil
  then show ?case by auto
next
  case (Cons x ds)
  obtain a d where x: "x = (a, d)" by force
  from step [OF Cons.prems [unfolded x], of "length ds"] obtain k1 where
    k1: "incoming k1 = ds" "outgoing k1 = outgoing k @ [(a, f d)]"
      "reaches K (loop (Suc (length ds))) k (loop (length ds)) k1" by blast
  from Cons.IH [OF k1(1)] obtain k2 where
    "incoming k2 = []" "outgoing k2 = outgoing k1 @ map (\<lambda>(a, d). (a, f d)) ds"
    "reaches K (loop (length ds)) k1 (loop 0) k2" by blast
  with k1 x reaches_trans [OF k1(3)] show ?case by auto
qed

end

record dgram_net =
  arriving :: "(string \<times> string) list"
  departed :: "(string \<times> string) list"

definition dgram_sock :: "dgram_net \<Rightarrow> sock_call \<Rightarrow> ret \<times> dgram_net" where
  "dgram_sock s c = (case c of
      Recvfrom fd n \<Rightarrow> (case arriving s of
          [] \<Rightarrow> (fail EAGAIN, s)
        | (a, d) # ds \<Rightarrow> ((got (take (nat n) d))\<lparr>strs := [a]\<rparr>, s\<lparr>arriving := ds\<rparr>))
    | Sendto fd d a \<Rightarrow> (ok (int (length d)), s\<lparr>departed := departed s @ [(a, d)]\<rparr>)
    | _ \<Rightarrow> (ok 0, s))"

definition dgram_K :: "dgram_net kernel" where
  "dgram_K s c = (case c of Sock i \<Rightarrow> dgram_sock s i | _ \<Rightarrow> (ok 0, s))"

interpretation dgram: dgram_kernel dgram_K arriving departed
proof unfold_locales
  fix k a d ds fd n r k'
  assume "arriving k = (a, d) # ds" "dgram_K k (Sock (Recvfrom fd n)) = (r, k')"
  then show "bytes r = take (nat n) d \<and> rv r = int (length (take (nat n) d)) \<and> src_addr r = a \<and>
      arriving k' = ds \<and> departed k' = departed k"
    by (auto simp: dgram_K_def dgram_sock_def src_addr_def)
next
  fix k fd d a r k'
  assume "dgram_K k (Sock (Sendto fd d a)) = (r, k')"
  then show "rv r = int (length d) \<and> arriving k' = arriving k \<and> departed k' = departed k @ [(a, d)]"
    by (auto simp: dgram_K_def dgram_sock_def)
next
  fix k c r k'
  assume "dgram_K k c = (r, k')" and "\<forall>i. c \<noteq> Sock (Recvfrom (fst i) (snd i))"
    and "\<forall>i. c \<noteq> Sock (Sendto (fst i) (fst (snd i)) (snd (snd i)))"
  then show "arriving k' = arriving k \<and> departed k' = departed k"
    by (auto simp: dgram_K_def dgram_sock_def split: syscall.splits sock_call.splits)
qed

section \<open>A server at the other end\<close>

text \<open>
  The kernel a client sees when the other end of its datagram socket is a server of the
  repository: a datagram that is sent runs one iteration of the server's own loop, and what the
  server sends comes back. The state is the queue of datagrams on their way to the client.
\<close>

definition server_sends :: "(nat \<Rightarrow> prog) \<Rightarrow> string \<Rightarrow> string list" where
  "server_sends loop d =
     map snd (departed (final dgram_K (loop 1) \<lparr>arriving = [(''client'', d)], departed = []\<rparr>))"

definition served_send :: "(nat \<Rightarrow> prog) \<Rightarrow> string list \<Rightarrow> string \<Rightarrow> ret \<times> string list" where
  "served_send loop q d = (ok (int (length d)), q @ server_sends loop d)"

definition served_recv :: "string list \<Rightarrow> int \<Rightarrow> ret \<times> string list" where
  "served_recv q n = (case q of [] \<Rightarrow> (fail EAGAIN, q) | d # ds \<Rightarrow> (got (take (nat n) d), ds))"

definition served_K :: "(nat \<Rightarrow> prog) \<Rightarrow> string list kernel" where
  "served_K loop q c = (case c of
      Sock (Sendto fd d a) \<Rightarrow> served_send loop q d
    | Io (Write fd d) \<Rightarrow> served_send loop q d
    | Sock (Recvfrom fd n) \<Rightarrow> served_recv q n
    | Io (Read fd n) \<Rightarrow> served_recv q n
    | Sock (Inet_pton f a) \<Rightarrow> (ok 1, q)
    | Sock (Getaddrinfo h s a f) \<Rightarrow>
        ((ok 0)\<lparr>ais := [\<lparr>ai_family = 2, ai_socktype = 2, ai_protocol = 17, ai_addrlen = 16, ai_addr = ''peer''\<rparr>]\<rparr>, q)
    | _ \<Rightarrow> (ok 0, q))"

end
