(* ===== verification/Ucase.thy ===== *)
theory Ucase
  imports Dgram
begin

text \<open>
  The upper-case servers and clients over datagram sockets: in the UNIX domain
  (src/sockets/datagram_unix_sock_ucase.h, _server.c, _client.c) and over IPv6
  (src/sockets/i6d_ucase.h, _server.c, _client.c). The endless loops of the servers are given by
  their first \<open>n\<close> iterations; \<open>buf\<close> is the array of BUF_SIZE bytes.
\<close>

section \<open>The code\<close>

definition UCASE_BUF_SIZE :: int where "UCASE_BUF_SIZE = 10"
definition SERVER_SOCK_PATH :: string where "SERVER_SOCK_PATH = ''/tmp/ud_ucase''"
definition UCASE_PORT_NUM :: int where "UCASE_PORT_NUM = 50002"

abbreviation (input) AF_UNIX :: int where "AF_UNIX \<equiv> 1"
abbreviation (input) AF_INET6 :: int where "AF_INET6 \<equiv> 10"
abbreviation (input) SOCK_DGRAM :: int where "SOCK_DGRAM \<equiv> 2"

text \<open>\<open>sizeof(svaddr.sun_path)\<close>\<close>

definition SUN_PATH_LEN :: nat where "SUN_PATH_LEN = 108"

text \<open>\<open>for (j = 0; j < numBytes; j++) buf[j] = toupper((unsigned char) buf[j]);\<close>\<close>

fun upcase_loop :: "nat \<Rightarrow> nat \<Rightarrow> string \<Rightarrow> string" where
  "upcase_loop 0 j buf = buf"
| "upcase_loop (Suc n) j buf = upcase_loop n (Suc j) (buf[j := toupper (buf ! j)])"

fun ud_ucase_loop :: "nat \<Rightarrow> int \<Rightarrow> prog" where
  "ud_ucase_loop 0 sfd = Halt Unfinished"
| "ud_ucase_loop (Suc n) sfd =
     Call (Sock (Recvfrom sfd UCASE_BUF_SIZE)) (\<lambda>r.
       if rv r = -1 then perror ''recvfrom'' (exit 1)
       else
         printf (''Server received '' @ show_int (rv r) @ '' bytes from '' @ src_addr r @ [NL]) (
         let buf = upcase_loop (nat (rv r)) 0 (bytes r) in
         Call (Sock (Sendto sfd buf (src_addr r))) (\<lambda>s.
           if rv s \<noteq> rv r then perror ''sendto - partial write'' (exit 1)
           else ud_ucase_loop n sfd)))"

definition ud_ucase_server_main :: "nat \<Rightarrow> prog" where
  "ud_ucase_server_main n =
     Call (Sock (Socket AF_UNIX SOCK_DGRAM 0)) (\<lambda>s.
     if rv s = -1 then perror ''socket'' (exit 1)
     else if length SERVER_SOCK_PATH > SUN_PATH_LEN - 1 then
       eprintf (''Server socket path too long: '' @ SERVER_SOCK_PATH @ [NL]) (exit 1)
     else Call (Path (Remove SERVER_SOCK_PATH)) (\<lambda>m.
     if rv m = -1 \<and> err m \<noteq> ENOENT then eprintf (''remove-'' @ SERVER_SOCK_PATH) (exit 1)
     else Call (Sock (Bind (rv s) (strncpy (SUN_PATH_LEN - 1) SERVER_SOCK_PATH))) (\<lambda>b.
     if rv b = -1 then perror ''bind'' (exit 1)
     else ud_ucase_loop n (rv s))))"



fun i6d_ucase_loop :: "nat \<Rightarrow> int \<Rightarrow> prog" where
  "i6d_ucase_loop 0 sfd = Halt Unfinished"
| "i6d_ucase_loop (Suc n) sfd =
     Call (Sock (Recvfrom sfd UCASE_BUF_SIZE)) (\<lambda>r.
       if rv r = -1 then perror ''recvfrom'' (exit EXIT_FAILURE)
       else Call (Sock (Inet_ntop AF_INET6 (src_addr r))) (\<lambda>t.
         (if rv t = 0 then Put Perror ''Could not convert client address to a string''
          else Put Stdout (''Server received '' @ show_int (rv r) @ '' bytes from ('' @
                 bytes t @ '', '' @ show_nat (nat (hd (ints t @ [0]))) @ '')'' @ [NL]))
         (let buf = upcase_loop (nat (rv r)) 0 (bytes r) in
          Call (Sock (Sendto sfd buf (src_addr r))) (\<lambda>s.
            if rv s \<noteq> rv r then perror ''send to '' (exit EXIT_FAILURE)
            else i6d_ucase_loop n sfd))))"

text \<open>A \<open>sockaddr_in6\<close>: the address and the port; \<open>in6addr_any\<close> is \<open>::\<close>.\<close>

definition in6_sockaddr :: "string \<Rightarrow> int \<Rightarrow> string" where
  "in6_sockaddr addr port = CHR ''['' # addr @ '']:'' @ show_int port"

definition i6d_ucase_server_main :: "nat \<Rightarrow> prog" where
  "i6d_ucase_server_main n =
     Call (Sock (Socket AF_INET6 SOCK_DGRAM 0)) (\<lambda>s.
     if rv s = -1 then perror ''socket'' (exit EXIT_FAILURE)
     else Call (Sock (Bind (rv s) (in6_sockaddr ''::'' UCASE_PORT_NUM))) (\<lambda>b.
     if rv b = -1 then perror ''bind'' (exit EXIT_FAILURE)
     else i6d_ucase_loop n (rv s)))"



section \<open>The conversion\<close>

lemma length_upcase_loop [simp]: "length (upcase_loop n j buf) = length buf"
  by (induction n j buf rule: upcase_loop.induct) simp_all

lemma upcase_loop_eq:
  "j + n \<le> length buf \<Longrightarrow>
   upcase_loop n j buf = take j buf @ map toupper (take n (drop j buf)) @ drop (j + n) buf"
proof (induction n j buf rule: upcase_loop.induct)
  case (1 j buf)
  then show ?case by simp
next
  case (2 n j buf)
  then have "drop j buf = buf ! j # drop (Suc j) buf" by (simp add: Cons_nth_drop_Suc)
  with 2 show ?case by (simp add: take_Suc_conv_app_nth)
qed

text \<open>What the services compute from a datagram.\<close>

definition ucase_reply :: "string \<Rightarrow> string" where
  "ucase_reply d = map toupper (take 10 d)"

lemma upcase_received [simp]:
  "upcase_loop (length (take n d)) 0 (take n d) = map toupper (take n d)"
  using upcase_loop_eq [of 0 "length (take n d)" "take n d"] by (simp add: min_def split: if_splits)

lemma ucase_reply_fixpoint: "ucase_reply (ucase_reply d) = ucase_reply d"
  by (simp add: ucase_reply_def take_map comp_def)

section \<open>The servers\<close>

context dgram_kernel
begin

lemma ud_ucase_step:
  assumes q: "incoming k = (a, d) # ds"
  shows "\<exists>k'. incoming k' = ds \<and> outgoing k' = outgoing k @ [(a, ucase_reply d)] \<and>
    reaches K (ud_ucase_loop (Suc n) sfd) k (ud_ucase_loop n sfd) k'"
proof -
  obtain r k1 where r: "K k (Sock (Recvfrom sfd UCASE_BUF_SIZE)) = (r, k1)" by force
  note R = recvfrom [OF q r]
  have up: "upcase_loop (nat (rv r)) 0 (bytes r) = ucase_reply d" "rv r = int (length (ucase_reply d))"
    using R by (simp_all add: UCASE_BUF_SIZE_def ucase_reply_def del: length_take)
  obtain s k2 where s: "K k1 (Sock (Sendto sfd (ucase_reply d) a)) = (s, k2)" by force
  note S = sendto [OF s]
  have "reaches K (ud_ucase_loop (Suc n) sfd) k (ud_ucase_loop n sfd) k2"
    using R S up by (simp add: r s Let_def reaches_intros)
  with R S show ?thesis by auto
qed

lemma i6d_ucase_step:
  assumes q: "incoming k = (a, d) # ds"
  shows "\<exists>k'. incoming k' = ds \<and> outgoing k' = outgoing k @ [(a, ucase_reply d)] \<and>
    reaches K (i6d_ucase_loop (Suc n) sfd) k (i6d_ucase_loop n sfd) k'"
proof -
  obtain r k1 where r: "K k (Sock (Recvfrom sfd UCASE_BUF_SIZE)) = (r, k1)" by force
  note R = recvfrom [OF q r]
  have up: "upcase_loop (nat (rv r)) 0 (bytes r) = ucase_reply d" "rv r = int (length (ucase_reply d))"
    using R by (simp_all add: UCASE_BUF_SIZE_def ucase_reply_def del: length_take)
  obtain t k2 where t: "K k1 (Sock (Inet_ntop AF_INET6 a)) = (t, k2)" by force
  have T: "incoming k2 = incoming k1 \<and> outgoing k2 = outgoing k1" using others [OF t] by simp
  obtain s k3 where s: "K k2 (Sock (Sendto sfd (ucase_reply d) a)) = (s, k3)" by force
  note S = sendto [OF s]
  have "reaches K (i6d_ucase_loop (Suc n) sfd) k (i6d_ucase_loop n sfd) k3"
    using R S up by (simp add: r s t Let_def reaches_intros)
  with R S T show ?thesis by auto
qed

lemma ud_ucase_replies:
  "incoming k = ds \<Longrightarrow>
   \<exists>k'. incoming k' = [] \<and> outgoing k' = outgoing k @ map (\<lambda>(a, d). (a, ucase_reply d)) ds \<and>
     reaches K (ud_ucase_loop (length ds) sfd) k (ud_ucase_loop 0 sfd) k'"
  by (rule server_replies [where loop = "\<lambda>n. ud_ucase_loop n sfd"]) (rule ud_ucase_step)

lemma i6d_ucase_replies:
  "incoming k = ds \<Longrightarrow>
   \<exists>k'. incoming k' = [] \<and> outgoing k' = outgoing k @ map (\<lambda>(a, d). (a, ucase_reply d)) ds \<and>
     reaches K (i6d_ucase_loop (length ds) sfd) k (i6d_ucase_loop 0 sfd) k'"
  by (rule server_replies [where loop = "\<lambda>n. i6d_ucase_loop n sfd"]) (rule i6d_ucase_step)

end

text \<open>
  (C20) Over any kernel that delivers datagrams as the sockets interface promises, the UNIX-domain
  and the IPv6 upper-case server answer every waiting datagram, in the order of arrival and to its
  own sender, with its first BUF_SIZE bytes in upper case, and are then back in their loop.
\<close>

theorem ucase_servers_reply:
  assumes "dgram_kernel K incoming outgoing" and "incoming k = ds"
  shows "(\<exists>k'. incoming k' = [] \<and> outgoing k' = outgoing k @ map (\<lambda>(a, d). (a, map toupper (take 10 d))) ds \<and>
      reaches K (ud_ucase_loop (length ds) sfd) k (ud_ucase_loop 0 sfd) k') \<and>
    (\<exists>k'. incoming k' = [] \<and> outgoing k' = outgoing k @ map (\<lambda>(a, d). (a, map toupper (take 10 d))) ds \<and>
      reaches K (i6d_ucase_loop (length ds) sfd) k (i6d_ucase_loop 0 sfd) k')"
  using dgram_kernel.ud_ucase_replies [OF assms, of sfd] dgram_kernel.i6d_ucase_replies [OF assms, of sfd]
  by (simp only: ucase_reply_def)

lemma ucase_servers_reply_witness:
  "\<exists>k'. arriving k' = [] \<and> departed k' = [(''a'', ''HELLO WORL''), (''b'', ''X1'')] \<and>
     reaches dgram_K (ud_ucase_loop 2 3) \<lparr>arriving = [(''a'', ''hello world''), (''b'', ''x1'')], departed = []\<rparr>
       (ud_ucase_loop 0 3) k'"
proof -
  have eq: "map (\<lambda>(a, d). (a, map toupper (take 10 d))) [(''a'', ''hello world''), (''b'', ''x1'')] =
      [(''a'', ''HELLO WORL''), (''b'', ''X1'')]"
    and two: "length [(''a'', ''hello world''), (''b'', ''x1'')] = 2"
    by code_simp+
  show ?thesis
    using ucase_servers_reply [OF dgram.dgram_kernel_axioms,
      of "\<lparr>arriving = [(''a'', ''hello world''), (''b'', ''x1'')], departed = []\<rparr>" _ 3, OF refl, THEN conjunct1]
    by (simp only: dgram_net.select_convs eq two append_Nil)
qed

section \<open>Client and server together\<close>











end
