(* ===== verification/Inet_Sockets.thy ===== *)
theory Inet_Sockets
  imports Syscalls "HOL-Library.Multiset"
begin

text \<open>
  The Internet-domain sockets library: src/sockets/inet_sockets.c and inet_sockets.h. Each
  function is in continuation style: \<open>return\<close> takes the C result and \<open>errno\<close>; the passive
  functions also hand over what is stored through \<open>addrlen\<close> (None when the pointer is NULL).

  \<open>held\<close> is the ledger of a run: the descriptors socket and accept created and no close has
  released, and the address lists getaddrinfo allocated and freeaddrinfo has not released.
\<close>

section \<open>The code\<close>

definition IS_ADDR_STR_LEN :: nat where "IS_ADDR_STR_LEN = 4096"
definition NI_MAXHOST :: nat where "NI_MAXHOST = 1025"
definition NI_MAXSERV :: nat where "NI_MAXSERV = 32"

abbreviation (input) AF_UNSPEC :: int where "AF_UNSPEC \<equiv> 0"
abbreviation (input) SOCK_STREAM :: int where "SOCK_STREAM \<equiv> 1"
abbreviation (input) SOCK_DGRAM :: int where "SOCK_DGRAM \<equiv> 2"
abbreviation (input) SOL_SOCKET :: int where "SOL_SOCKET \<equiv> 1"
abbreviation (input) SO_REUSEADDR :: int where "SO_REUSEADDR \<equiv> 2"
abbreviation (input) AI_PASSIVE :: flags where "AI_PASSIVE \<equiv> 1"
abbreviation (input) NI_NUMERICSERV :: flags where "NI_NUMERICSERV \<equiv> 2"

text \<open>\<open>errno\<close> after a call: a failing call sets it.\<close>

definition errno_after :: "ret \<Rightarrow> int \<Rightarrow> int" where
  "errno_after r e = (if rv r = -1 then err r else e)"

text \<open>The walk of \<open>inetConnect\<close> over the addresses.\<close>

fun inet_connect_walk :: "addrinfo list \<Rightarrow> int \<Rightarrow> (int option \<Rightarrow> int \<Rightarrow> prog) \<Rightarrow> prog" where
  "inet_connect_walk [] e found = found None e"
| "inet_connect_walk (rp # rps) e found =
     Call (Sock (Socket (ai_family rp) (ai_socktype rp) (ai_protocol rp))) (\<lambda>s.
       if rv s = -1 then inet_connect_walk rps (err s) found
       else Call (Sock (Connect (rv s) (ai_addr rp))) (\<lambda>c.
         if rv c \<noteq> -1 then found (Some (rv s)) e
         else Call (Io (Close (rv s))) (\<lambda>d. inet_connect_walk rps (errno_after d (err c)) found)))"

definition inetConnect :: "string \<Rightarrow> string \<Rightarrow> int \<Rightarrow> int \<Rightarrow> (int \<Rightarrow> int \<Rightarrow> prog) \<Rightarrow> prog" where
  "inetConnect host service type e return =
     (let hints = \<lparr>ai_family = AF_UNSPEC, ai_socktype = type, ai_protocol = 0, ai_addrlen = 0, ai_addr = []\<rparr> in
      Call (Sock (Getaddrinfo (Some host) service hints 0)) (\<lambda>g.
      if rv g \<noteq> 0 then return (-1) ENOSYS
      else inet_connect_walk (ais g) e (\<lambda>found e.
        Call (Sock Freeaddrinfo) (\<lambda>_.
        case found of None \<Rightarrow> return (-1) e | Some sfd \<Rightarrow> return sfd e))))"

text \<open>
  The walk of \<open>inetPassiveSocket\<close>; \<open>found\<close> takes the bound socket with its address, \<open>failed\<close> is
  the early return when setsockopt fails.
\<close>

fun inet_bind_walk :: "bool \<Rightarrow> addrinfo list \<Rightarrow> int \<Rightarrow> ((int \<times> addrinfo) option \<Rightarrow> int \<Rightarrow> prog) \<Rightarrow>
    (int \<Rightarrow> prog) \<Rightarrow> prog" where
  "inet_bind_walk doListen [] e found failed = found None e"
| "inet_bind_walk doListen (rp # rps) e found failed =
     Call (Sock (Socket (ai_family rp) (ai_socktype rp) (ai_protocol rp))) (\<lambda>s.
       if rv s = -1 then inet_bind_walk doListen rps (err s) found failed
       else
         let try_bind = Call (Sock (Bind (rv s) (ai_addr rp))) (\<lambda>b.
               if rv b = 0 then found (Some (rv s, rp)) e
               else Call (Io (Close (rv s))) (\<lambda>d.
                 inet_bind_walk doListen rps (errno_after d (errno_after b e)) found failed))
         in if doListen then
              Call (Sock (Setsockopt (rv s) SOL_SOCKET SO_REUSEADDR 1)) (\<lambda>q.
                if rv q = -1 then
                  Call (Io (Close (rv s))) (\<lambda>d.
                  Call (Sock Freeaddrinfo) (\<lambda>_. failed (errno_after d (err q))))
                else try_bind)
            else try_bind)"

text \<open>What follows the walk.\<close>

definition inet_passive_tail :: "bool \<Rightarrow> bool \<Rightarrow> int \<Rightarrow> (int \<Rightarrow> int \<Rightarrow> int option \<Rightarrow> prog) \<Rightarrow>
    (int \<times> addrinfo) option \<Rightarrow> int \<Rightarrow> prog" where
  "inet_passive_tail wantlen doListen backlog return found e =
     (case found of
        None \<Rightarrow> Call (Sock Freeaddrinfo) (\<lambda>_. return (-1) e None)
      | Some (sfd, rp) \<Rightarrow>
          let finish = Call (Sock Freeaddrinfo) (\<lambda>_.
                return sfd e (if wantlen then Some (ai_addrlen rp) else None))
          in if doListen then
               Call (Sock (Listen sfd backlog)) (\<lambda>l.
                 if rv l = -1 then Call (Sock Freeaddrinfo) (\<lambda>_. return (-1) (err l) None)
                 else finish)
             else finish)"

text \<open>
  \<open>hints\<close> is not cleared here: \<open>junk\<close> is what the stack holds, and only the fields the code assigns
  are replaced.
\<close>

definition inetPassiveSocket ::
    "addrinfo \<Rightarrow> string \<Rightarrow> int \<Rightarrow> bool \<Rightarrow> bool \<Rightarrow> int \<Rightarrow> int \<Rightarrow> (int \<Rightarrow> int \<Rightarrow> int option \<Rightarrow> prog) \<Rightarrow> prog" where
  "inetPassiveSocket junk service type wantlen doListen backlog e return =
     (let hints = junk\<lparr>ai_addr := [], ai_socktype := type, ai_family := AF_UNSPEC\<rparr> in
      Call (Sock (Getaddrinfo None service hints AI_PASSIVE)) (\<lambda>g.
      if rv g \<noteq> 0 then return (-1) (err g) None
      else inet_bind_walk doListen (ais g) e (inet_passive_tail wantlen doListen backlog return)
             (\<lambda>e. return (-1) e None)))"

definition inetListen ::
    "addrinfo \<Rightarrow> string \<Rightarrow> int \<Rightarrow> bool \<Rightarrow> int \<Rightarrow> (int \<Rightarrow> int \<Rightarrow> int option \<Rightarrow> prog) \<Rightarrow> prog" where
  "inetListen junk service backlog wantlen e return =
     inetPassiveSocket junk service SOCK_STREAM wantlen True backlog e return"

definition inetBind ::
    "addrinfo \<Rightarrow> string \<Rightarrow> int \<Rightarrow> bool \<Rightarrow> int \<Rightarrow> (int \<Rightarrow> int \<Rightarrow> int option \<Rightarrow> prog) \<Rightarrow> prog" where
  "inetBind junk service type wantlen e return =
     inetPassiveSocket junk service type wantlen False 0 e return"

text \<open>The string \<open>inetAddressStr\<close> leaves in its buffer of \<open>addrStrLen\<close> bytes.\<close>

definition inetAddressStr :: "string \<Rightarrow> nat \<Rightarrow> (string \<Rightarrow> prog) \<Rightarrow> prog" where
  "inetAddressStr addr addrStrLen return =
     Call (Sock (Getnameinfo addr NI_NUMERICSERV)) (\<lambda>g.
       if rv g = 0
       then return (snprintf addrStrLen
              (''('' @ snprintf NI_MAXHOST (strs g ! 0) @ '', '' @ snprintf NI_MAXSERV (strs g ! 1) @ '')''))
       else return (snprintf addrStrLen ''(?UNKNOWN?)''))"

section \<open>The ledger\<close>

datatype resource = Fd int | Addr_list

fun acquires :: "syscall \<Rightarrow> ret \<Rightarrow> resource multiset" where
  "acquires (Sock (Socket f t p)) r = (if rv r = -1 then {#} else {#Fd (rv r)#})"
| "acquires (Sock (Accept fd)) r = (if rv r = -1 then {#} else {#Fd (rv r)#})"
| "acquires (Sock (Getaddrinfo h s a f)) r = (if rv r = 0 then {#Addr_list#} else {#})"
| "acquires c r = {#}"

fun releases :: "syscall \<Rightarrow> resource multiset" where
  "releases (Io (Close fd)) = {#Fd fd#}"
| "releases (Sock Freeaddrinfo) = {#Addr_list#}"
| "releases c = {#}"

fun held :: "resource multiset \<Rightarrow> event list \<Rightarrow> resource multiset" where
  "held m [] = m"
| "held m (Emit p s # es) = held m es"
| "held m (Did c r # es) = held (m + acquires c r - releases c) es"

lemma held_append: "held m (es @ fs) = held (held m es) fs"
  by (induction m es rule: held.induct) simp_all

text \<open>The first call of listen in a run, and whether it failed.\<close>

fun listened :: "event list \<Rightarrow> (int \<times> bool) option" where
  "listened [] = None"
| "listened (Did (Sock (Listen fd b)) r # es) = Some (fd, rv r = -1)"
| "listened (e # es) = listened es"

lemma listened_Cons: "listened (x # es) = (case listened [x] of None \<Rightarrow> listened es | Some y \<Rightarrow> Some y)"
  by (cases "x # es" rule: listened.cases) simp_all

text \<open>
  How a program ends: its outcome, what it holds, and its first call of listen, starting with
  \<open>m\<close> held and \<open>l\<close> recorded.
\<close>

definition ends_with :: "'k kernel \<Rightarrow> prog \<Rightarrow> 'k \<Rightarrow> resource multiset \<Rightarrow> (int \<times> bool) option \<Rightarrow>
    outcome \<times> resource multiset \<times> (int \<times> bool) option" where
  "ends_with K p k m l =
     (outcome K p k, held m (trace K p k), case l of None \<Rightarrow> listened (trace K p k) | Some x \<Rightarrow> Some x)"

lemma ends_with_simps [simp]:
  "ends_with K (Halt out) k m l = (out, m, l)"
  "ends_with K (Put q s p) k m l = ends_with K p k m l"
  "ends_with K (Call c f) k m l =
     ends_with K (f (fst (K k c))) (snd (K k c)) (m + acquires c (fst (K k c)) - releases c)
       (case l of None \<Rightarrow> listened [Did c (fst (K k c))] | Some x \<Rightarrow> Some x)"
proof -
  show "ends_with K (Call c f) k m l =
     ends_with K (f (fst (K k c))) (snd (K k c)) (m + acquires c (fst (K k c)) - releases c)
       (case l of None \<Rightarrow> listened [Did c (fst (K k c))] | Some x \<Rightarrow> Some x)"
    unfolding ends_with_def trace_simps
    by (subst listened_Cons) (simp split: option.splits)
qed (simp_all add: ends_with_def split: option.splits)

text \<open>The result a function returned, as the exit status of a program that only calls it.\<close>

abbreviation (input) returns :: "int \<Rightarrow> int \<Rightarrow> prog" where "returns v e \<equiv> exit v"
abbreviation (input) returns3 :: "int \<Rightarrow> int \<Rightarrow> int option \<Rightarrow> prog" where "returns3 v e l \<equiv> exit v"

lemma inet_connect_walk_ledger:
  assumes "\<And>k e. ends_with K (found None e) k m None = x None k e"
    and "\<And>k e s. ends_with K (found (Some s) e) k (add_mset (Fd s) m) None = x (Some s) k e"
  shows "\<exists>s k' e'. ends_with K (inet_connect_walk rps e found) k m None = x s k' e' \<and> s \<noteq> Some (-1)"
proof (induction rps arbitrary: k e)
  case Nil
  then show ?case using assms(1) by fastforce
next
  case (Cons rp rps)
  show ?case
    using assms(2) Cons.IH by (simp split: if_splits) fastforce
qed

lemma inet_bind_walk_ledger:
  assumes "\<And>k e. ends_with K (found None e) k m None = x None k e"
    and "\<And>k e s rp. ends_with K (found (Some (s, rp)) e) k (add_mset (Fd s) m) None = x (Some s) k e"
    and "\<And>k e. ends_with K (failed e) k (m - {#Addr_list#}) None = x None k e"
  shows "\<exists>s k' e'. ends_with K (inet_bind_walk doListen rps e found failed) k m None = x s k' e' \<and> s \<noteq> Some (-1)"
proof (induction rps arbitrary: k e)
  case Nil
  then show ?case using assms(1) by fastforce
next
  case (Cons rp rps)
  show ?case
    using assms(2,3) Cons.IH by (simp add: Let_def split: if_splits) fastforce
qed

section \<open>Properties\<close>

text \<open>
  (C29) Whatever the system answers, \<open>inetConnect\<close> leaves nothing behind but the descriptor it
  returns: the sockets of the addresses that did not connect are closed, the address list is
  freed, and when it returns -1 nothing is held.
\<close>

theorem inetConnect_no_leak:
  "\<exists>v. outcome K (inetConnect host service type e returns) k = Exited v \<and>
     held {#} (trace K (inetConnect host service type e returns) k) = (if v = -1 then {#} else {#Fd v#})"
proof -
  let ?x = "\<lambda>s (k :: 'a) (e :: int). (case s of None \<Rightarrow> (Exited (-1), {#}, None) | Some s \<Rightarrow> (Exited s, {#Fd s#}, None))"
  have walk: "\<exists>s k' e'. ends_with K (inet_connect_walk rps e (\<lambda>found e.
        Call (Sock Freeaddrinfo) (\<lambda>_. case found of None \<Rightarrow> exit (-1) | Some sfd \<Rightarrow> exit sfd))) k {#Addr_list#} None =
      ?x s k' e' \<and> s \<noteq> Some (-1)" for rps k e
    by (rule inet_connect_walk_ledger) simp_all
  have "\<exists>v. ends_with K (inetConnect host service type e returns) k {#} None =
      (Exited v, if v = -1 then {#} else {#Fd v#}, None)"
    using walk by (simp add: inetConnect_def Let_def) (fastforce split: option.splits)
  then obtain v where "ends_with K (inetConnect host service type e returns) k {#} None = (Exited v, if v = -1 then {#} else {#Fd v#}, None)" ..
  then show ?thesis by (intro exI [of _ v]) (simp add: ends_with_def)
qed

text \<open>
  The same for \<open>inetBind\<close>, with whatever the uncleared hints hold.
\<close>

theorem inetBind_no_leak:
  "\<exists>v. outcome K (inetBind junk service type wantlen e returns3) k = Exited v \<and>
     held {#} (trace K (inetBind junk service type wantlen e returns3) k) = (if v = -1 then {#} else {#Fd v#})"
proof -
  let ?x = "\<lambda>s (k :: 'a) (e :: int). (case s of None \<Rightarrow> (Exited (-1), {#}, None) | Some s \<Rightarrow> (Exited s, {#Fd s#}, None))"
  have walk: "\<exists>s k' e'. ends_with K (inet_bind_walk False rps e
        (inet_passive_tail wantlen False 0 returns3) (\<lambda>e. exit (-1))) k {#Addr_list#} None =
      ?x s k' e' \<and> s \<noteq> Some (-1)" for rps k e
    by (rule inet_bind_walk_ledger) (simp_all add: inet_passive_tail_def)
  have "\<exists>v. ends_with K (inetBind junk service type wantlen e returns3) k {#} None =
      (Exited v, if v = -1 then {#} else {#Fd v#}, None)"
    using walk by (simp add: inetBind_def inetPassiveSocket_def Let_def) (fastforce split: option.splits)
  then obtain v where "ends_with K (inetBind junk service type wantlen e returns3) k {#} None = (Exited v, if v = -1 then {#} else {#Fd v#}, None)" ..
  then show ?thesis by (intro exI [of _ v]) (simp add: ends_with_def)
qed

text \<open>
  \<open>inetListen\<close> keeps the same promise on every path but one: when listen fails it returns
  -1 and the bound socket stays open, and this is the only way it can lose a descriptor.
\<close>

theorem inetListen_leak:
  "\<exists>v. outcome K (inetListen junk service backlog wantlen e returns3) k = Exited v \<and>
     held {#} (trace K (inetListen junk service backlog wantlen e returns3) k) =
       (if v \<noteq> -1 then {#Fd v#}
        else case listened (trace K (inetListen junk service backlog wantlen e returns3) k) of
            Some (fd, True) \<Rightarrow> {#Fd fd#}
          | _ \<Rightarrow> {#})"
proof -
  let ?x = "\<lambda>s k (e :: int). (case s of
      None \<Rightarrow> (Exited (-1), {#}, None)
    | Some s \<Rightarrow> if rv (fst (K k (Sock (Listen s backlog)))) = -1 then (Exited (-1), {#Fd s#}, Some (s, True))
                else (Exited s, {#Fd s#}, Some (s, False)))"
  have walk: "\<exists>s k' e'. ends_with K (inet_bind_walk True rps e
        (inet_passive_tail wantlen True backlog returns3) (\<lambda>e. exit (-1))) k {#Addr_list#} None =
      ?x s k' e' \<and> s \<noteq> Some (-1)" for rps k e
    by (rule inet_bind_walk_ledger) (simp_all add: inet_passive_tail_def)
  let ?run = "ends_with K (inetListen junk service backlog wantlen e returns3) k {#} None"
  let ?left = "\<lambda>v l. if v \<noteq> -1 then {#Fd v#} else case l of Some (fd, True) \<Rightarrow> {#Fd fd#} | _ \<Rightarrow> {#}"
  have "\<exists>s k' e'. ?run = ?x s k' e' \<and> s \<noteq> Some (-1)"
    using walk by (simp add: inetListen_def inetPassiveSocket_def Let_def) (force split: option.splits)
  then obtain s k' e' where run: "?run = ?x s k' e'" "s \<noteq> Some (-1)" by blast
  have "\<exists>v l. ?run = (Exited v, ?left v l, l)"
    unfolding run(1) using run(2) by (cases s) auto
  then obtain v l where "?run = (Exited v, ?left v l, l)" by blast
  then show ?thesis by (intro exI [of _ v]) (simp add: ends_with_def)
qed

text \<open>A run in which the leak happens.\<close>

lemma inetListen_leaks_on_run:
  "held {#} (trace script (inetListen junk ''echo'' 5 False 0 returns3)
     [(ok 0)\<lparr>ais := [\<lparr>ai_family = 2, ai_socktype = 1, ai_protocol = 6, ai_addrlen = 16, ai_addr = ''a''\<rparr>]\<rparr>,
      ok 3, ok 0, ok 0, fail 98, ok 0]) = {#Fd 3#}"
  by (simp add: inetListen_def inetPassiveSocket_def inet_passive_tail_def Let_def)

text \<open>
  Whatever protocol number the stack happens to hold is passed to getaddrinfo as a hint by the
  passive functions, whereas \<open>inetConnect\<close> clears the hints first.
\<close>

lemma passive_hints_uninitialised:
  "hd (calls (trace K (inetBind (junk\<lparr>ai_protocol := p\<rparr>) service type wantlen e return) k)) =
     Sock (Getaddrinfo None service
       \<lparr>ai_family = 0, ai_socktype = type, ai_protocol = p, ai_addrlen = ai_addrlen junk, ai_addr = []\<rparr> 1)"
  by (cases junk) (simp add: inetBind_def inetPassiveSocket_def Let_def)

text \<open>
  \<open>inetAddressStr\<close> given a buffer of the recommended IS_ADDR_STR_LEN bytes never truncates:
  it leaves the parenthesised host and service names, or (?UNKNOWN?), complete and with room for
  the NUL, whatever getnameinfo answers.
\<close>

theorem inetAddressStr_fits:
  "\<exists>s k'. reaches K (inetAddressStr addr IS_ADDR_STR_LEN return) k (return s) k' \<and>
     length s < IS_ADDR_STR_LEN \<and>
     (s = ''(?UNKNOWN?)'' \<or>
      (\<exists>host service. length host < NI_MAXHOST \<and> length service < NI_MAXSERV \<and>
         s = ''('' @ host @ '', '' @ service @ '')''))"
proof -
  obtain g k' where g: "K k (Sock (Getnameinfo addr NI_NUMERICSERV)) = (g, k')" by force
  let ?host = "snprintf NI_MAXHOST (strs g ! 0)" and ?service = "snprintf NI_MAXSERV (strs g ! 1)"
  let ?s = "if rv g = 0 then ''('' @ ?host @ '', '' @ ?service @ '')'' else ''(?UNKNOWN?)''"
  have len: "length ?host < NI_MAXHOST" "length ?service < NI_MAXSERV"
    by (simp_all add: length_snprintf NI_MAXHOST_def NI_MAXSERV_def)
  then have "length ?s < IS_ADDR_STR_LEN"
    by (simp add: NI_MAXHOST_def NI_MAXSERV_def IS_ADDR_STR_LEN_def)
  moreover from this have "reaches K (inetAddressStr addr IS_ADDR_STR_LEN return) k (return ?s) k'"
    by (auto simp: inetAddressStr_def g intro!: reaches_Call)
  ultimately show ?thesis using len by (intro exI [of _ ?s] exI [of _ k']) auto
qed

end
