(* ===== verification/Fd_Table.thy ===== *)
theory Fd_Table
  imports Syscalls
begin

text \<open>
  The descriptor table of a process. The locale \<open>fd_table\<close> is the interface the programs rely on
  when they rearrange their descriptors: close frees a slot, open takes the lowest free slot,
  dup2 copies one slot over another. \<open>fd_K\<close> is a kernel with such a table (a list indexed by the
  descriptor), and an interpretation of the interface.
\<close>

section \<open>The interface\<close>

locale fd_table =
  fixes K :: "'k kernel" and files :: "'k \<Rightarrow> int \<Rightarrow> string option"
  assumes close_slot: "K k (Io (Close fd)) = (r, k') \<Longrightarrow>
      files k' = (files k)(fd := None) \<and> rv r = (if files k fd = None then -1 else 0)"
    and open_slot: "K k (Io (Open p fl m)) = (r, k') \<Longrightarrow>
      0 \<le> rv r \<and> files k (rv r) = None \<and> (\<forall>i. 0 \<le> i \<and> i < rv r \<longrightarrow> files k i \<noteq> None) \<and>
      files k' = (files k)(rv r := Some p)"
    and dup2_slot: "K k (Io (Dup2 a b)) = (r, k') \<Longrightarrow> files k a = Some f \<Longrightarrow> 0 \<le> b \<Longrightarrow>
      rv r = b \<and> files k' = (files k)(b := Some f)"
    and pipe_slots: "K k (Io Pipe) = (r, k') \<Longrightarrow>
      \<exists>a b. rv r = 0 \<and> ints r = [a, b] \<and> 0 \<le> a \<and> 0 \<le> b \<and> a \<noteq> b \<and> files k a = None \<and> files k b = None \<and>
        files k' = (files k)(a := Some ''pipe-read'', b := Some ''pipe-write'')"
    and other_slots: "K k c = (r, k') \<Longrightarrow> (\<forall>i. c \<noteq> Io i) \<Longrightarrow> files k' = files k"
begin

lemma open_lowest:
  assumes "K k (Io (Open p fl m)) = (r, k')" and "files k 0 = None"
  shows "rv r = 0 \<and> files k' = (files k)(0 := Some p)"
  using open_slot [OF assms(1)] assms(2) by force

lemma files_close [simp]: "files (snd (K k (Io (Close fd)))) = (files k)(fd := None)"
  using close_slot [of k fd] by (metis prod.collapse)

lemma files_other [simp]: "(\<And>i. c \<noteq> Io i) \<Longrightarrow> files (snd (K k c)) = files k"
  using other_slots [of k c] by (metis prod.collapse)

text \<open>Closing the descriptors of a list, one after the other.\<close>

lemma reaches_close_all:
  "\<exists>k'. files k' = (\<lambda>i. if i \<in> set xs then None else files k i) \<and>
    reaches K (foldr (\<lambda>fd p. Call (Io (Close fd)) (\<lambda>_. p)) xs q) k q k'"
proof (induction xs arbitrary: k)
  case Nil
  then show ?case by auto
next
  case (Cons x xs)
  from Cons.IH [of "snd (K k (Io (Close x)))", unfolded files_close] obtain k' where
    "files k' = (\<lambda>i. if i \<in> set xs then None else ((files k)(x := None)) i)"
    "reaches K (foldr (\<lambda>fd p. Call (Io (Close fd)) (\<lambda>_. p)) xs q) (snd (K k (Io (Close x)))) q k'"
    by blast
  then show ?case by (intro exI [of _ k']) (auto intro: reaches_Call)
qed

end

section \<open>A kernel with a descriptor table\<close>

text \<open>
  Slot \<open>i\<close> of the list is descriptor \<open>i\<close>. Calls that create a process answer as they do in the
  child, so that a run follows the process that goes on; \<open>lim\<close> is what sysconf reports.
\<close>

record fd_state =
  slots :: "string option list"

definition slot :: "fd_state \<Rightarrow> int \<Rightarrow> string option" where
  "slot s fd = (if 0 \<le> fd \<and> fd < int (length (slots s)) then slots s ! nat fd else None)"

definition set_slot :: "fd_state \<Rightarrow> int \<Rightarrow> string option \<Rightarrow> fd_state" where
  "set_slot s fd x =
     (if fd < 0 then s
      else s\<lparr>slots := (slots s @ replicate (Suc (nat fd) - length (slots s)) None)[nat fd := x]\<rparr>)"

definition lowest_free :: "fd_state \<Rightarrow> int" where
  "lowest_free s = int (length (takeWhile (\<lambda>x. x \<noteq> None) (slots s)))"

definition fd_io :: "fd_state \<Rightarrow> io_call \<Rightarrow> ret \<times> fd_state" where
  "fd_io s c = (case c of
      Close fd \<Rightarrow> (if slot s fd = None then (fail 9, s) else (ok 0, set_slot s fd None))
    | Open p fl m \<Rightarrow> (ok (lowest_free s), set_slot s (lowest_free s) (Some p))
    | Pipe \<Rightarrow>
        (let a = lowest_free s; s1 = set_slot s a (Some ''pipe-read'');
             b = lowest_free s1; s2 = set_slot s1 b (Some ''pipe-write'')
         in ((ok 0)\<lparr>ints := [a, b]\<rparr>, s2))
    | Dup2 a b \<Rightarrow> (if slot s a = None then (fail 9, s) else (ok b, set_slot s b (slot s a)))
    | _ \<Rightarrow> (ok 0, s))"

definition fd_K :: "int \<Rightarrow> fd_state kernel" where
  "fd_K lim s c = (case c of
      Io i \<Rightarrow> fd_io s i
    | Sys (Sysconf n) \<Rightarrow> (ok lim, s)
    | _ \<Rightarrow> (ok 0, s))"

lemma slot_set_slot: "slot (set_slot s fd x) = (if fd < 0 then slot s else (slot s)(fd := x))"
proof (rule ext)
  fix i
  show "slot (set_slot s fd x) i = (if fd < 0 then slot s else (slot s)(fd := x)) i"
    by (cases "fd < 0"; cases "i < 0")
       (auto simp: slot_def set_slot_def nth_append nth_list_update nat_eq_iff split: if_splits)
qed

lemma slot_negative: "fd < 0 \<Longrightarrow> slot s fd = None"
  by (simp add: slot_def)

lemma lowest_free: "slot s (lowest_free s) = None" "0 \<le> i \<Longrightarrow> i < lowest_free s \<Longrightarrow> slot s i \<noteq> None"
proof -
  let ?n = "length (takeWhile (\<lambda>x. x \<noteq> None) (slots s))"
  show "slot s (lowest_free s) = None"
    using nth_length_takeWhile [of "\<lambda>x. x \<noteq> None" "slots s"] by (auto simp: slot_def lowest_free_def)
  assume "0 \<le> i" "i < lowest_free s"
  then obtain m where m: "i = int m" "m < ?n" by (auto simp: lowest_free_def elim: nonneg_int_cases)
  have "?n \<le> length (slots s)" by (rule length_takeWhile_le)
  moreover have "slots s ! m \<noteq> None"
    using m(2) nth_mem [OF m(2)] by (auto dest: set_takeWhileD simp: takeWhile_nth)
  ultimately show "slot s i \<noteq> None" using m by (simp add: slot_def)
qed

interpretation fds: fd_table "fd_K lim" slot for lim
proof unfold_locales
  fix k fd r k'
  assume "fd_K lim k (Io (Close fd)) = (r, k')"
  then show "slot k' = (slot k)(fd := None) \<and> rv r = (if slot k fd = None then -1 else 0)"
    by (auto simp: fd_K_def fd_io_def slot_set_slot slot_negative split: if_splits)
next
  fix k p fl m r k'
  assume "fd_K lim k (Io (Open p fl m)) = (r, k')"
  then show "0 \<le> rv r \<and> slot k (rv r) = None \<and> (\<forall>i. 0 \<le> i \<and> i < rv r \<longrightarrow> slot k i \<noteq> None) \<and>
      slot k' = (slot k)(rv r := Some p)"
    using lowest_free(1) [of k] lowest_free(2) [of _ k] by (auto simp: fd_K_def fd_io_def slot_set_slot lowest_free_def)
next
  fix k a b r k' f
  assume "fd_K lim k (Io (Dup2 a b)) = (r, k')" "slot k a = Some f" "0 \<le> b"
  then show "rv r = b \<and> slot k' = (slot k)(b := Some f)"
    by (auto simp: fd_K_def fd_io_def slot_set_slot)
next
  fix k r k'
  assume *: "fd_K lim k (Io Pipe) = (r, k')"
  let ?a = "lowest_free k"
  let ?k1 = "set_slot k ?a (Some ''pipe-read'')"
  have "0 \<le> ?a" "0 \<le> lowest_free ?k1" by (simp_all add: lowest_free_def)
  moreover have "lowest_free ?k1 \<noteq> ?a" "slot k (lowest_free ?k1) = None"
    using lowest_free(1) [of ?k1] \<open>0 \<le> ?a\<close> by (auto simp: slot_set_slot split: if_splits)
  ultimately show "\<exists>a b. rv r = 0 \<and> ints r = [a, b] \<and> 0 \<le> a \<and> 0 \<le> b \<and> a \<noteq> b \<and> slot k a = None \<and> slot k b = None \<and>
        slot k' = (slot k)(a := Some ''pipe-read'', b := Some ''pipe-write'')"
    using * lowest_free(1) [of k]
    by (auto simp: fd_K_def fd_io_def Let_def slot_set_slot)
next
  fix k c r k'
  assume "fd_K lim k c = (r, k')" "\<forall>i. c \<noteq> Io i"
  then show "slot k' = slot k"
    by (auto simp: fd_K_def split: syscall.splits sys_call.splits)
qed

end
