(* ===== verification/Daemon.thy ===== *)
theory Daemon
  imports Fd_Table
begin

text \<open>
  \<open>becomeDaemon\<close> (src/daemons/become_daemon.c and .h): the steps by which a process becomes a
  daemon. A fork is followed in both processes: the continuation of \<open>Fork\<close> distinguishes the
  parent, which ends, from the child, which goes on.

  Over the interface \<open>fd_table\<close>: the daemon is left with exactly descriptors 0, 1 and 2, all on
  /dev/null.
\<close>

definition BD_NO_CHDIR :: flags where "BD_NO_CHDIR = 0x01"
definition BD_NO_CLOSE_FILES :: flags where "BD_NO_CLOSE_FILES = 0x02"
definition BD_NO_REOPEN_STD_FDS :: flags where "BD_NO_REOPEN_STD_FDS = 0x04"
definition BD_NO_UMASK0 :: flags where "BD_NO_UMASK0 = 0x08"
definition BD_MAX_CLOSE :: int where "BD_MAX_CLOSE = 8192"

lemmas bd_flags = BD_NO_CHDIR_def BD_NO_CLOSE_FILES_def BD_NO_REOPEN_STD_FDS_def BD_NO_UMASK0_def

abbreviation (input) STDIN_FILENO :: int where "STDIN_FILENO \<equiv> 0"
abbreviation (input) STDOUT_FILENO :: int where "STDOUT_FILENO \<equiv> 1"
abbreviation (input) STDERR_FILENO :: int where "STDERR_FILENO \<equiv> 2"
abbreviation (input) O_RDWR :: flags where "O_RDWR \<equiv> 2"

definition close_upto :: "int \<Rightarrow> prog \<Rightarrow> prog" where
  "close_upto maxfd p = foldr (\<lambda>fd p. Call (Io (Close fd)) (\<lambda>_. p)) (map int [0..<nat maxfd]) p"

definition reopen_std_fds :: "(int \<Rightarrow> prog) \<Rightarrow> prog" where
  "reopen_std_fds return =
     Call (Io (Close STDIN_FILENO)) (\<lambda>_.
     Call (Io (Open ''/dev/null'' O_RDWR 0)) (\<lambda>fd.
     if rv fd \<noteq> STDIN_FILENO then return (-1)
     else Call (Io (Dup2 STDIN_FILENO STDOUT_FILENO)) (\<lambda>d.
     if rv d \<noteq> STDOUT_FILENO then return (-1)
     else Call (Io (Dup2 STDIN_FILENO STDERR_FILENO)) (\<lambda>d.
     if rv d \<noteq> STDERR_FILENO then return (-1)
     else return 0))))"

definition becomeDaemon :: "flags \<Rightarrow> (int \<Rightarrow> prog) \<Rightarrow> prog" where
  "becomeDaemon flags return =
     Call (Proc Fork) (\<lambda>f.
     if rv f = -1 then return (-1)
     else if rv f \<noteq> 0 then exit_now EXIT_SUCCESS
     else Call (Proc Setsid) (\<lambda>s.
     if rv s = -1 then return (-1)
     else Call (Proc Fork) (\<lambda>f.
     if rv f = -1 then return (-1)
     else if rv f \<noteq> 0 then exit_now EXIT_SUCCESS
     else
       (if and flags BD_NO_UMASK0 = 0 then (\<lambda>p. Call (Path (Umask 0)) (\<lambda>_. p)) else (\<lambda>p. p))
       ((if and flags BD_NO_CHDIR = 0 then (\<lambda>p. Call (Path (Chdir ''/'')) (\<lambda>_. p)) else (\<lambda>p. p))
       ((if and flags BD_NO_CLOSE_FILES = 0
         then (\<lambda>p. Call (Sys (Sysconf ''_SC_OPEN_MAX'')) (\<lambda>m.
                let maxfd = to_int (rv m) in close_upto (if maxfd = -1 then BD_MAX_CLOSE else maxfd) p))
         else (\<lambda>p. p))
       (if and flags BD_NO_REOPEN_STD_FDS = 0 then reopen_std_fds return else return 0))))))"

text \<open>src/daemons/test_become_daemon.c; the value of \<open>becomeDaemon\<close> is ignored there.\<close>

definition test_become_daemon_main :: "string list \<Rightarrow> prog" where
  "test_become_daemon_main argv =
     becomeDaemon 0 (\<lambda>_.
     Call (Proc (Sleep (if length argv > 1 then atoi (argv ! 1) else 20))) (\<lambda>_. exit EXIT_SUCCESS))"

section \<open>What is left open\<close>

context fd_table
begin

lemma reopen_reaches:
  "\<exists>k'. files k' = (files k)(0 := Some ''/dev/null'', 1 := Some ''/dev/null'', 2 := Some ''/dev/null'') \<and>
    reaches K (reopen_std_fds return) k (return 0) k'"
proof -
  let ?null = "Some ''/dev/null''"
  let ?k1 = "snd (K k (Io (Close 0)))"
  obtain r2 k2 where o: "K ?k1 (Io (Open ''/dev/null'' O_RDWR 0)) = (r2, k2)" by force
  have 2: "rv r2 = 0" "files k2 = (files k)(0 := ?null)" using open_lowest [OF o] by simp_all
  obtain r3 k3 where d: "K k2 (Io (Dup2 0 1)) = (r3, k3)" by force
  have 3: "rv r3 = 1" "files k3 = (files k)(0 := ?null, 1 := ?null)"
    using dup2_slot [OF d, of "''/dev/null''"] 2 by simp_all
  obtain r4 k4 where e: "K k3 (Io (Dup2 0 2)) = (r4, k4)" by force
  have 4: "rv r4 = 2" "files k4 = (files k)(0 := ?null, 1 := ?null, 2 := ?null)"
    using dup2_slot [OF e, of "''/dev/null''"] 3 by simp_all
  have "reaches K (reopen_std_fds return) k (return 0) k4"
    using 2 3 4 by (auto simp: reopen_std_fds_def o d e intro!: reaches_Call)
  with 4(2) show ?thesis by blast
qed

lemma daemon_closed_reaches:
  assumes "\<forall>i. files k i \<noteq> None \<longrightarrow> 0 \<le> i \<and> i < maxfd"
  shows "\<exists>k'. files k' = [0 \<mapsto> ''/dev/null'', 1 \<mapsto> ''/dev/null'', 2 \<mapsto> ''/dev/null''] \<and>
    reaches K (close_upto maxfd (reopen_std_fds return)) k (return 0) k'"
proof -
  obtain k1 where k1: "files k1 = (\<lambda>i. if i \<in> set (map int [0..<nat maxfd]) then None else files k i)"
    "reaches K (close_upto maxfd (reopen_std_fds return)) k (reopen_std_fds return) k1"
    unfolding close_upto_def using reaches_close_all by blast
  have "files k1 = Map.empty"
  proof (rule ext)
    fix i
    have "files k i \<noteq> None \<Longrightarrow> i \<in> set (map int [0..<nat maxfd])"
      using assms by (auto simp: image_iff intro!: bexI [of _ "nat i"])
    then show "files k1 i = Map.empty i" unfolding k1(1) by (metis (mono_tags))
  qed
  moreover obtain k2 where "files k2 = (files k1)(0 \<mapsto> ''/dev/null'', 1 \<mapsto> ''/dev/null'', 2 \<mapsto> ''/dev/null'')"
    "reaches K (reopen_std_fds return) k1 (return 0) k2"
    using reopen_reaches by blast
  ultimately show ?thesis using reaches_trans [OF k1(2)] by auto
qed

end

text \<open>
  (C19) In the process that survives both forks, \<open>becomeDaemon(0)\<close> on a table whose open
  descriptors all lie below the limit sysconf reports, converted from long to int as the code does
  (or below BD_MAX_CLOSE when that is -1), returns 0 with exactly the descriptors 0, 1 and 2 open, all on /dev/null.
\<close>

theorem becomeDaemon_std_fds:
  assumes "fd_table K files"
    and "\<forall>i. files k i \<noteq> None \<longrightarrow> 0 \<le> i \<and> i < (if to_int lim = -1 then BD_MAX_CLOSE else to_int lim)"
    and child: "\<forall>k. rv (fst (K k (Proc Fork))) = 0 \<and> rv (fst (K k (Proc Setsid))) \<noteq> -1"
    and limit: "\<forall>k. rv (fst (K k (Sys (Sysconf ''_SC_OPEN_MAX'')))) = lim"
  shows "\<exists>k'. files k' = [0 \<mapsto> ''/dev/null'', 1 \<mapsto> ''/dev/null'', 2 \<mapsto> ''/dev/null''] \<and>
    reaches K (becomeDaemon 0 return) k (return 0) k'"
proof -
  let ?k = "snd (K (snd (K (snd (K (snd (K (snd (K (snd (K k (Proc Fork))) (Proc Setsid))) (Proc Fork)))
     (Path (Umask 0)))) (Path (Chdir ''/'')))) (Sys (Sysconf ''_SC_OPEN_MAX'')))"
  have "files ?k = files k" by (simp add: fd_table.files_other [OF assms(1)])
  with fd_table.daemon_closed_reaches [OF assms(1), of ?k "if to_int lim = -1 then BD_MAX_CLOSE else to_int lim" return] assms(2)
  obtain k' where k': "files k' = [0 \<mapsto> ''/dev/null'', 1 \<mapsto> ''/dev/null'', 2 \<mapsto> ''/dev/null'']"
    "reaches K (close_upto (if to_int lim = -1 then BD_MAX_CLOSE else to_int lim) (reopen_std_fds return)) ?k (return 0) k'"
    by auto
  have "reaches K (becomeDaemon 0 return) k (return 0) k'"
    using k'(2) child limit by (auto simp: becomeDaemon_def Let_def intro!: reaches_Call)
  with k'(1) show ?thesis by blast
qed

lemma becomeDaemon_std_fds_witness:
  "\<exists>k'. slot k' = [0 \<mapsto> ''/dev/null'', 1 \<mapsto> ''/dev/null'', 2 \<mapsto> ''/dev/null''] \<and>
    reaches (fd_K 4) (becomeDaemon 0 (\<lambda>i. exit i))
      \<lparr>slots = [Some ''tty'', None, Some ''tty'', Some ''log'']\<rparr> (exit 0) k'"
proof (rule becomeDaemon_std_fds [where lim = 4])
  show "fd_table (fd_K 4) slot" by (rule fds.fd_table_axioms)
qed (auto simp: slot_def fd_K_def to_int_def split: if_splits)

end
