(* ===== verification/Udp_Echo.thy ===== *)
theory Udp_Echo
  imports Inet_Sockets Daemon Dgram
begin

text \<open>
  The UDP echo service: src/sockets/iterative_udp_echo.h, iterative_udp_echo_server.c and
  iterative_udp_echo_client.c, over \<open>inet_sockets\<close> and \<open>becomeDaemon\<close>. \<open>strerror\<close> is the C
  library's table of messages; \<open>echo_loop n\<close> is the first \<open>n\<close> iterations of the server's endless
  loop.
\<close>

section \<open>The code\<close>

definition ECHO_SERVICE :: string where "ECHO_SERVICE = ''echo''"
definition ECHO_BUF_SIZE :: int where "ECHO_BUF_SIZE = 500"

fun echo_loop :: "(int \<Rightarrow> string) \<Rightarrow> nat \<Rightarrow> int \<Rightarrow> prog" where
  "echo_loop strerror 0 sfd = Halt Unfinished"
| "echo_loop strerror (Suc n) sfd =
     Call (Sock (Recvfrom sfd ECHO_BUF_SIZE)) (\<lambda>r.
       if rv r = -1 then perror ''recvfrom'' (exit EXIT_FAILURE)
       else Call (Sock (Sendto sfd (bytes r) (src_addr r))) (\<lambda>s.
         if rv s \<noteq> rv r then
           inetAddressStr (src_addr r) IS_ADDR_STR_LEN (\<lambda>addrStr.
             Put Syslog (''Error echoing response to '' @ addrStr @ '' ('' @ strerror (err s) @ '')'')
               (echo_loop strerror n sfd))
         else echo_loop strerror n sfd))"

definition echo_server_main :: "(int \<Rightarrow> string) \<Rightarrow> addrinfo \<Rightarrow> int \<Rightarrow> nat \<Rightarrow> prog" where
  "echo_server_main strerror junk e n =
     becomeDaemon 0 (\<lambda>d.
     if d = -1 then perror ''becomeDaemon'' (exit EXIT_FAILURE)
     else inetBind junk ECHO_SERVICE SOCK_DGRAM False e (\<lambda>sfd e _.
     if sfd = -1 then
       Put Syslog (''Could not create server socket ('' @ strerror e @ '')'') (exit EXIT_FAILURE)
     else echo_loop strerror n sfd))"

fun echo_send :: "int \<Rightarrow> string list \<Rightarrow> prog" where
  "echo_send sfd [] = exit EXIT_SUCCESS"
| "echo_send sfd (msg # msgs) =
     Call (Io (Write sfd msg)) (\<lambda>w.
       (if rv w \<noteq> int (length msg) then Put Perror ''partial/failed write'' else (\<lambda>p. p))
       (Call (Io (Read sfd ECHO_BUF_SIZE)) (\<lambda>r.
          if rv r = -1 then perror ''read'' (exit EXIT_FAILURE)
          else printf (''['' @ show_int (rv r) @ '' bytes] '' @ take (nat (rv r)) (cstr (bytes r)) @ [NL])
                 (echo_send sfd msgs))))"

text \<open>The test of \<open>argv[2]\<close> is only guarded by \<open>argc < 2\<close>.\<close>

definition echo_client_main :: "int \<Rightarrow> string list \<Rightarrow> prog" where
  "echo_client_main e argv =
     (if length argv < 2 then eprintf (argv ! 0 @ '' host msg...\<newline>'') (exit EXIT_FAILURE)
      else with_arg argv 2 (\<lambda>a2.
        if a2 = ''--help'' then eprintf (argv ! 0 @ '' host msg...\<newline>'') (exit EXIT_FAILURE)
        else inetConnect (argv ! 1) ECHO_SERVICE SOCK_DGRAM e (\<lambda>sfd _.
          if sfd = -1 then perror ''Could not connect to server socket'' (exit EXIT_FAILURE)
          else echo_send sfd (drop 2 argv))))"

section \<open>The server\<close>

context dgram_kernel
begin

lemma echo_step:
  assumes q: "incoming k = (a, d) # ds"
  shows "\<exists>k'. incoming k' = ds \<and> outgoing k' = outgoing k @ [(a, take 500 d)] \<and>
    reaches K (echo_loop strerror (Suc n) sfd) k (echo_loop strerror n sfd) k'"
proof -
  obtain r k1 where r: "K k (Sock (Recvfrom sfd ECHO_BUF_SIZE)) = (r, k1)" by force
  note R = recvfrom [OF q r]
  have b: "bytes r = take 500 d" "rv r = int (length (take 500 d))" "src_addr r = a"
    using R by (simp_all add: ECHO_BUF_SIZE_def)
  obtain s k2 where s: "K k1 (Sock (Sendto sfd (take 500 d) a)) = (s, k2)" by force
  note S = sendto [OF s]
  have "reaches K (echo_loop strerror (Suc n) sfd) k (echo_loop strerror n sfd) k2"
    using S b by (simp add: r s reaches_intros)
  with R S b show ?thesis by auto
qed

lemma echo_replies:
  "incoming k = ds \<Longrightarrow>
   \<exists>k'. incoming k' = [] \<and> outgoing k' = outgoing k @ map (\<lambda>(a, d). (a, take 500 d)) ds \<and>
     reaches K (echo_loop strerror (length ds) sfd) k (echo_loop strerror 0 sfd) k'"
  by (rule server_replies [where loop = "\<lambda>n. echo_loop strerror n sfd"]) (rule echo_step)

end

text \<open>
  The echo server sends every waiting datagram back to its own sender, in the order of
  arrival, unchanged up to BUF_SIZE bytes and cut to them beyond, and is then back in its loop.
\<close>

theorem echo_server_echoes:
  assumes "dgram_kernel K incoming outgoing" and "incoming k = ds"
  shows "\<exists>k'. incoming k' = [] \<and> outgoing k' = outgoing k @ map (\<lambda>(a, d). (a, take 500 d)) ds \<and>
    reaches K (echo_loop strerror (length ds) sfd) k (echo_loop strerror 0 sfd) k'"
  by (rule dgram_kernel.echo_replies [OF assms])

lemma echo_server_echoes_witness:
  "\<exists>k'. arriving k' = [] \<and> departed k' = [(''a'', ''ping''), (''b'', [])] \<and>
     reaches dgram_K (echo_loop (\<lambda>_. []) 2 3) \<lparr>arriving = [(''a'', ''ping''), (''b'', [])], departed = []\<rparr>
       (echo_loop (\<lambda>_. []) 0 3) k'"
proof -
  have two: "length [(''a'', ''ping''), (''b'', [])] = 2" by simp
  show ?thesis
    using echo_server_echoes [OF dgram.dgram_kernel_axioms,
      of "\<lparr>arriving = [(''a'', ''ping''), (''b'', [])], departed = []\<rparr>" _ "\<lambda>_. []" 3, OF refl]
    unfolding dgram_net.select_convs two by simp
qed

section \<open>The client\<close>







text \<open>
  Run with a host and no message, the client compares the NULL pointer \<open>argv[2]\<close> with a
  string: its argument check is off by one.
\<close>

theorem echo_client_no_message_undefined:
  "run K (echo_client_main e [self, host]) k = ([], Undefined, k)"
  by (simp add: echo_client_main_def)

end
