(* ===== verification/Stream_Xfr.thy ===== *)
theory Stream_Xfr
  imports Syscalls
begin

text \<open>
  Copying bytes from one descriptor to another: the interface \<open>copy_kernel\<close> (a source descriptor
  that delivers a finite sequence of bytes in arbitrary non-empty pieces and then end-of-file, a
  sink descriptor that takes every write whole), the loop
  \<open>while ((numRead = read(...)) > 0) if (write(...) != numRead) ...\<close> that the repository uses over it,
  and the UNIX-domain stream transfer programs src/sockets/stream_sock_xfr.h,
  stream_sock_xfr_server.c and stream_sock_xfr_client.c.

  The loops take fuel; \<open>copy_loop_copies\<close> shows that one unit per byte and one more are enough.
\<close>

section \<open>The copy loop\<close>

text \<open>\<open>msg\<close> is what the loop reports when a write is short, \<open>finish\<close> what follows it.\<close>

fun copy_loop :: "nat \<Rightarrow> int \<Rightarrow> int \<Rightarrow> int \<Rightarrow> string \<Rightarrow> (int \<Rightarrow> prog) \<Rightarrow> prog" where
  "copy_loop 0 src dst bufsz msg finish = Halt Unfinished"
| "copy_loop (Suc n) src dst bufsz msg finish =
     Call (Io (Read src bufsz)) (\<lambda>r.
       if rv r > 0 then
         Call (Io (Write dst (bytes r))) (\<lambda>w.
           if rv w \<noteq> rv r then perror msg (exit 1)
           else copy_loop n src dst bufsz msg finish)
       else finish (rv r))"

locale copy_kernel =
  fixes K :: "'k kernel" and src :: int and dst :: int
    and source :: "'k \<Rightarrow> string" and sink :: "'k \<Rightarrow> string"
  assumes read_source: "K k (Io (Read src n)) = (r, k') \<Longrightarrow> 0 < n \<Longrightarrow>
      source k = bytes r @ source k' \<and> rv r = int (length (bytes r)) \<and> rv r \<le> n \<and>
      (rv r = 0 \<longrightarrow> source k = []) \<and> sink k' = sink k"
    and write_sink: "K k (Io (Write dst s)) = (w, k') \<Longrightarrow>
      rv w = int (length s) \<and> sink k' = sink k @ s \<and> source k' = source k"
begin

text \<open>Everything is copied, and the loop ends with what \<open>read\<close> returns at end-of-file.\<close>

lemma copy_loop_copies:
  assumes "0 < bufsz" and "length (source k) < fuel"
  shows "\<exists>k'. sink k' = sink k @ source k \<and> source k' = [] \<and>
    reaches K (copy_loop fuel src dst bufsz msg finish) k (finish 0) k'"
  using assms(2)
proof (induction fuel arbitrary: k)
  case 0
  then show ?case by simp
next
  case (Suc fuel)
  obtain r k1 where r: "K k (Io (Read src bufsz)) = (r, k1)" by force
  note R = read_source [OF r assms(1)]
  show ?case
  proof (cases "rv r = 0")
    case True
    with R have "source k = []" "source k1 = []" "sink k1 = sink k" by auto
    with True show ?thesis by (intro exI [of _ k1]) (auto simp: r intro!: reaches_Call)
  next
    case False
    obtain w k2 where w: "K k1 (Io (Write dst (bytes r))) = (w, k2)" by force
    note W = write_sink [OF w]
    from False R have "length (source k2) < fuel" using Suc.prems W by (cases "bytes r") auto
    from Suc.IH [OF this] obtain k3 where k3: "sink k3 = sink k2 @ source k2" "source k3 = []"
      "reaches K (copy_loop fuel src dst bufsz msg finish) k2 (finish 0) k3" by blast
    have "reaches K (copy_loop (Suc fuel) src dst bufsz msg finish) k (finish 0) k3"
      using False R W k3(3) by (auto simp: r w intro!: reaches_Call)
    moreover have "sink k3 = sink k @ source k" using R W k3 by simp
    ultimately show ?thesis using k3(2) by blast
  qed
qed

end

section \<open>A kernel with two descriptors\<close>

record copy_state =
  unread :: string
  written :: string

text \<open>At most \<open>Suc chunk\<close> bytes are delivered at a time; \<open>sock\<close> is the socket the kernel hands out.\<close>

definition copy_io :: "int \<Rightarrow> int \<Rightarrow> nat \<Rightarrow> copy_state \<Rightarrow> io_call \<Rightarrow> ret \<times> copy_state" where
  "copy_io src dst chunk s c = (case c of
      Read fd n \<Rightarrow> (if fd = src
        then (got (take (min (nat n) (Suc chunk)) (unread s)),
              s\<lparr>unread := drop (min (nat n) (Suc chunk)) (unread s)\<rparr>)
        else (fail 9, s))
    | Write fd d \<Rightarrow> (if fd = dst then (ok (int (length d)), s\<lparr>written := written s @ d\<rparr>) else (fail 9, s))
    | _ \<Rightarrow> (ok 0, s))"

definition copy_K :: "int \<Rightarrow> int \<Rightarrow> int \<Rightarrow> nat \<Rightarrow> copy_state kernel" where
  "copy_K sock src dst chunk s c = (case c of Io i \<Rightarrow> copy_io src dst chunk s i | _ \<Rightarrow> (ok sock, s))"

interpretation copying: copy_kernel "copy_K sock src dst chunk" src dst unread written for sock src dst chunk
proof unfold_locales
  fix k n r k'
  assume "copy_K sock src dst chunk k (Io (Read src n)) = (r, k')" "0 < n"
  then show "unread k = bytes r @ unread k' \<and> rv r = int (length (bytes r)) \<and> rv r \<le> n \<and>
      (rv r = 0 \<longrightarrow> unread k = []) \<and> written k' = written k"
    by (auto simp: copy_K_def copy_io_def min_def split: if_splits)
next
  fix k s w k'
  assume "copy_K sock src dst chunk k (Io (Write dst s)) = (w, k')"
  then show "rv w = int (length s) \<and> written k' = written k @ s \<and> unread k' = unread k"
    by (auto simp: copy_K_def copy_io_def)
qed

section \<open>The transfer programs\<close>

definition SV_SOCK_PATH :: string where "SV_SOCK_PATH = ''/tmp/stream_sock_xfr''"
definition XFR_BUF_SIZE :: int where "XFR_BUF_SIZE = 100"
definition XFR_BACKLOG :: int where "XFR_BACKLOG = 5"
definition XFR_SUN_PATH_LEN :: nat where "XFR_SUN_PATH_LEN = 108"

abbreviation (input) AF_UNIX :: int where "AF_UNIX \<equiv> 1"
abbreviation (input) SOCK_STREAM :: int where "SOCK_STREAM \<equiv> 1"

fun xfr_server_loop :: "nat \<Rightarrow> nat \<Rightarrow> int \<Rightarrow> prog" where
  "xfr_server_loop fuel 0 sfd = Halt Unfinished"
| "xfr_server_loop fuel (Suc n) sfd =
     Call (Sock (Accept sfd)) (\<lambda>a.
       if rv a = -1 then perror ''accept'' (exit 1)
       else copy_loop fuel (rv a) 1 XFR_BUF_SIZE ''partial/failed write'' (\<lambda>numRead.
         if numRead = -1 then perror ''read'' (exit 1)
         else Call (Io (Close (rv a))) (\<lambda>c.
           if rv c = -1 then perror ''close'' (exit 1)
           else xfr_server_loop fuel n sfd)))"

text \<open>The result of listen is compared with 1.\<close>

definition xfr_server_main :: "nat \<Rightarrow> nat \<Rightarrow> prog" where
  "xfr_server_main fuel n =
     Call (Sock (Socket AF_UNIX SOCK_STREAM 0)) (\<lambda>s.
     if rv s = -1 then perror ''socket'' (exit 1)
     else if length SV_SOCK_PATH > XFR_SUN_PATH_LEN - 1 then
       eprintf (''Server socket path too long: '' @ SV_SOCK_PATH) (exit 1)
     else Call (Path (Remove SV_SOCK_PATH)) (\<lambda>m.
     if rv m = -1 \<and> err m \<noteq> ENOENT then eprintf (''remove: '' @ SV_SOCK_PATH) (exit 1)
     else Call (Sock (Bind (rv s) (strncpy (XFR_SUN_PATH_LEN - 1) SV_SOCK_PATH))) (\<lambda>b.
     if rv b = -1 then perror ''bind'' (exit 1)
     else Call (Sock (Listen (rv s) XFR_BACKLOG)) (\<lambda>l.
     if rv l = 1 then perror ''listen'' (exit 1)
     else xfr_server_loop fuel n (rv s)))))"

text \<open>The result of the last read is compared with 1.\<close>

definition xfr_client_main :: "nat \<Rightarrow> prog" where
  "xfr_client_main fuel =
     Call (Sock (Socket AF_UNIX SOCK_STREAM 0)) (\<lambda>s.
     if rv s = -1 then perror ''socket'' (exit 1)
     else Call (Sock (Connect (rv s) (strncpy (XFR_SUN_PATH_LEN - 1) SV_SOCK_PATH))) (\<lambda>c.
     if rv c = -1 then perror ''connect'' (exit 1)
     else copy_loop fuel 0 (rv s) XFR_BUF_SIZE ''partial/failed read'' (\<lambda>numRead.
       if numRead = 1 then perror ''read'' (exit 1) else exit 0)))"

section \<open>Properties\<close>

lemma XFR_BUF_SIZE_pos: "0 < XFR_BUF_SIZE"
  by (simp add: XFR_BUF_SIZE_def)

lemma copy_K_Sock [simp]: "copy_K sock src dst chunk k (Sock c) = (ok sock, k)"
  and copy_K_Close [simp]: "copy_K sock src dst chunk k (Io (Close fd)) = (ok 0, k)"
  by (simp_all add: copy_K_def copy_io_def)

lemmas xfr_copies = copying.copy_loop_copies [OF XFR_BUF_SIZE_pos]

lemma xfr_client_reaches:
  assumes "length (unread k) < fuel"
  shows "\<exists>k'. written k' = written k @ unread k \<and> reaches (copy_K 3 0 3 chunk) (xfr_client_main fuel) k (exit 0) k'"
proof -
  let ?finish = "\<lambda>numRead :: int. if numRead = 1 then perror ''read'' (exit 1) else exit 0"
  from xfr_copies [OF assms, of 3 0 3 chunk "''partial/failed read''" ?finish]
  obtain k' where k': "written k' = written k @ unread k \<and> unread k' = [] \<and> reaches (copy_K 3 0 3 chunk)
      (copy_loop fuel 0 3 XFR_BUF_SIZE ''partial/failed read'' ?finish) k (?finish 0) k'" ..
  then have c: "reaches (copy_K 3 0 3 chunk)
      (copy_loop fuel 0 3 XFR_BUF_SIZE ''partial/failed read'' ?finish) k (exit 0) k'" by simp
  have "reaches (copy_K 3 0 3 chunk) (xfr_client_main fuel) k (exit 0) k'"
    using c by (auto simp: xfr_client_main_def intro!: reaches_Call)
  with k' show ?thesis by blast
qed

lemma xfr_server_reaches:
  assumes "length (unread k) < fuel"
  shows "\<exists>k'. written k' = written k @ unread k \<and> unread k' = [] \<and>
    reaches (copy_K 4 4 1 chunk) (xfr_server_loop fuel (Suc n) sfd) k (xfr_server_loop fuel n sfd) k'"
proof -
  let ?finish = "\<lambda>numRead :: int. if numRead = -1 then perror ''read'' (exit 1)
         else Call (Io (Close 4)) (\<lambda>c. if rv c = -1 then perror ''close'' (exit 1) else xfr_server_loop fuel n sfd)"
  from xfr_copies [OF assms, of 4 4 1 chunk "''partial/failed write''" ?finish]
  obtain k' where k': "written k' = written k @ unread k \<and> unread k' = [] \<and> reaches (copy_K 4 4 1 chunk)
      (copy_loop fuel 4 1 XFR_BUF_SIZE ''partial/failed write'' ?finish) k (?finish 0) k'" ..
  then have c: "reaches (copy_K 4 4 1 chunk)
      (copy_loop fuel 4 1 XFR_BUF_SIZE ''partial/failed write'' ?finish) k (?finish 0) k'" by (elim conjE)
  have "reaches (copy_K 4 4 1 chunk) (?finish 0) k' (xfr_server_loop fuel n sfd) k'"
    by (auto intro!: reaches_Call)
  from reaches_trans [OF c this]
  have "reaches (copy_K 4 4 1 chunk) (xfr_server_loop fuel (Suc n) sfd) k (xfr_server_loop fuel n sfd) k'"
    by (auto intro!: reaches_Call cong: if_cong)
  with k' show ?thesis by blast
qed

text \<open>
  (C31) Client and server transfer faithfully: fed any input in any pieces, the client writes
  exactly its standard input to the socket and exits with status 0; and what the connection
  delivers, one iteration of the server's loop writes to standard output, closes the connection
  and goes on to the next one. One unit of fuel per byte and one more suffice. Together: what
  arrives on the server's standard output is the client's input.
\<close>

theorem xfr_transfers:
  assumes "length input < fuel"
  shows "\<exists>c s. reaches (copy_K 3 0 3 chunk) (xfr_client_main fuel) \<lparr>unread = input, written = []\<rparr> (exit 0) c \<and>
      reaches (copy_K 4 4 1 chunk') (xfr_server_loop fuel (Suc n) sfd) \<lparr>unread = written c, written = out\<rparr>
        (xfr_server_loop fuel n sfd) s \<and>
      written s = out @ input \<and> unread s = []"
proof -
  obtain c where c: "written c = input" "reaches (copy_K 3 0 3 chunk) (xfr_client_main fuel)
      \<lparr>unread = input, written = []\<rparr> (exit 0) c"
    using xfr_client_reaches [of "\<lparr>unread = input, written = []\<rparr>"] assms by auto
  with xfr_server_reaches [of "\<lparr>unread = written c, written = out\<rparr>" fuel chunk' n sfd] assms
  show ?thesis by auto
qed

lemma xfr_transfers_witness:
  "\<exists>c s. reaches (copy_K 3 0 3 1) (xfr_client_main 6) \<lparr>unread = ''hello'', written = []\<rparr> (exit 0) c \<and>
      reaches (copy_K 4 4 1 0) (xfr_server_loop 6 1 3) \<lparr>unread = written c, written = []\<rparr> (xfr_server_loop 6 0 3) s \<and>
      written s = ''hello'' \<and> unread s = []"
  using xfr_transfers [of "''hello''" 6 1 0 0 3 "[]"] by simp

text \<open>
  A read error is taken for the end of the input: when \<open>read\<close> on standard input fails at
  once the client still exits with status 0 and reports nothing, because the result is compared
  with 1 instead of -1. Likewise the server goes on to accept when listen has failed.
\<close>

theorem xfr_errors_ignored:
  "run script (xfr_client_main (Suc n)) [ok 3, ok 0, fail 5] =
     ([Did (Sock (Socket 1 1 0)) (ok 3), Did (Sock (Connect 3 SV_SOCK_PATH)) (ok 0),
       Did (Io (Read 0 XFR_BUF_SIZE)) (fail 5)], Exited 0, []) \<and>
   reaches script (xfr_server_main fuel n) [ok 3, ok 0, ok 0, fail 98] (xfr_server_loop fuel n 3) []"
  by (auto simp: xfr_client_main_def xfr_server_main_def SV_SOCK_PATH_def strncpy_def XFR_SUN_PATH_LEN_def
        intro!: reaches_Call)

end
