(* ===== verification/Wait_Status.thy ===== *)
theory Wait_Status
  imports Syscalls
begin

unbundle bit_operations_syntax

text \<open>
  Wait statuses: the W* macros of <sys/wait.h> as the C library defines them, \<open>printWaitStatus\<close>
  (src/procexec/print_wait_status.c and .h) and src/procexec/child_status.c. A status is a C int;
  \<open>strsignal\<close> is the C library's table of signal names.

  \<open>wait_status\<close> is the encoding the kernel uses: an abstract \<open>child_event\<close> becomes an int, and
  the property is what \<open>printWaitStatus\<close> says about each event.
\<close>

section \<open>The code\<close>

definition WEXITSTATUS :: "int \<Rightarrow> int" where "WEXITSTATUS s = drop_bit 8 (s AND 0xff00)"
definition WTERMSIG :: "int \<Rightarrow> int" where "WTERMSIG s = s AND 0x7f"
definition WSTOPSIG :: "int \<Rightarrow> int" where "WSTOPSIG s = WEXITSTATUS s"
definition WIFEXITED :: "int \<Rightarrow> bool" where "WIFEXITED s = (WTERMSIG s = 0)"

text \<open>\<open>((signed char) ((status & 0x7f) + 1) >> 1) > 0\<close>\<close>

definition WIFSIGNALED :: "int \<Rightarrow> bool" where
  "WIFSIGNALED s = (drop_bit 1 (signed_take_bit 7 ((s AND 0x7f) + 1)) > 0)"

definition WIFSTOPPED :: "int \<Rightarrow> bool" where "WIFSTOPPED s = (s AND 0xff = 0x7f)"
definition WIFCONTINUED :: "int \<Rightarrow> bool" where "WIFCONTINUED s = (s = 0xffff)"
definition WCOREDUMP :: "int \<Rightarrow> bool" where "WCOREDUMP s = (s AND 0x80 \<noteq> 0)"

definition printWaitStatus :: "(int \<Rightarrow> string) \<Rightarrow> string option \<Rightarrow> int \<Rightarrow> prog \<Rightarrow> prog" where
  "printWaitStatus strsignal msg status return =
     (case msg of None \<Rightarrow> (\<lambda>p. p) | Some m \<Rightarrow> Put Stdout m)
     (if WIFEXITED status then
        printf (''child exited, status='' @ show_int (WEXITSTATUS status) @ [NL]) return
      else if WIFSIGNALED status then
        printf (''child killed by signal '' @ show_int (WTERMSIG status) @ ''('' @ strsignal (WTERMSIG status) @ '')'')
          ((if WCOREDUMP status then Put Stdout ''(core dumped)'' else (\<lambda>p. p))
           (printf [NL] return))
      else if WIFSTOPPED status then
        printf (''child stopped by signal '' @ show_int (WSTOPSIG status) @ '' ('' @ strsignal (WSTOPSIG status) @ '')'' @ [NL])
          ((if WIFCONTINUED status then Put Stdout ''child continued'' else (\<lambda>p. p))
           (printf [NL] return))
      else
        printf (''What happened to this child?, (status='' @ show_hex (nat (to_uint status)) @ '')'' @ [NL]) return)"

section \<open>child\_status.c\<close>

abbreviation (input) WUNTRACED :: flags where "WUNTRACED \<equiv> 2"
abbreviation (input) WCONTINUED :: flags where "WCONTINUED \<equiv> 8"

text \<open>The endless loop of the child without arguments, for its first \<open>n\<close> iterations.\<close>

fun pause_loop :: "nat \<Rightarrow> prog" where
  "pause_loop 0 = Halt Unfinished"
| "pause_loop (Suc n) = Call (Sig Pause) (\<lambda>_. pause_loop n)"

text \<open>
  The parent's loop. Only the first statement after \<open>if (childPid == -1)\<close> belongs to it: the
  exit that follows is executed in any case.
\<close>

definition child_status_parent :: prog where
  "child_status_parent =
     Call (Proc (Waitpid (-1) (WUNTRACED OR WCONTINUED))) (\<lambda>w.
       (if rv w = -1 then Put Perror ''waitpid'' else (\<lambda>p. p)) (exit EXIT_FAILURE))"

definition child_status_main :: "nat \<Rightarrow> string list \<Rightarrow> prog" where
  "child_status_main n argv =
     (if length argv > 1 \<and> argv ! 1 = ''--help'' then printf (argv ! 0 @ '' [exit-status]\<newline>'') (exit EXIT_FAILURE)
      else Call (Proc Fork) (\<lambda>f.
        if rv f = -1 then perror ''fork'' (exit EXIT_FAILURE)
        else if rv f = 0 then
          Call (Proc Getpid) (\<lambda>p.
          printf (''Child started with PID = '' @ show_int (rv p) @ [NL])
            (if length argv > 1 then exit (atoi (argv ! 1)) else pause_loop n))
        else child_status_parent))"

section \<open>The kernel's encoding\<close>

datatype child_event =
    Child_exited int
  | Child_killed int bool
  | Child_stopped int
  | Child_continued

fun wait_status :: "child_event \<Rightarrow> int" where
  "wait_status (Child_exited e) = 256 * (e mod 256)"
| "wait_status (Child_killed sig core) = sig + (if core then 128 else 0)"
| "wait_status (Child_stopped sig) = 256 * sig + 127"
| "wait_status Child_continued = 0xffff"

text \<open>Signal numbers go from 1 to 64.\<close>

fun valid_event :: "child_event \<Rightarrow> bool" where
  "valid_event (Child_killed sig core) = (1 \<le> sig \<and> sig \<le> 64)"
| "valid_event (Child_stopped sig) = (1 \<le> sig \<and> sig \<le> 64)"
| "valid_event e = True"

section \<open>Lemmas\<close>

lemma and_7f: "(s :: int) AND 0x7f = s mod 128"
  using take_bit_eq_mask [of 7 s] by (simp add: take_bit_eq_mod mask_eq_exp_minus_1)

lemma and_ff: "(s :: int) AND 0xff = s mod 256"
  using take_bit_eq_mask [of 8 s] by (simp add: take_bit_eq_mod mask_eq_exp_minus_1)

lemma WTERMSIG_mod: "WTERMSIG s = s mod 128"
  by (simp add: WTERMSIG_def and_7f)

lemma WEXITSTATUS_mod: "WEXITSTATUS s = (s div 256) mod 256"
proof -
  have "drop_bit 8 (0xff00 :: int) = 0xff" by (simp add: drop_bit_eq_div)
  then show ?thesis
    by (simp add: WEXITSTATUS_def drop_bit_and and_ff) (simp add: drop_bit_eq_div)
qed

lemma WCOREDUMP_bit: "WCOREDUMP s = odd (s div 128)"
proof -
  have "s AND 2 ^ 7 = 0 \<longleftrightarrow> \<not> bit s 7" by (rule and_exp_eq_0_iff_not_bit)
  then show ?thesis by (simp add: WCOREDUMP_def bit_iff_odd)
qed

lemma WIFSIGNALED_range: "WIFSIGNALED s \<longleftrightarrow> WTERMSIG s \<noteq> 0 \<and> WTERMSIG s \<noteq> 127"
proof -
  define x where "x = s mod 128"
  have x: "0 \<le> x" "x < 128" by (simp_all add: x_def)
  have "signed_take_bit 7 (x + 1) = (if x = 127 then -128 else x + 1)"
    using x by (auto simp: signed_take_bit_int_eq_self signed_take_bit_eq_take_bit_shift take_bit_eq_mod)
  then show ?thesis
    using x by (auto simp: WIFSIGNALED_def WTERMSIG_mod and_7f x_def [symmetric] drop_bit_eq_div)
qed

text \<open>The test for a continued child can never succeed where the code has it.\<close>

lemma stopped_not_continued: "WIFSTOPPED s \<Longrightarrow> \<not> WIFCONTINUED s"
  by (auto simp: WIFSTOPPED_def WIFCONTINUED_def and_ff)

lemmas wait_macros = WTERMSIG_mod WEXITSTATUS_mod WCOREDUMP_bit WIFSIGNALED_range WIFEXITED_def
  WIFSTOPPED_def and_ff WSTOPSIG_def

section \<open>Properties\<close>

text \<open>What a reader should learn about each event.\<close>

fun event_text :: "(int \<Rightarrow> string) \<Rightarrow> child_event \<Rightarrow> string" where
  "event_text strsignal (Child_exited e) = ''child exited, status='' @ show_int (e mod 256) @ [NL]"
| "event_text strsignal (Child_killed sig core) =
     ''child killed by signal '' @ show_int sig @ ''('' @ strsignal sig @ '')'' @
     (if core then ''(core dumped)'' else []) @ [NL]"
| "event_text strsignal (Child_stopped sig) =
     ''child stopped by signal '' @ show_int sig @ '' ('' @ strsignal sig @ '')'' @ [NL] @ [NL]"
| "event_text strsignal Child_continued = ''What happened to this child?, (status=ffff)'' @ [NL]"

text \<open>
  (C32) \<open>printWaitStatus\<close> recovers from the status word the kernel builds what happened to the
  child: the low byte of its exit status, or the signal that killed it and whether it dumped core,
  or the signal that stopped it. A child that was continued is not recognised: it is reported
  with the text for an unknown status, because that test stands inside the stopped branch.
\<close>

theorem printWaitStatus_reports:
  assumes "valid_event ev"
  shows "emitted Stdout (trace K (printWaitStatus strsignal None (wait_status ev) (exit 0)) k) =
      event_text strsignal ev"
proof (cases ev)
  case (Child_exited e)
  then show ?thesis by (simp add: printWaitStatus_def wait_macros)
next
  case (Child_killed sig core)
  with assms have "sig mod 128 = sig" "(sig + 128) mod 128 = sig" "sig div 128 = 0" "(sig + 128) div 128 = 1"
    by auto
  with assms Child_killed show ?thesis by (simp add: printWaitStatus_def wait_macros)
next
  case (Child_stopped sig)
  define s where "s = 256 * sig + 127"
  have "s mod 128 = (128 * (2 * sig) + 127) mod 128" unfolding s_def by simp
  then have "s mod 128 = 127" unfolding mod_mult_self4 by simp
  moreover from assms Child_stopped have "s mod 256 = 127" "s div 256 mod 256 = sig" "s \<noteq> 0xffff"
    unfolding s_def by auto
  ultimately show ?thesis
    using Child_stopped by (simp add: printWaitStatus_def wait_macros WIFCONTINUED_def s_def [symmetric])
next
  case Child_continued
  have "digit_char 15 = CHR ''f''" by code_simp
  then have "show_hex 65535 = ''ffff''" by (simp add: show_hex_def show_base.simps)
  with Child_continued show ?thesis by (simp add: printWaitStatus_def wait_macros to_uint_def)
qed

lemma printWaitStatus_reports_witness:
  "emitted Stdout (trace script (printWaitStatus (\<lambda>_. ''Killed'') None (wait_status (Child_killed 9 True)) (exit 0)) []) =
     ''child killed by signal 9(Killed)(core dumped)\<newline>''"
proof -
  have "event_text (\<lambda>_. ''Killed'') (Child_killed 9 True) = ''child killed by signal 9(Killed)(core dumped)\<newline>''"
    by code_simp
  moreover have "valid_event (Child_killed 9 True)" by simp
  note printWaitStatus_reports [OF this, of script "\<lambda>_. ''Killed''" "[]"]
  ultimately show ?thesis by (simp only:)
qed

text \<open>
  The parent of child\_status.c never reports a status: whatever waitpid answers, it ends with
  EXIT_FAILURE after a single call and prints nothing on standard output, although the program's
  header promises that it waits until the child has exited or was killed.
\<close>

theorem child_status_parent_fails:
  "outcome K child_status_parent k = Exited 1 \<and>
   emitted Stdout (trace K child_status_parent k) = [] \<and>
   calls (trace K child_status_parent k) = [Proc (Waitpid (-1) 10)]"
  by (simp add: child_status_parent_def)

end
