(* ===== verification/Processes.thy ===== *)
theory Processes
  imports Wait_Status
begin

unbundle bit_operations_syntax

text \<open>
  Process creation, termination and waiting: the programs of src/procexec other than
  child\_status.c, and \<open>currTime\<close> (src/time/curr_time.c and .h), which they use. A process is
  followed through fork by the value the kernel answers: 0 in the child, the child's number in the
  parent.
\<close>

section \<open>currTime\<close>

definition CURR_TIME_BUF_SIZE :: nat where "CURR_TIME_BUF_SIZE = 1000"

text \<open>None is a NULL result; \<open>strftime\<close> returns 0 when the text and its NUL do not fit.\<close>

definition currTime :: "string option \<Rightarrow> (string option \<Rightarrow> prog) \<Rightarrow> prog" where
  "currTime format return =
     Call (Tm Time) (\<lambda>t.
     Call (Tm (Localtime (rv t))) (\<lambda>tm.
     if rv tm = 0 then return None
     else Call (Tm (Strftime (case format of Some f \<Rightarrow> f | None \<Rightarrow> ''%c'') (ints tm))) (\<lambda>s.
       return (if rv s = 0 then None else Some (take (CURR_TIME_BUF_SIZE - 1) (bytes s))))))"

text \<open>\<open>printf("%s", p)\<close> with a NULL \<open>p\<close> is undefined.\<close>

definition with_str :: "string option \<Rightarrow> (string \<Rightarrow> prog) \<Rightarrow> prog" where
  "with_str p f = (case p of None \<Rightarrow> Halt Undefined | Some s \<Rightarrow> f s)"

lemma with_str_simps [simp]: "with_str (Some s) f = f s" "with_str None f = Halt Undefined"
  by (simp_all add: with_str_def)

section \<open>t\_fork.c and t\_vfork.c\<close>

text \<open>\<open>idata\<close> and \<open>istack\<close> are passed along: each process has its own copy.\<close>

definition t_fork_report :: "int \<Rightarrow> int \<Rightarrow> int \<Rightarrow> prog" where
  "t_fork_report childPid idata istack =
     Call (Proc Getpid) (\<lambda>p.
     printf (''PID='' @ show_int (rv p) @ '' '' @ (if childPid = 0 then ''child'' else ''parent'') @
             '' idata='' @ show_int idata @ '' istack='' @ show_int istack @ [NL])
       (exit EXIT_SUCCESS))"

definition t_fork_main :: prog where
  "t_fork_main =
     (let idata = 111; istack = 222 in
      Call (Proc Fork) (\<lambda>f.
      if rv f = -1 then perror ''fork'' (exit EXIT_FAILURE)
      else if rv f = 0 then t_fork_report (rv f) (idata * 3) (istack * 3)
      else Call (Proc (Sleep 3)) (\<lambda>_. t_fork_report (rv f) idata istack)))"

text \<open>
  After vfork the child runs first, in the parent's memory, and the parent is resumed at the
  child's \<open>_exit\<close> with \<open>istack\<close> as the child left it.
\<close>

definition t_vfork_parent :: "int \<Rightarrow> prog" where
  "t_vfork_parent istack =
     Call (Io (Write 1 ''Parent executing\<newline>'')) (\<lambda>_.
     printf (''istack='' @ show_int istack @ [NL]) (exit EXIT_SUCCESS))"

definition t_vfork_main :: prog where
  "t_vfork_main =
     (let istack = 222 in
      Call (Proc Vfork) (\<lambda>f.
      if rv f = -1 then perror ''vfork'' (exit EXIT_FAILURE)
      else Call (Proc (Sleep 3)) (\<lambda>_.
           Call (Io (Write 1 ''Child executing\<newline>'')) (\<lambda>_.
           let istack = istack * 3 in t_vfork_parent istack))))"

section \<open>multi\_wait.c\<close>

definition multi_wait_child :: "nat \<Rightarrow> string \<Rightarrow> prog" where
  "multi_wait_child j arg =
     currTime (Some ''%T'') (\<lambda>t.
     Call (Proc Getpid) (\<lambda>p.
     with_str t (\<lambda>t.
     printf (''['' @ t @ ''] child '' @ show_nat j @ '' started with PID '' @ show_int (rv p) @
             '', sleeping for '' @ arg @ '' seconds\<newline>'')
       (Call (Proc (Sleep (atoi arg))) (\<lambda>_. exit_now EXIT_SUCCESS)))))"

fun multi_wait_fork :: "nat \<Rightarrow> string list \<Rightarrow> prog \<Rightarrow> prog" where
  "multi_wait_fork j [] finish = finish"
| "multi_wait_fork j (arg # args) finish =
     Call (Proc Fork) (\<lambda>f.
     if rv f = -1 then perror ''fork'' (exit EXIT_FAILURE)
     else if rv f = 0 then multi_wait_child j arg
     else multi_wait_fork (Suc j) args finish)"

fun multi_wait_loop :: "nat \<Rightarrow> int \<Rightarrow> prog" where
  "multi_wait_loop 0 numDead = Halt Unfinished"
| "multi_wait_loop (Suc n) numDead =
     Call (Proc Wait) (\<lambda>w.
     if rv w = -1 then
       (if err w = ECHILD then printf ''No more children to kill - bye\<newline>'' (exit EXIT_SUCCESS)
        else perror ''wait'' (exit EXIT_FAILURE))
     else let numDead = numDead + 1 in
       currTime (Some ''%T'') (\<lambda>t. with_str t (\<lambda>t.
       printf (''['' @ t @ ''] wait() returned child PID '' @ show_int (rv w) @
               '' (numDead='' @ show_int numDead @ '')\<newline>'')
         (multi_wait_loop n numDead))))"

definition multi_wait_main :: "nat \<Rightarrow> string list \<Rightarrow> prog" where
  "multi_wait_main fuel argv =
     (if length argv < 2 \<or> argv ! 1 = ''--help'' then
        eprintf (argv ! 0 @ '' sleep-time...\<newline>'') (exit EXIT_FAILURE)
      else multi_wait_fork 1 (drop 1 argv) (multi_wait_loop fuel 0))"

section \<open>exit\_handlers.c\<close>

text \<open>
  The functions registered with atexit and on\_exit; \<open>exit\<close> runs them in the reverse order of
  their registration.
\<close>

datatype exit_handler = AtexitFunc1 | AtexitFunc2 | OnexitFunc int

fun run_handler :: "int \<Rightarrow> exit_handler \<Rightarrow> prog \<Rightarrow> prog" where
  "run_handler status AtexitFunc1 p = printf ''atexit function 1 called\<newline>'' p"
| "run_handler status AtexitFunc2 p = printf ''atexit function 2 called\<newline>'' p"
| "run_handler status (OnexitFunc arg) p =
     printf (''onexit function called: status = '' @ show_int status @ '', arg = '' @ show_int arg @ [NL]) p"

fun exit_running :: "exit_handler list \<Rightarrow> int \<Rightarrow> prog" where
  "exit_running [] status = exit status"
| "exit_running (h # hs) status = run_handler status h (exit_running hs status)"

text \<open>\<open>hs\<close> lists the registered handlers, the latest first.\<close>

fun handler_call :: "exit_handler \<Rightarrow> syscall" where
  "handler_call AtexitFunc1 = Proc (Atexit ''atexitFunc1'')"
| "handler_call AtexitFunc2 = Proc (Atexit ''atexitFunc2'')"
| "handler_call (OnexitFunc arg) = Proc (On_exit ''onexitFunc'' arg)"

definition register :: "exit_handler \<Rightarrow> string \<Rightarrow> exit_handler list \<Rightarrow> (exit_handler list \<Rightarrow> prog) \<Rightarrow> prog" where
  "register h what hs p =
     Call (handler_call h) (\<lambda>r.
       if rv r \<noteq> 0 then perror what (exit_running hs EXIT_FAILURE) else p (h # hs))"

definition exit_handlers_main :: prog where
  "exit_handlers_main =
     register (OnexitFunc 10) ''on_exit 1'' [] (\<lambda>hs.
     register AtexitFunc1 ''atexit 1'' hs (\<lambda>hs.
     register AtexitFunc2 ''atexit 2'' hs (\<lambda>hs.
     register (OnexitFunc 20) ''on_exit 2'' hs (\<lambda>hs.
     exit_running hs 2))))"

section \<open>fork\_file\_sharing.c\<close>

abbreviation (input) O_APPEND :: flags where "O_APPEND \<equiv> 0x400"
abbreviation (input) SEEK_SET :: int where "SEEK_SET \<equiv> 0"
abbreviation (input) SEEK_CUR :: int where "SEEK_CUR \<equiv> 1"

text \<open>The flags fcntl returned, as a bit pattern.\<close>

abbreviation (input) fl :: "ret \<Rightarrow> flags" where "fl r \<equiv> word_of_int (rv r)"

definition on_off :: "flags \<Rightarrow> string" where
  "on_off flags = (if flags AND O_APPEND \<noteq> 0 then ''on'' else ''off'')"

definition sharing_child :: "int \<Rightarrow> prog" where
  "sharing_child fd =
     Call (Io (Lseek fd 1000 SEEK_SET)) (\<lambda>s.
     if rv s = -1 then perror ''lseek'' (exit EXIT_FAILURE)
     else Call (Io (Getfl fd)) (\<lambda>g.
     if rv g = -1 then perror ''fcntl -F_GETFL'' (exit EXIT_FAILURE)
     else Call (Io (Setfl fd (fl g OR O_APPEND))) (\<lambda>t.
     if rv t = -1 then perror ''fcntl -F_SETFL'' (exit EXIT_FAILURE)
     else exit_now EXIT_SUCCESS)))"

definition sharing_parent :: "int \<Rightarrow> prog" where
  "sharing_parent fd =
     Call (Proc Wait) (\<lambda>w.
     if rv w = -1 then perror ''wait'' (exit EXIT_FAILURE)
     else printf ''Child has exited\<newline>'' (
     Call (Io (Lseek fd 0 SEEK_CUR)) (\<lambda>s.
     printf (''File offset in parent: '' @ show_int (rv s) @ [NL]) (
     Call (Io (Getfl fd)) (\<lambda>g.
     if rv g = -1 then perror ''fcntl - F_GETFL'' (exit EXIT_FAILURE)
     else printf (''O_APPEND FLAG in parent is '' @ on_off (fl g) @ [NL]) (exit EXIT_SUCCESS))))))"

definition fork_file_sharing_main :: prog where
  "fork_file_sharing_main =
     Call (Path (Mkstemp ''/tmp/testXXXXXX'')) (\<lambda>m.
     if rv m = -1 then perror ''mkstemp'' (exit EXIT_FAILURE)
     else let fd = rv m in
     Call (Io (Lseek fd 0 SEEK_CUR)) (\<lambda>s.
     printf (''File offset before fork(): '' @ show_int (rv s) @ [NL]) (
     Call (Io (Getfl fd)) (\<lambda>g.
     if rv g = -1 then perror ''fcntl - F_GETFL'' (exit EXIT_FAILURE)
     else printf (''O_APPEND flag before fork() is: '' @ on_off (fl g) @ [NL]) (
     Call (Proc Fork) (\<lambda>f.
     if rv f = -1 then perror ''fork'' (exit EXIT_FAILURE)
     else if rv f = 0 then sharing_child fd
     else sharing_parent fd))))))"

section \<open>fork\_sig\_sync.c\<close>

abbreviation (input) SIGUSR1 :: int where "SIGUSR1 \<equiv> 10"
abbreviation (input) SYNC_SIG :: int where "SYNC_SIG \<equiv> SIGUSR1"
abbreviation (input) SIG_BLOCK :: int where "SIG_BLOCK \<equiv> 0"
abbreviation (input) SIG_SETMASK :: int where "SIG_SETMASK \<equiv> 2"
abbreviation (input) SA_RESTART :: flags where "SA_RESTART \<equiv> 0x10000000"

text \<open>\<open>printf("[%s %ld] ...\n", currTime("%T"), (long) getpid())\<close>\<close>

definition stamped :: "string \<Rightarrow> prog \<Rightarrow> prog" where
  "stamped text p =
     currTime (Some ''%T'') (\<lambda>t.
     Call (Proc Getpid) (\<lambda>i.
     with_str t (\<lambda>t. printf (''['' @ t @ '' '' @ show_int (rv i) @ ''] '' @ text @ [NL]) p)))"

definition sig_sync_child :: prog where
  "sig_sync_child =
     stamped ''Child started - doing some work'' (
     Call (Proc (Sleep 2)) (\<lambda>_.
     stamped ''Child about to signal parent'' (
     Call (Proc Getppid) (\<lambda>pp.
     Call (Sig (Kill (rv pp) SYNC_SIG)) (\<lambda>k.
     if rv k = -1 then perror ''kill'' (exit EXIT_FAILURE)
     else exit_now EXIT_SUCCESS)))))"

text \<open>\<open>origMask\<close> is what the first sigprocmask stored.\<close>

definition sig_sync_parent :: "int set \<Rightarrow> prog" where
  "sig_sync_parent origMask =
     stamped ''Parent about to wait for signal'' (
     Call (Sig (Sigsuspend {})) (\<lambda>s.
     if rv s = -1 \<and> err s \<noteq> EINTR then perror ''sigsuspend'' (exit EXIT_FAILURE)
     else stamped ''Parent got signal'' (
     Call (Sig (Sigprocmask SIG_SETMASK (Some origMask))) (\<lambda>m.
     if rv m = -1 then perror ''sigprocmask'' (exit EXIT_FAILURE)
     else exit EXIT_SUCCESS))))"

definition fork_sig_sync_main :: prog where
  "fork_sig_sync_main =
     Call (Sig (Sigprocmask SIG_BLOCK (Some {SYNC_SIG}))) (\<lambda>m.
     if rv m = -1 then perror ''sigprocmask'' (exit EXIT_FAILURE)
     else Call (Sig (Sigaction SYNC_SIG ''handler'' SA_RESTART {})) (\<lambda>a.
     if rv a = -1 then perror ''sigaction'' (exit EXIT_FAILURE)
     else Call (Proc Fork) (\<lambda>f.
     if rv f = -1 then perror ''fork'' (exit EXIT_FAILURE)
     else if rv f = 0 then sig_sync_child
     else sig_sync_parent (set (ints m)))))"

section \<open>make\_zombie.c, t\_execve.c and envargs.c\<close>

definition CMD_SIZE :: nat where "CMD_SIZE = 200"

text \<open>\<open>basename(3)\<close> of <libgen.h>.\<close>

definition basename :: "string \<Rightarrow> string" where
  "basename s =
     (let t = rev (dropWhile (\<lambda>c. c = CHR ''/'') (rev s)) in
      if s = [] then ''.'' else if t = [] then ''/''
      else rev (takeWhile (\<lambda>c. c \<noteq> CHR ''/'') (rev t)))"

definition make_zombie_main :: "string list \<Rightarrow> prog" where
  "make_zombie_main argv =
     Call (Proc Getpid) (\<lambda>p.
     printf (''Parent PID='' @ show_int (rv p) @ [NL]) (
     Call (Proc Fork) (\<lambda>f.
     if rv f = -1 then perror ''fork'' (exit EXIT_FAILURE)
     else if rv f = 0 then
       Call (Proc Getpid) (\<lambda>p.
       printf (''Child (PID='' @ show_int (rv p) @ '') exiting\<newline>'') (exit_now EXIT_SUCCESS))
     else
       Call (Proc (Sleep 3)) (\<lambda>_.
       with_arg argv 0 (\<lambda>a0.
       let cmd = snprintf CMD_SIZE (''ps | grep '' @ basename a0) in
       printf (''terminal command - '' @ cmd) (
       Call (Proc (System cmd)) (\<lambda>_.
       Call (Sig (Kill (rv f) 9)) (\<lambda>k.
       if rv k = -1 then perror ''kill'' (exit EXIT_FAILURE)
       else Call (Proc (Sleep 3)) (\<lambda>_.
       printf (''After sending SIGKILL to zombie (PID='' @ show_int (rv f) @ ''):\<newline>'') (
       Call (Proc (System cmd)) (\<lambda>_. exit EXIT_SUCCESS)))))))))))"

text \<open>What follows the first slash, or the whole path.\<close>

definition execve_arg0 :: "string \<Rightarrow> string" where
  "execve_arg0 path =
     (if CHR ''/'' \<in> set path then tl (dropWhile (\<lambda>c. c \<noteq> CHR ''/'') path) else path)"

definition t_execve_main :: "string list \<Rightarrow> prog" where
  "t_execve_main argv =
     (if length argv \<noteq> 2 \<or> argv ! 1 = ''--help'' then printf (argv ! 0 @ '' pathname\<newline>'') (exit EXIT_FAILURE)
      else Call (Proc (Execve (argv ! 1) [execve_arg0 (argv ! 1), ''hello world'', ''goodbye'']
                  [''GREET=salut'', ''BYE=adieu''])) (\<lambda>r.
        if rv r = -1 then perror ''execve'' (exit EXIT_FAILURE) else Halt Replaced))"

fun envargs_args :: "nat \<Rightarrow> string list \<Rightarrow> prog \<Rightarrow> prog" where
  "envargs_args j [] p = p"
| "envargs_args j (a # as) p = printf (''argv['' @ show_nat j @ ''] = '' @ a @ [NL]) (envargs_args (Suc j) as p)"

fun envargs_env :: "string list \<Rightarrow> prog \<Rightarrow> prog" where
  "envargs_env [] p = p"
| "envargs_env (e # es) p = printf (''environ: '' @ e @ [NL]) (envargs_env es p)"

definition envargs_main :: "string list \<Rightarrow> string list \<Rightarrow> prog" where
  "envargs_main argv environ = envargs_args 0 argv (envargs_env environ (exit EXIT_SUCCESS))"

section \<open>Properties\<close>

text \<open>
  The contract of fork and wait for a parent: fork creates a child with a pid that none of the others
  has, wait returns any one of the children, in whatever order they end, and removes it, and fails with
  ECHILD when there is none. Times can be formatted.
\<close>

locale parent_kernel =
  fixes K :: "'k kernel" and kids :: "'k \<Rightarrow> int set"
  assumes fork: "K k (Proc Fork) = (r, k') \<Longrightarrow> 0 < rv r \<and> rv r \<notin> kids k \<and> kids k' = insert (rv r) (kids k)"
    and wait: "kids k \<noteq> {} \<Longrightarrow> K k (Proc Wait) = (r, k') \<Longrightarrow> rv r \<in> kids k \<and> kids k' = kids k - {rv r}"
    and no_child: "kids k = {} \<Longrightarrow> K k (Proc Wait) = (r, k') \<Longrightarrow> rv r = -1 \<and> err r = ECHILD \<and> kids k' = {}"
    and clock: "K k (Tm c) = (r, k') \<Longrightarrow> (\<forall>t. c = Localtime t \<longrightarrow> rv r \<noteq> 0) \<and> (\<forall>f tm. c = Strftime f tm \<longrightarrow> rv r \<noteq> 0) \<and> kids k' = kids k"

text \<open>What the parent prints when it collects children, given with the times, having collected \<open>d\<close> before.\<close>

fun collected :: "int \<Rightarrow> (string \<times> int) list \<Rightarrow> string" where
  "collected d [] = ''No more children to kill - bye\<newline>''"
| "collected d ((t, p) # ps) =
     ''['' @ t @ ''] wait() returned child PID '' @ show_int p @ '' (numDead='' @ show_int (d + 1) @ '')\<newline>'' @
     collected (d + 1) ps"

text \<open>The pids that the forks of a trace returned.\<close>

fun forked :: "event list \<Rightarrow> int list" where
  "forked [] = []"
| "forked (Did c r # tr) = (if c = Proc Fork then [rv r] else []) @ forked tr"
| "forked (Emit q x # tr) = forked tr"

lemma forked_append [simp]: "forked (tr @ tr') = forked tr @ forked tr'"
  by (induction tr rule: forked.induct) simp_all

context parent_kernel
begin

lemma currTime_leads:
  "\<exists>t tr k'. leads K (currTime f p) k tr (p (Some t)) k' \<and> kids k' = kids k \<and> emitted Stdout tr = [] \<and> forked tr = []"
proof -
  obtain r1 k1 where 1: "K k (Tm Time) = (r1, k1)" by force
  obtain r2 k2 where 2: "K k1 (Tm (Localtime (rv r1))) = (r2, k2)" by force
  obtain r3 k3 where 3: "K k2 (Tm (Strftime (case f of Some f \<Rightarrow> f | None \<Rightarrow> ''%c'') (ints r2))) = (r3, k3)" by force
  have "leads K (currTime f p) k [Did (Tm Time) r1, Did (Tm (Localtime (rv r1))) r2,
      Did (Tm (Strftime (case f of Some f \<Rightarrow> f | None \<Rightarrow> ''%c'') (ints r2))) r3] (p (Some (take (CURR_TIME_BUF_SIZE - 1) (bytes r3)))) k3"
    unfolding currTime_def using clock [OF 2] clock [OF 3] by (intro leads_Call [where K = K, OF 1] leads_Call [where K = K, OF 2]) (auto intro!: leads_Call [where K = K, OF 2] leads_Call [where K = K, OF 3])
  then show ?thesis using clock [OF 1] clock [OF 2] clock [OF 3] by fastforce
qed

lemma multi_wait_loop_leads:
  assumes "finite (kids k)" and "card (kids k) < fuel" and "\<forall>p\<in>kids k. 0 < p"
  shows "\<exists>ps tr k'. leads K (multi_wait_loop fuel d) k tr (exit 0) k' \<and> kids k' = {} \<and> emitted Stdout tr = collected d ps \<and>
    forked tr = [] \<and> distinct (map snd ps) \<and> snd ` set ps = kids k"
  using assms
proof (induction fuel arbitrary: k d)
  case (Suc fuel)
  obtain r k1 where r: "K k (Proc Wait) = (r, k1)" by force
  show ?case
  proof (cases "kids k = {}")
    case True
    then have "leads K (multi_wait_loop (Suc fuel) d) k [Did (Proc Wait) r, Emit Stdout ''No more children to kill - bye\<newline>''] (exit 0) k1"
      using no_child [OF True r] by (auto intro!: leads_Call [where K = K, OF r] leads_Put)
    then show ?thesis using no_child [OF True r] True
      by (intro exI [of _ "[]"] exI [of _ "[Did (Proc Wait) r, Emit Stdout ''No more children to kill - bye\<newline>'']"] exI [of _ k1]) simp
  next
    case False
    note W = wait [OF False r]
    have kid: "rv r \<in> kids k" "0 < rv r" using W Suc.prems by auto
    let ?next = "\<lambda>t. with_str t (\<lambda>t. printf (''['' @ t @ ''] wait() returned child PID '' @ show_int (rv r) @
               '' (numDead='' @ show_int (d + 1) @ '')\<newline>'') (multi_wait_loop fuel (d + 1)))"
    obtain t tr1 k2 where t: "leads K (currTime (Some ''%T'') ?next) k1 tr1 (?next (Some t)) k2" "kids k2 = kids k1"
      "emitted Stdout tr1 = []" "forked tr1 = []" using currTime_leads [of "Some ''%T''" ?next] by blast
    have k2: "kids k2 = kids k - {rv r}" using W t(2) by simp
    have "finite (kids k2)" "card (kids k2) < fuel" "\<forall>p\<in>kids k2. 0 < p"
      using Suc.prems kid card_Diff1_less [OF Suc.prems(1) kid(1)] by (auto simp: k2)
    from Suc.IH [OF this, of "d + 1"] obtain ps tr k' where IH: "leads K (multi_wait_loop fuel (d + 1)) k2 tr (exit 0) k'"
      "kids k' = {}" "emitted Stdout tr = collected (d + 1) ps" "forked tr = []" "distinct (map snd ps)" "snd ` set ps = kids k2" by blast
    let ?line = "''['' @ t @ ''] wait() returned child PID '' @ show_int (rv r) @ '' (numDead='' @ show_int (d + 1) @ '')\<newline>''"
    have "leads K (multi_wait_loop (Suc fuel) d) k (Did (Proc Wait) r # tr1 @ Emit Stdout ?line # tr) (exit 0) k'"
      using kid(2) leads_trans [OF t(1)] leads_Put [OF IH(1)] by (auto simp: Let_def intro!: leads_Call [where K = K, OF r])
    moreover have "distinct (map snd ((t, rv r) # ps))" "snd ` set ((t, rv r) # ps) = kids k"
      using IH(5,6) kid(1) by (auto simp: k2)
    ultimately show ?thesis using IH t
      by (intro exI [of _ "(t, rv r) # ps"] exI [of _ "Did (Proc Wait) r # tr1 @ Emit Stdout ?line # tr"] exI [of _ k']) simp
  qed
qed simp

lemma multi_wait_fork_leads:
  "\<exists>tr k'. leads K (multi_wait_fork j args p) k tr p k' \<and> emitted Stdout tr = [] \<and> length (forked tr) = length args \<and>
    distinct (forked tr) \<and> set (forked tr) \<inter> kids k = {} \<and> kids k' = kids k \<union> set (forked tr) \<and> (\<forall>p\<in>set (forked tr). 0 < p)"
proof (induction args arbitrary: j k)
  case Nil
  then show ?case by (intro exI [of _ "[]"] exI [of _ k]) simp
next
  case (Cons arg args)
  obtain r k1 where r: "K k (Proc Fork) = (r, k1)" by force
  note F = fork [OF r]
  from Cons.IH [of "Suc j" k1] obtain tr k' where IH: "leads K (multi_wait_fork (Suc j) args p) k1 tr p k'" "emitted Stdout tr = []"
    "length (forked tr) = length args" "distinct (forked tr)" "set (forked tr) \<inter> kids k1 = {}" "kids k' = kids k1 \<union> set (forked tr)"
    "\<forall>p\<in>set (forked tr). 0 < p" by blast
  then have "leads K (multi_wait_fork j (arg # args) p) k (Did (Proc Fork) r # tr) p k'"
    using F by (auto intro!: leads_Call [where K = K, OF r])
  then show ?case using IH F by (intro exI [of _ "Did (Proc Fork) r # tr"] exI [of _ k']) auto
qed

end

text \<open>
  A kernel in which the children end in any order: \<open>picks\<close> says at each wait which of the children that
  are left it is. A new child gets a pid above those of the others.
\<close>

record proc_state =
  children :: "int list"
  picks :: "nat list"

definition new_pid :: "int list \<Rightarrow> int" where
  "new_pid ps = foldr max ps 100 + 1"

definition proc_K :: "string \<Rightarrow> proc_state kernel" where
  "proc_K clock s c = (case c of
      Proc i \<Rightarrow> (case i of
          Fork \<Rightarrow> (ok (new_pid (children s)), s\<lparr>children := children s @ [new_pid (children s)]\<rparr>)
        | Wait \<Rightarrow>
            (if children s = [] then (fail ECHILD, s)
             else let p = children s ! ((case picks s of [] \<Rightarrow> 0 | n # _ \<Rightarrow> n) mod length (children s)) in
               (ok p, s\<lparr>children := removeAll p (children s), picks := drop 1 (picks s)\<rparr>))
        | _ \<Rightarrow> (ok 0, s))
    | Tm i \<Rightarrow> (case i of Strftime f tm \<Rightarrow> (got clock, s) | _ \<Rightarrow> (ok 1, s))
    | _ \<Rightarrow> (ok 0, s))"

lemma new_pid_above: "p \<in> set ps \<Longrightarrow> p < new_pid ps" "0 < new_pid ps"
  by (induction ps) (auto simp: new_pid_def)

interpretation parent: parent_kernel "proc_K ''12:00:00''" "\<lambda>s. set (children s)"
proof unfold_locales
  fix k :: proc_state and r k'
  assume "proc_K ''12:00:00'' k (Proc Fork) = (r, k')"
  then show "0 < rv r \<and> rv r \<notin> set (children k) \<and> set (children k') = insert (rv r) (set (children k))"
    using new_pid_above(1) [of "new_pid (children k)" "children k"] new_pid_above(2) [of "children k"] by (auto simp: proc_K_def)
next
  fix k :: proc_state and r k'
  assume "set (children k) \<noteq> {}" and "proc_K ''12:00:00'' k (Proc Wait) = (r, k')"
  then show "rv r \<in> set (children k) \<and> set (children k') = set (children k) - {rv r}"
    by (auto simp: proc_K_def Let_def intro!: nth_mem)
qed (auto simp: proc_K_def split: time_call.splits)

text \<open>
  (C33) multi\_wait.c creates one child per argument, collects every one of them exactly once,
  counting them, in whatever order they end, and then exits with status 0: its endless loop ends
  because wait finally fails with ECHILD. One unit of fuel per child and one more suffice.
\<close>

theorem multi_wait_collects_all:
  assumes "parent_kernel K kids" and "kids k = {}" and "args \<noteq> []" and "hd args \<noteq> ''--help''" and "length args < fuel"
  shows "let p = multi_wait_main fuel (self # args); tr = trace K p k in
    outcome K p k = Exited 0 \<and> kids (final K p k) = {} \<and> length (forked tr) = length args \<and> distinct (forked tr) \<and>
    (\<exists>ps. distinct (map snd ps) \<and> set (map snd ps) = set (forked tr) \<and> emitted Stdout tr = collected 0 ps)"
proof -
  have main: "multi_wait_main fuel (self # args) = multi_wait_fork 1 args (multi_wait_loop fuel 0)"
    using assms(3,4) by (auto simp: multi_wait_main_def neq_Nil_conv)
  obtain tr k1 where F: "leads K (multi_wait_fork 1 args (multi_wait_loop fuel 0)) k tr (multi_wait_loop fuel 0) k1" "emitted Stdout tr = []"
    "length (forked tr) = length args" "distinct (forked tr)" "kids k1 = set (forked tr)" "\<forall>p\<in>set (forked tr). 0 < p"
    using parent_kernel.multi_wait_fork_leads [OF assms(1), of 1 args "multi_wait_loop fuel 0" k] assms(2) by auto
  have "card (kids k1) < fuel" using F(3,4,5) assms(5) by (simp add: distinct_card)
  then obtain ps tr' k' where L: "leads K (multi_wait_loop fuel 0) k1 tr' (exit 0) k'" "kids k' = {}" "emitted Stdout tr' = collected 0 ps"
    "forked tr' = []" "distinct (map snd ps)" "snd ` set ps = set (forked tr)"
    using parent_kernel.multi_wait_loop_leads [OF assms(1), of k1 fuel 0] F(5,6) by auto
  have run: "run K (multi_wait_main fuel (self # args)) k = (tr @ tr', Exited 0, k')"
    unfolding main by (rule leads_end [OF leads_trans [OF F(1) L(1)]])
  show ?thesis using F L run by (auto simp: Let_def trace_def outcome_def final_def intro!: exI [of _ ps])
qed

lemma multi_wait_collects_all_witness:
  "outcome (proc_K ''12:00:00'') (multi_wait_main 4 [''multi_wait'', ''7'', ''1'', ''4'']) \<lparr>children = [], picks = [1, 1]\<rparr> = Exited 0"
  using multi_wait_collects_all [OF parent.parent_kernel_axioms, of "\<lparr>children = [], picks = [1, 1]\<rparr>" "[''7'', ''1'', ''4'']" 4 "''multi_wait''"]
  by (simp add: Let_def)

text \<open>With sleeps of 7, 1 and 4 seconds the second child ends first, then the third, then the first.\<close>

lemma multi_wait_order:
  "emitted Stdout (trace (proc_K ''12:00:00'') (multi_wait_main 4 [''multi_wait'', ''7'', ''1'', ''4'']) \<lparr>children = [], picks = [1, 1]\<rparr>) =
     collected 0 [(''12:00:00'', 102), (''12:00:00'', 103), (''12:00:00'', 101)]"
  by code_simp

text \<open>
  The exit handlers run in the reverse order of their registration: exit(2) calls the second
  on\_exit handler, then the second and the first atexit handler, then the first on\_exit handler,
  and the on\_exit handlers see the status 2.
\<close>

theorem exit_handlers_lifo:
  assumes "\<forall>k c. rv (fst (K k c)) = 0"
  shows "emitted Stdout (trace K exit_handlers_main k) =
      ''onexit function called: status = 2, arg = 20\<newline>'' @
      ''atexit function 2 called\<newline>'' @ ''atexit function 1 called\<newline>'' @
      ''onexit function called: status = 2, arg = 10\<newline>'' \<and>
    outcome K exit_handlers_main k = Exited 2"
proof -
  have "show_int 2 = ''2''" "show_int 20 = ''20''" "show_int 10 = ''10''" by code_simp+
  then show ?thesis using assms by (simp add: exit_handlers_main_def register_def)
qed

lemma exit_handlers_lifo_witness:
  "outcome (\<lambda>k c. (ok 0, k)) exit_handlers_main () = Exited 2"
  using exit_handlers_lifo [of "\<lambda>k c. (ok 0, k)" "()"] by simp

text \<open>
  After fork the data and the stack are copies: the child reports the tripled values, the parent
  the original ones.
\<close>

lemma t_fork_copies:
  assumes "rv (fst (K k (Proc Fork))) \<noteq> -1"
  shows "\<exists>pid. emitted Stdout (trace K t_fork_main k) =
    ''PID='' @ pid @ (if rv (fst (K k (Proc Fork))) = 0 then '' child idata=333 istack=666\<newline>''
                      else '' parent idata=111 istack=222\<newline>'')"
proof -
  have "show_int 333 = ''333''" "show_int 666 = ''666''" "show_int 111 = ''111''" "show_int 222 = ''222''"
    by code_simp+
  then show ?thesis using assms by (auto simp: t_fork_main_def t_fork_report_def)
qed

text \<open>After vfork the child's assignment is visible in the parent.\<close>

lemma t_vfork_shares:
  assumes "rv (fst (K k (Proc Vfork))) \<noteq> -1"
  shows "emitted Stdout (trace K t_vfork_main k) = ''istack=666\<newline>''"
proof -
  have "show_int 666 = ''666''" by code_simp
  then show ?thesis using assms by (simp add: t_vfork_main_def t_vfork_parent_def)
qed

text \<open>
  An open file description, which parent and child share: the offset and the status flags.
\<close>

record open_file =
  offset :: int
  status :: flags

definition open_file_K :: "open_file kernel" where
  "open_file_K s c = (case c of
      Io i \<Rightarrow> (case i of
          Lseek fd off whence \<Rightarrow>
            (let p = (if whence = SEEK_SET then off else offset s + off) in (ok p, s\<lparr>offset := p\<rparr>))
        | Getfl fd \<Rightarrow> (ok (uint (status s)), s)
        | Setfl fd f \<Rightarrow> (ok 0, s\<lparr>status := f\<rparr>)
        | _ \<Rightarrow> (ok 0, s))
    | _ \<Rightarrow> (ok 1, s))"

text \<open>
  A child shares the parent's open file: whatever the offset and the status flags were, after
  the child has run the parent reports the offset 1000 and the O_APPEND flag that the child set.
\<close>

theorem fork_shares_open_file:
  "emitted Stdout (trace open_file_K (sharing_parent fd) (final open_file_K (sharing_child fd) s)) =
     ''Child has exited\<newline>File offset in parent: 1000\<newline>O_APPEND FLAG in parent is on\<newline>''"
proof -
  have "show_int 1000 = ''1000''" by code_simp
  moreover have "(w OR 0x400) AND 0x400 \<noteq> 0" for w :: flags
  proof -
    have "bit ((w OR 2 ^ 10) AND 2 ^ 10) 10" by (simp add: bit_simps)
    then show ?thesis by auto
  qed
  moreover have "uint w \<noteq> -1" for w :: flags
    using uint_ge_0 [of w] by (metis neg_0_le_iff_le not_one_le_zero)
  ultimately show ?thesis
    by (simp add: sharing_child_def sharing_parent_def open_file_K_def on_off_def)
qed

text \<open>
  The signal is blocked before the child exists and unblocked only by sigsuspend, so the parent
  cannot miss it: on every path that forks, the first three calls are these.
\<close>

lemma sig_sync_blocks_first:
  assumes "rv (fst (K k (Sig (Sigprocmask SIG_BLOCK (Some {SYNC_SIG}))))) \<noteq> -1"
    and "\<And>k. rv (fst (K k (Sig (Sigaction SYNC_SIG ''handler'' SA_RESTART {})))) \<noteq> -1"
  shows "take 3 (calls (trace K fork_sig_sync_main k)) =
    [Sig (Sigprocmask SIG_BLOCK (Some {SYNC_SIG})), Sig (Sigaction SYNC_SIG ''handler'' SA_RESTART {}), Proc Fork]"
  using assms by (simp add: fork_sig_sync_main_def)

lemma envargs_lists_everything:
  "emitted Stdout (trace K (envargs_main argv environ) k) =
     concat (map (\<lambda>(j, a). ''argv['' @ show_nat j @ ''] = '' @ a @ [NL]) (enumerate 0 argv)) @
     concat (map (\<lambda>e. ''environ: '' @ e @ [NL]) environ)"
proof -
  have env: "emitted Stdout (trace K (envargs_env es (exit 0)) k) = concat (map (\<lambda>e. ''environ: '' @ e @ [NL]) es)" for es
    by (induction es) simp_all
  have "emitted Stdout (trace K (envargs_args j as p) k) =
      concat (map (\<lambda>(j, a). ''argv['' @ show_nat j @ ''] = '' @ a @ [NL]) (enumerate j as)) @
      emitted Stdout (trace K p k)" for j as p
    by (induction as arbitrary: j) simp_all
  with env show ?thesis by (simp add: envargs_main_def)
qed

text \<open>The zombie demonstration never truncates its command for a program name of up to 189 bytes.\<close>

lemma zombie_cmd_fits: "length (basename a) < 190 \<Longrightarrow> snprintf CMD_SIZE (''ps | grep '' @ basename a) = ''ps | grep '' @ basename a"
  by (simp add: CMD_SIZE_def)

lemma execve_arg0_is_not_basename: "execve_arg0 ''/bin/ls'' = ''bin/ls'' \<and> basename ''/bin/ls'' = ''ls''"
  by (simp add: execve_arg0_def basename_def)

end
