(* ===== verification/Pipes.thy ===== *)
theory Pipes
  imports Fd_Table Wait_Status
begin

text \<open>
  The programs of src/pipes\_and\_fifo that use pipes: simple\_pipe.c, pipe\_sync.c, pipe\_ls\_wc.c
  and popen\_glob.c. A process is followed through fork by the value the kernel answers. Where the
  code goes on after a failed \<open>pipe()\<close>, the descriptors are whatever the array held (\<open>junk\<close>).
\<close>

section \<open>simple\_pipe.c\<close>

definition PIPE_BUF_SIZE :: int where "PIPE_BUF_SIZE = 10"

text \<open>\<open>if (cond) perror(msg);\<close>\<close>

definition perror_if :: "bool \<Rightarrow> string \<Rightarrow> prog \<Rightarrow> prog" where
  "perror_if b msg p = (if b then perror msg p else p)"

lemma perror_if_simps [simp]: "perror_if True msg p = perror msg p" "perror_if False msg p = p"
  by (simp_all add: perror_if_def)

text \<open>
  The child's loop. After a failed read, \<open>write\<close> is called with a count of -1, which is SIZE_MAX,
  on an array of BUF_SIZE bytes.
\<close>

fun pipe_read_loop :: "nat \<Rightarrow> int \<Rightarrow> prog \<Rightarrow> prog" where
  "pipe_read_loop 0 fd finish = Halt Unfinished"
| "pipe_read_loop (Suc n) fd finish =
     Call (Io (Read fd PIPE_BUF_SIZE)) (\<lambda>r.
     perror_if (rv r = -1) ''read''
       (if rv r = 0 then finish
        else if rv r < 0 then Halt Undefined
        else Call (Io (Write 1 (bytes r))) (\<lambda>w.
          perror_if (rv w \<noteq> rv r) ''child - partial/failed write'' (pipe_read_loop n fd finish))))"

definition simple_pipe_child :: "nat \<Rightarrow> int \<Rightarrow> int \<Rightarrow> prog" where
  "simple_pipe_child fuel fd0 fd1 =
     Call (Io (Close fd1)) (\<lambda>c.
     perror_if (rv c = -1) ''close - child'' (
     pipe_read_loop fuel fd0 (
     Call (Io (Write 1 [NL])) (\<lambda>_.
     Call (Io (Close fd0)) (\<lambda>c.
     perror_if (rv c = -1) ''close'' (exit EXIT_SUCCESS))))))"

definition simple_pipe_parent :: "string \<Rightarrow> int \<Rightarrow> int \<Rightarrow> prog" where
  "simple_pipe_parent msg fd0 fd1 =
     Call (Io (Close fd0)) (\<lambda>c.
     perror_if (rv c = -1) ''close - parent'' (
     Call (Io (Write fd1 msg)) (\<lambda>w.
     perror_if (rv w \<noteq> int (length msg)) ''parent - partial/failed write'' (
     Call (Io (Close fd1)) (\<lambda>c.
     perror_if (rv c = -1) ''close'' (
     Call (Proc Wait) (\<lambda>_. exit EXIT_SUCCESS)))))))"

text \<open>There is no break after \<open>case -1\<close>.\<close>

definition simple_pipe_main :: "nat \<Rightarrow> int \<times> int \<Rightarrow> string list \<Rightarrow> prog" where
  "simple_pipe_main fuel junk argv =
     (if length argv \<noteq> 2 \<or> argv ! 1 = ''--help'' then printf (argv ! 0 @ '' string\<newline>'') (exit EXIT_FAILURE)
      else Call (Io Pipe) (\<lambda>p.
        let (fd0, fd1) = (if rv p = -1 then junk else (ints p ! 0, ints p ! 1)) in
        perror_if (rv p = -1) ''pipe creation'' (
        Call (Proc Fork) (\<lambda>f.
        if rv f = -1 then perror ''fork'' (simple_pipe_child fuel fd0 fd1)
        else if rv f = 0 then simple_pipe_child fuel fd0 fd1
        else simple_pipe_parent (argv ! 1) fd0 fd1))))"

section \<open>pipe\_sync.c\<close>

text \<open>\<open>printf("%d:%d ...", tv.tv_sec, tv.tv_usec, ...)\<close> with the time gettimeofday stored.\<close>

definition time_text :: "ret \<Rightarrow> string" where
  "time_text t = show_int (to_int (ints t ! 0)) @ '':'' @ show_int (to_int (ints t ! 1))"

definition pipe_sync_child :: "nat \<Rightarrow> string \<Rightarrow> int \<Rightarrow> int \<Rightarrow> prog" where
  "pipe_sync_child j arg fd0 fd1 =
     Call (Io (Close fd0)) (\<lambda>c.
     if rv c = -1 then perror ''child read close'' (exit EXIT_FAILURE)
     else Call (Proc (Sleep (atoi arg))) (\<lambda>_.
     Call (Tm Gettimeofday) (\<lambda>t.
     Call (Proc Getpid) (\<lambda>p.
     printf (time_text t @ '' child '' @ show_nat j @ '' pid ('' @ show_int (rv p) @ '') closing\<newline>'') (
     Call (Io (Close fd1)) (\<lambda>c.
     if rv c = -1 then perror ''child - pipe close for write'' (exit EXIT_FAILURE)
     else exit_now EXIT_SUCCESS))))))"

fun pipe_sync_fork :: "nat \<Rightarrow> string list \<Rightarrow> int \<Rightarrow> int \<Rightarrow> prog \<Rightarrow> prog" where
  "pipe_sync_fork j [] fd0 fd1 finish = finish"
| "pipe_sync_fork j (arg # args) fd0 fd1 finish =
     Call (Proc Fork) (\<lambda>f.
     if rv f = -1 then perror ''fork error'' (pipe_sync_child j arg fd0 fd1)
     else if rv f = 0 then pipe_sync_child j arg fd0 fd1
     else pipe_sync_fork (Suc j) args fd0 fd1 finish)"

definition pipe_sync_parent :: "int \<Rightarrow> int \<Rightarrow> prog" where
  "pipe_sync_parent fd0 fd1 =
     Call (Io (Close fd1)) (\<lambda>c.
     if rv c = -1 then perror ''parent - pipe close for write'' (exit EXIT_FAILURE)
     else Call (Io (Read fd0 1)) (\<lambda>r.
     if rv r \<noteq> 0 then perror ''parent - not see EOF'' (exit EXIT_FAILURE)
     else Call (Tm Gettimeofday) (\<lambda>t.
     Call (Proc Getpid) (\<lambda>p.
     printf (time_text t @ '' Parent (pid '' @ show_int (rv p) @ '') ready to go \<newline>'') (exit EXIT_SUCCESS)))))"

definition pipe_sync_main :: "string list \<Rightarrow> prog" where
  "pipe_sync_main argv =
     (if length argv < 2 \<or> argv ! 1 = ''--help'' then perror ''wrong arguments'' (exit EXIT_FAILURE)
      else Call (Tm Gettimeofday) (\<lambda>t.
        printf (time_text t @ '' Parent started\<newline>'') (
        Call (Io Pipe) (\<lambda>p.
        if rv p = -1 then perror ''pipe error'' (exit EXIT_FAILURE)
        else pipe_sync_fork 1 (drop 1 argv) (ints p ! 0) (ints p ! 1)
               (pipe_sync_parent (ints p ! 0) (ints p ! 1))))))"

section \<open>pipe\_ls\_wc.c\<close>

text \<open>\<open>execlp\<close> only returns when it fails.\<close>

definition execlp :: "string \<Rightarrow> string list \<Rightarrow> prog \<Rightarrow> prog" where
  "execlp file args p = Call (Proc (Execlp file args)) (\<lambda>r. if rv r = -1 then p else Halt Replaced)"

definition ls_child :: "int \<Rightarrow> int \<Rightarrow> prog" where
  "ls_child fd0 fd1 =
     Call (Io (Close fd0)) (\<lambda>c.
     if rv c = -1 then perror ''close 1'' (exit EXIT_FAILURE)
     else
       let ls = execlp ''ls'' [''ls''] (perror ''execlp ls'' (exit EXIT_FAILURE)) in
       if fd1 \<noteq> 1 then
         Call (Io (Dup2 fd1 1)) (\<lambda>d.
         if rv d = -1 then perror ''dup2 1'' (exit EXIT_FAILURE)
         else Call (Io (Close fd1)) (\<lambda>c.
         if rv c = -1 then perror ''close 2'' (exit EXIT_FAILURE) else ls))
       else ls)"

definition wc_child :: "int \<Rightarrow> int \<Rightarrow> prog" where
  "wc_child fd0 fd1 =
     Call (Io (Close fd1)) (\<lambda>c.
     if rv c = -1 then perror ''close 3'' (exit EXIT_FAILURE)
     else
       let wc = execlp ''wc'' [''wc'', ''-l''] (perror ''execlp wc'' (exit EXIT_FAILURE)) in
       if fd0 \<noteq> 0 then
         Call (Io (Dup2 fd0 0)) (\<lambda>d.
         if rv d = -1 then perror ''dup2 2'' (exit EXIT_FAILURE)
         else Call (Io (Close fd0)) (\<lambda>c.
         if rv c = -1 then perror ''close 4'' (exit EXIT_FAILURE) else wc))
       else wc)"

definition ls_wc_parent :: "int \<Rightarrow> int \<Rightarrow> prog" where
  "ls_wc_parent fd0 fd1 =
     Call (Io (Close fd0)) (\<lambda>c.
     if rv c = -1 then perror ''close 5'' (exit EXIT_FAILURE)
     else Call (Io (Close fd1)) (\<lambda>c.
     if rv c = -1 then perror ''close 5'' (exit EXIT_FAILURE)
     else Call (Proc Wait) (\<lambda>w.
     if rv w = -1 then perror ''wait 1'' (exit EXIT_FAILURE)
     else Call (Proc Wait) (\<lambda>w.
     if rv w = -1 then perror ''wait 2'' (exit EXIT_FAILURE)
     else exit EXIT_SUCCESS))))"

definition pipe_ls_wc_main :: prog where
  "pipe_ls_wc_main =
     Call (Io Pipe) (\<lambda>p.
     if rv p = -1 then perror ''pipe open'' (exit EXIT_FAILURE)
     else let fd0 = ints p ! 0; fd1 = ints p ! 1 in
     Call (Proc Fork) (\<lambda>f.
     if rv f = -1 then perror ''fork'' (exit EXIT_FAILURE)
     else if rv f = 0 then ls_child fd0 fd1
     else Call (Proc Fork) (\<lambda>f.
     if rv f = -1 then perror ''fork'' (exit EXIT_FAILURE)
     else if rv f = 0 then wc_child fd0 fd1
     else ls_wc_parent fd0 fd1)))"

section \<open>popen\_glob.c\<close>

definition PAT_SIZE :: int where "PAT_SIZE = 50"
definition PATH_MAX :: int where "PATH_MAX = 4096"

definition popen_fmt :: "string \<Rightarrow> string" where
  "popen_fmt pat = ''/bin/ls -d '' @ pat @ '' 2> /dev/null''"

text \<open>\<open>sizeof(POPEN_FMT) + PAT_SIZE\<close>, with the two bytes of \<open>%s\<close> and the NUL.\<close>

definition PCMD_BUF_SIZE :: nat where "PCMD_BUF_SIZE = length (popen_fmt ''%s'') + 1 + nat PAT_SIZE"

definition glob_char :: "char \<Rightarrow> bool" where
  "glob_char c = (isalnum c \<or> strchr_found ''_*?[^-].'' c)"

text \<open>The bytes \<open>pat[0..len)\<close> after a trailing newline was overwritten with NUL.\<close>

definition strip_newline :: "string \<Rightarrow> string" where
  "strip_newline pat = (if last pat = NL then butlast pat @ [NUL] else pat)"

fun popen_read_loop :: "nat \<Rightarrow> int \<Rightarrow> int \<Rightarrow> (int \<Rightarrow> prog) \<Rightarrow> prog" where
  "popen_read_loop 0 fp fileCnt finish = Halt Unfinished"
| "popen_read_loop (Suc n) fp fileCnt finish =
     Call (Proc (Fgets fp PATH_MAX)) (\<lambda>r.
     if rv r = 0 then finish fileCnt
     else printf (cstr (bytes r)) (popen_read_loop n fp (fileCnt + 1) finish))"

definition popen_report :: "(int \<Rightarrow> string) \<Rightarrow> int \<Rightarrow> prog \<Rightarrow> prog" where
  "popen_report strsignal fileCnt next =
     Call (Proc Pclose) (\<lambda>c.
     printf (TAB # show_int fileCnt @ '' matching file'' @ (if fileCnt \<noteq> 1 then ''s'' else []) @ [NL]) (
     printf (TAB # ''pclose() status = '' @
             (if rv c = 0 then ''0'' else ''0x'' @ show_hex (nat (to_uint (rv c)))) @ [NL]) (
     if rv c \<noteq> 1 then printWaitStatus strsignal (Some [TAB]) (rv c) next else next)))"

fun popen_glob_loop :: "(int \<Rightarrow> string) \<Rightarrow> nat \<Rightarrow> nat \<Rightarrow> prog" where
  "popen_glob_loop strsignal rl 0 = Halt Unfinished"
| "popen_glob_loop strsignal rl (Suc n) =
     printf ''pattern: '' (fflush_stdout (
     Call (Proc (Fgets 0 PAT_SIZE)) (\<lambda>r.
     if rv r = 0 then exit EXIT_SUCCESS
     else let pat = cstr (bytes r) in
     if length pat \<le> 1 then popen_glob_loop strsignal rl n
     else let pat = strip_newline pat in
     case find (\<lambda>c. \<not> glob_char c) pat of
       Some c \<Rightarrow> printf (''Bad pattern character: '' @ [c] @ [NL]) (popen_glob_loop strsignal rl n)
     | None \<Rightarrow>
         let popenCmd = snprintf PCMD_BUF_SIZE (popen_fmt (cstr pat)) in
         Call (Proc (Popen popenCmd)) (\<lambda>fp.
         if rv fp = 0 then printf ''popen() failed\<newline>'' (popen_glob_loop strsignal rl n)
         else popen_read_loop rl (rv fp) 0 (\<lambda>fileCnt.
           popen_report strsignal fileCnt (popen_glob_loop strsignal rl n))))))"

definition popen_glob_main :: "(int \<Rightarrow> string) \<Rightarrow> nat \<Rightarrow> nat \<Rightarrow> prog" where
  "popen_glob_main strsignal rl n = popen_glob_loop strsignal rl n"

section \<open>Properties of pipe\_ls\_wc.c\<close>

context fd_table
begin

lemma close_open: "files k fd \<noteq> None \<Longrightarrow> rv (fst (K k (Io (Close fd)))) = 0"
  using close_slot [of k fd] by (metis prod.collapse)

lemma dup2_files: "files k a = Some f \<Longrightarrow> 0 \<le> b \<Longrightarrow> files (snd (K k (Io (Dup2 a b)))) = (files k)(b := Some f)"
  and dup2_rv: "files k a = Some f \<Longrightarrow> 0 \<le> b \<Longrightarrow> rv (fst (K k (Io (Dup2 a b)))) = b"
  using dup2_slot [of k a b] by (metis prod.collapse)+

lemma ls_child_wired:
  assumes "files k fd0 = Some r" "files k fd1 = Some w" "fd0 \<noteq> fd1"
  shows "\<exists>k'. files k' = (files k)(fd0 := None, fd1 := None, 1 := Some w) \<and>
    reaches K (ls_child fd0 fd1) k (execlp ''ls'' [''ls''] (perror ''execlp ls'' (exit EXIT_FAILURE))) k'"
proof -
  let ?k1 = "snd (K k (Io (Close fd0)))"
  let ?k2 = "snd (K ?k1 (Io (Dup2 fd1 1)))"
  let ?k3 = "snd (K ?k2 (Io (Close fd1)))"
  have 0: "rv (fst (K k (Io (Close fd0)))) = 0" using close_open assms by simp
  have 1: "files ?k1 fd1 = Some w" using assms by simp
  show ?thesis
  proof (cases "fd1 = 1")
    case True
    with 0 assms show ?thesis
      by (intro exI [of _ ?k1]) (auto simp: ls_child_def Let_def intro!: reaches_Call)
  next
    case False
    have 2: "files ?k2 = (files k)(fd0 := None, 1 := Some w)" "rv (fst (K ?k1 (Io (Dup2 fd1 1)))) = 1"
      using dup2_files [OF 1, of 1] dup2_rv [OF 1, of 1] by simp_all
    then have 3: "rv (fst (K ?k2 (Io (Close fd1)))) = 0" using close_open [of ?k2 fd1] assms False by simp
    from 0 2 3 False show ?thesis
      by (intro exI [of _ ?k3]) (auto simp: ls_child_def Let_def intro!: reaches_Call)
  qed
qed

lemma wc_child_wired:
  assumes "files k fd0 = Some r" "files k fd1 = Some w" "fd0 \<noteq> fd1"
  shows "\<exists>k'. files k' = (files k)(fd1 := None, fd0 := None, 0 := Some r) \<and>
    reaches K (wc_child fd0 fd1) k (execlp ''wc'' [''wc'', ''-l''] (perror ''execlp wc'' (exit EXIT_FAILURE))) k'"
proof -
  let ?k1 = "snd (K k (Io (Close fd1)))"
  let ?k2 = "snd (K ?k1 (Io (Dup2 fd0 0)))"
  let ?k3 = "snd (K ?k2 (Io (Close fd0)))"
  have 0: "rv (fst (K k (Io (Close fd1)))) = 0" using close_open assms by simp
  have 1: "files ?k1 fd0 = Some r" using assms by simp
  show ?thesis
  proof (cases "fd0 = 0")
    case True
    with 0 assms show ?thesis
      by (intro exI [of _ ?k1]) (auto simp: wc_child_def Let_def intro!: reaches_Call)
  next
    case False
    have 2: "files ?k2 = (files k)(fd1 := None, 0 := Some r)" "rv (fst (K ?k1 (Io (Dup2 fd0 0)))) = 0"
      using dup2_files [OF 1, of 0] dup2_rv [OF 1, of 0] by simp_all
    then have 3: "rv (fst (K ?k2 (Io (Close fd0)))) = 0" using close_open [of ?k2 fd0] assms False by simp
    from 0 2 3 False show ?thesis
      by (intro exI [of _ ?k3]) (auto simp: wc_child_def Let_def intro!: reaches_Call)
  qed
qed

end

text \<open>
  (C22) Over any descriptor table, and wherever pipe() placed its two descriptors (standard input
  or output may have been closed before), the first child reaches the exec of ls with standard
  output on the write end and no other descriptor of the pipe open, and the second child reaches
  the exec of wc with standard input on the read end and no other descriptor of the pipe open:
  every other descriptor is untouched. Only so does wc see end-of-file when ls is done.
\<close>

theorem pipe_ls_wc_wiring:
  assumes "fd_table K files" and "K k (Io Pipe) = (p, k1)"
  shows "\<exists>fd0 fd1 kl kw. ints p = [fd0, fd1] \<and> files k fd0 = None \<and> files k fd1 = None \<and>
    reaches K (ls_child fd0 fd1) k1 (execlp ''ls'' [''ls''] (perror ''execlp ls'' (exit EXIT_FAILURE))) kl \<and>
    files kl = (files k)(1 := Some ''pipe-write'') \<and>
    reaches K (wc_child fd0 fd1) k1 (execlp ''wc'' [''wc'', ''-l''] (perror ''execlp wc'' (exit EXIT_FAILURE))) kw \<and>
    files kw = (files k)(0 := Some ''pipe-read'')"
proof -
  from fd_table.pipe_slots [OF assms] obtain a b where ab: "ints p = [a, b]" "a \<noteq> b"
    "files k a = None" "files k b = None"
    "files k1 = (files k)(a := Some ''pipe-read'', b := Some ''pipe-write'')" by blast
  then have f: "files k1 a = Some ''pipe-read''" "files k1 b = Some ''pipe-write''" by simp_all
  from fd_table.ls_child_wired [OF assms(1) f ab(2)] obtain kl where
    l: "files kl = (files k1)(a := None, b := None, 1 := Some ''pipe-write'')"
      "reaches K (ls_child a b) k1 (execlp ''ls'' [''ls''] (perror ''execlp ls'' (exit EXIT_FAILURE))) kl" by blast
  from fd_table.wc_child_wired [OF assms(1) f ab(2)] obtain kw where
    w: "files kw = (files k1)(b := None, a := None, 0 := Some ''pipe-read'')"
      "reaches K (wc_child a b) k1 (execlp ''wc'' [''wc'', ''-l''] (perror ''execlp wc'' (exit EXIT_FAILURE))) kw" by blast
  have "files kl = (files k)(1 := Some ''pipe-write'')" "files kw = (files k)(0 := Some ''pipe-read'')"
    unfolding l(1) w(1) ab(5) using ab(3,4) by (auto simp: fun_eq_iff)
  with ab l w show ?thesis by blast
qed

lemma pipe_ls_wc_wiring_witness:
  "\<exists>kl. reaches (fd_K 8) (ls_child 3 4) \<lparr>slots = [Some ''tty'', Some ''tty'', Some ''tty'', Some ''pipe-read'', Some ''pipe-write'']\<rparr>
      (execlp ''ls'' [''ls''] (perror ''execlp ls'' (exit EXIT_FAILURE))) kl \<and>
    slot kl = [0 \<mapsto> ''tty'', 1 \<mapsto> ''pipe-write'', 2 \<mapsto> ''tty'']"
proof -
  let ?k = "\<lparr>slots = [Some ''tty'', Some ''tty'', Some ''tty'']\<rparr>"
  have p: "fd_K 8 ?k (Io Pipe) = ((ok 0)\<lparr>ints := [3, 4]\<rparr>,
      \<lparr>slots = [Some ''tty'', Some ''tty'', Some ''tty'', Some ''pipe-read'', Some ''pipe-write'']\<rparr>)"
    by (simp add: fd_K_def fd_io_def lowest_free_def set_slot_def Let_def)
  have s: "(slot ?k)(1 := Some ''pipe-write'') = [0 \<mapsto> ''tty'', 1 \<mapsto> ''pipe-write'', 2 \<mapsto> ''tty'']"
    by (auto simp: fun_eq_iff slot_def nth_Cons' split: if_splits)
  from pipe_ls_wc_wiring [OF fds.fd_table_axioms p] show ?thesis by (auto simp: s)
qed

section \<open>Properties of popen\_glob.c\<close>

text \<open>The commands that may reach the shell.\<close>

definition glob_command :: "string \<Rightarrow> bool" where
  "glob_command cmd = (\<exists>pat. cmd = popen_fmt pat \<and> list_all (\<lambda>c. isalnum c \<or> c \<in> set ''_*?[^-].'') pat)"

abbreviation (input) only_glob :: "syscall \<Rightarrow> bool" where
  "only_glob \<equiv> \<lambda>c. case c of Proc (Popen cmd) \<Rightarrow> glob_command cmd | Proc (System cmd) \<Rightarrow> False | _ \<Rightarrow> True"

lemma popen_read_loop_only:
  "(\<And>i. calls_only only_glob (finish i)) \<Longrightarrow> calls_only only_glob (popen_read_loop n fp i finish)"
  by (induction n arbitrary: i) auto

lemma printWaitStatus_only: "calls_only Q (printWaitStatus s m st p) = calls_only Q p"
  by (simp add: printWaitStatus_def split: option.splits)

lemma popen_report_only: "calls_only only_glob p \<Longrightarrow> calls_only only_glob (popen_report s i p)"
  by (simp add: popen_report_def printWaitStatus_only)

text \<open>A checked pattern is complete in the command and holds only the characters allowed.\<close>

lemma checked_pattern_safe:
  assumes "length pat \<le> 49" and "no_nul pat" and "length pat > 1"
    and "find (\<lambda>c. \<not> glob_char c) (strip_newline pat) = None"
  shows "glob_command (snprintf PCMD_BUF_SIZE (popen_fmt (cstr (strip_newline pat))))"
proof -
  define p where "p = cstr (strip_newline pat)"
  have len: "length p \<le> 49"
    using length_cstr_le [of "strip_newline pat"] assms(1,3) by (auto simp: p_def strip_newline_def)
  have sub: "set p \<subseteq> set (strip_newline pat)" "no_nul p"
    unfolding p_def using set_takeWhileD by (fastforce simp: cstr_def, simp)
  have "glob_char c" if "c \<in> set p" for c
    using assms(4) sub that by (auto simp: find_None_iff)
  moreover have "c \<noteq> NUL" if "c \<in> set p" for c
    using sub(2) that by (auto simp: no_nul_def list_all_iff)
  ultimately have "list_all (\<lambda>c. isalnum c \<or> c \<in> set ''_*?[^-].'') p"
    by (auto simp: list_all_iff glob_char_def strchr_found_def)
  moreover have "snprintf PCMD_BUF_SIZE (popen_fmt p) = popen_fmt p"
    using len by (intro snprintf_fits) (simp add: PCMD_BUF_SIZE_def popen_fmt_def PAT_SIZE_def)
  ultimately show ?thesis unfolding glob_command_def p_def [symmetric] by auto
qed

lemma popen_glob_only: "calls_only only_glob (popen_glob_loop strsignal rl n)"
proof (induction n)
  case (Suc n)
  have "glob_command (snprintf PCMD_BUF_SIZE (popen_fmt (cstr (strip_newline (cstr b)))))"
    if "int (length b) \<le> 49" "\<not> length (cstr b) \<le> 1" "find (\<lambda>c. \<not> glob_char c) (strip_newline (cstr b)) = None" for b
    using checked_pattern_safe [of "cstr b"] length_cstr_le [of b] that by simp
  with Suc show ?case
    by (auto simp: Let_def PAT_SIZE_def popen_report_only split: option.splits intro!: popen_read_loop_only)
qed simp

text \<open>
  (C23) Only harmless commands reach the shell: whatever is typed, every command popen\_glob.c
  passes to popen is the complete text of its format with a pattern made of letters, digits and
  the listed globbing characters; no other command is run, and nothing is cut off by the buffer.
\<close>

theorem popen_glob_safe:
  assumes "posix K" and "Proc (Popen cmd) \<in> set (calls (trace K (popen_glob_main strsignal rl n) k))"
  shows "\<exists>pat. cmd = ''/bin/ls -d '' @ pat @ '' 2> /dev/null'' \<and>
    list_all (\<lambda>c. isalnum c \<or> c \<in> set ''_*?[^-].'') pat"
  using posix.calls_only_trace [OF assms(1) popen_glob_only assms(2) [unfolded popen_glob_main_def]]
  by (simp add: glob_command_def popen_fmt_def)

lemma popen_glob_safe_witness:
  "\<exists>pat. ''/bin/ls -d a* 2> /dev/null'' = ''/bin/ls -d '' @ pat @ '' 2> /dev/null'' \<and>
    list_all (\<lambda>c. isalnum c \<or> c \<in> set ''_*?[^-].'') pat"
proof (rule popen_glob_safe [OF checked.posix_axioms])
  have "map glob_char ''a*'' = [True, True]" "glob_char NUL" by code_simp+
  then show "Proc (Popen ''/bin/ls -d a* 2> /dev/null'') \<in>
      set (calls (trace (guarded script) (popen_glob_main (\<lambda>_. []) 1 1) [(got ''a*\<newline>''), ok 0]))"
    by (simp add: popen_glob_main_def guarded_def PAT_SIZE_def cstr_def strip_newline_def
          PCMD_BUF_SIZE_def popen_fmt_def Let_def)
qed

end
