(* ===== verification/Interleaving.thy ===== *)
theory Interleaving
  imports Pipes
begin

text \<open>
  Several processes at once. A kernel as in \<open>Syscalls\<close> follows one process; here a system holds all
  processes that a program forks, each with its own code and its own descriptors, a pipe they
  share, and what they have printed. One step of the system is one step of one of its processes,
  so that a statement about all reachable systems covers every scheduling. A read from the empty
  pipe waits as long as any process holds a write end. A write to the pipe is one step: that a
  write of more bytes than the pipe has room for is done piece by piece is not visible here.

  The theories \<open>Pipe_Sync\<close> and \<open>Simple_Pipe\<close> apply this to src/pipes\_and\_fifo/pipe\_sync.c and
  simple\_pipe.c, whose correctness rests on which process closes which end when.
\<close>

section \<open>Processes and systems\<close>

datatype pipe_end = Rd | Wr

type_synonym fd_map = "int \<Rightarrow> pipe_end option"

record process =
  pcode :: prog
  fds :: fd_map

record system =
  procs :: "process list"
  pipe :: string
  screen :: "(nat \<times> string) list"

text \<open>The calls that concern the pipe or other processes; all others may be answered in any way.\<close>

fun shared_call :: "fd_map \<Rightarrow> syscall \<Rightarrow> bool" where
  "shared_call m (Io Pipe) = True"
| "shared_call m (Io (Close fd)) = (m fd \<noteq> None)"
| "shared_call m (Io (Read fd n)) = (m fd \<noteq> None)"
| "shared_call m (Io (Write fd d)) = True"
| "shared_call m (Proc Fork) = True"
| "shared_call m (Proc Wait) = True"
| "shared_call m c = False"

text \<open>
  A step of a process with code \<open>p\<close> and descriptors \<open>m\<close>, on a pipe with content \<open>b\<close>: what it
  becomes, the new content, what it prints, and the process it creates. The descriptors 0, 1 and 2
  are open on the terminal, so that a new pipe gets others. \<open>rd\<close> and \<open>wr\<close> say whether
  any process holds a read or a write end, \<open>dead\<close> whether another process has ended. A write to a
  pipe without readers kills the process (SIGPIPE).
\<close>

inductive act :: "bool \<Rightarrow> bool \<Rightarrow> bool \<Rightarrow> prog \<Rightarrow> fd_map \<Rightarrow> string \<Rightarrow>
    prog \<Rightarrow> fd_map \<Rightarrow> string \<Rightarrow> string list \<Rightarrow> process list \<Rightarrow> bool"
  for rd wr dead where
  act_put: "act rd wr dead (Put q s p) m b p m b [s] []"
| act_exit: "act rd wr dead (Halt out) m b (Halt out) (\<lambda>_. None) b [] []"
| act_pipe: "rv r = 0 \<Longrightarrow> ints r = [x, y] \<Longrightarrow> 2 < x \<Longrightarrow> 2 < y \<Longrightarrow> x \<noteq> y \<Longrightarrow> m x = None \<Longrightarrow> m y = None \<Longrightarrow> \<not> rd \<Longrightarrow> \<not> wr \<Longrightarrow>
    act rd wr dead (Call (Io Pipe) f) m b (f r) (m(x \<mapsto> Rd, y \<mapsto> Wr)) [] [] []"
| act_no_pipe: "rv r = -1 \<Longrightarrow> act rd wr dead (Call (Io Pipe) f) m b (f r) m b [] []"
| act_fork: "0 < rv r \<Longrightarrow> rv r' = 0 \<Longrightarrow>
    act rd wr dead (Call (Proc Fork) f) m b (f r) m b [] [\<lparr>pcode = f r', fds = m\<rparr>]"
| act_no_fork: "rv r = -1 \<Longrightarrow> act rd wr dead (Call (Proc Fork) f) m b (f r) m b [] []"
| act_close: "m fd \<noteq> None \<Longrightarrow> rv r = 0 \<Longrightarrow> act rd wr dead (Call (Io (Close fd)) f) m b (f r) (m(fd := None)) b [] []"
| act_read: "m fd = Some Rd \<Longrightarrow> d \<noteq> [] \<Longrightarrow> int (length d) \<le> n \<Longrightarrow> rv r = int (length d) \<Longrightarrow> bytes r = d \<Longrightarrow>
    act rd wr dead (Call (Io (Read fd n)) f) m (d @ b) (f r) m b [] []"
| act_eof: "m fd = Some Rd \<Longrightarrow> \<not> wr \<Longrightarrow> rv r = 0 \<Longrightarrow> bytes r = [] \<Longrightarrow>
    act rd wr dead (Call (Io (Read fd n)) f) m [] (f r) m [] [] []"
| act_not_readable: "m fd = Some Wr \<Longrightarrow> rv r = -1 \<Longrightarrow> act rd wr dead (Call (Io (Read fd n)) f) m b (f r) m b [] []"
| act_write: "m fd = Some Wr \<Longrightarrow> rd \<Longrightarrow> rv r = int (length d) \<Longrightarrow>
    act rd wr dead (Call (Io (Write fd d)) f) m b (f r) m (b @ d) [] []"
| act_killed: "m fd = Some Wr \<Longrightarrow> \<not> rd \<Longrightarrow> act rd wr dead (Call (Io (Write fd d)) f) m b (Halt Aborted) m b [] []"
| act_not_writable: "m fd = Some Rd \<Longrightarrow> rv r = -1 \<Longrightarrow> act rd wr dead (Call (Io (Write fd d)) f) m b (f r) m b [] []"
| act_print: "m fd = None \<Longrightarrow> rv r = int (length d) \<Longrightarrow> act rd wr dead (Call (Io (Write fd d)) f) m b (f r) m b [d] []"
| act_wait: "dead \<Longrightarrow> act rd wr dead (Call (Proc Wait) f) m b (f r) m b [] []"
| act_other: "\<not> shared_call m c \<Longrightarrow> act rd wr dead (Call c f) m b (f r) m b [] []"

inductive_cases act_PutE: "act rd wr dead (Put q s p) m b p' m' b' t ks"
inductive_cases act_HaltE: "act rd wr dead (Halt out) m b p' m' b' t ks"
inductive_cases act_CallE: "act rd wr dead (Call c f) m b p' m' b' t ks"

inductive_cases act_ForkE: "act rd wr dead (Call (Proc Fork) f) m b p' m' b' t ks"
inductive_cases act_PipeE: "act rd wr dead (Call (Io Pipe) f) m b p' m' b' t ks"
inductive_cases act_CloseE: "act rd wr dead (Call (Io (Close fd)) f) m b p' m' b' t ks"
inductive_cases act_ReadE: "act rd wr dead (Call (Io (Read fd n)) f) m b p' m' b' t ks"
inductive_cases act_WriteE: "act rd wr dead (Call (Io (Write fd d)) f) m b p' m' b' t ks"
inductive_cases act_TmE: "act rd wr dead (Call (Tm c) f) m b p' m' b' t ks"
inductive_cases act_WaitE: "act rd wr dead (Call (Proc Wait) f) m b p' m' b' t ks"

definition holds :: "pipe_end \<Rightarrow> process list \<Rightarrow> bool" where
  "holds e ps = (\<exists>P\<in>set ps. \<exists>fd. fds P fd = Some e)"

definition ended :: "process \<Rightarrow> bool" where
  "ended P = (\<exists>out. pcode P = Halt out)"

definition other_ended :: "nat \<Rightarrow> process list \<Rightarrow> bool" where
  "other_ended i ps = (\<exists>j < length ps. j \<noteq> i \<and> ended (ps ! j))"

inductive step :: "system \<Rightarrow> system \<Rightarrow> bool" where
  step_proc: "i < length (procs S) \<Longrightarrow>
    act (holds Rd (procs S)) (holds Wr (procs S)) (other_ended i (procs S))
      (pcode (procs S ! i)) (fds (procs S ! i)) (pipe S) p m b t ks \<Longrightarrow>
    step S \<lparr>procs = (procs S)[i := \<lparr>pcode = p, fds = m\<rparr>] @ ks, pipe = b, screen = screen S @ map (Pair i) t\<rparr>"

inductive reachable :: "system \<Rightarrow> system \<Rightarrow> bool" for S0 where
  reachable_refl: "reachable S0 S0"
| reachable_step: "reachable S0 S \<Longrightarrow> step S S' \<Longrightarrow> reachable S0 S'"

text \<open>The start: one process without pipe descriptors.\<close>

definition boot :: "prog \<Rightarrow> system" where
  "boot p = \<lparr>procs = [\<lparr>pcode = p, fds = (\<lambda>_. None)\<rparr>], pipe = [], screen = []\<rparr>"

section \<open>The interfaces of an invariant and of progress\<close>

text \<open>
  An invariant of a system is given by what it says of the starts and of a single step of one
  process; what holds of all reachable systems follows once and for all.
\<close>

locale system_invariant =
  fixes start :: "system \<Rightarrow> bool" and I :: "system \<Rightarrow> bool"
  assumes I_start: "start S \<Longrightarrow> I S"
    and I_act: "I S \<Longrightarrow> i < length (procs S) \<Longrightarrow>
      act (holds Rd (procs S)) (holds Wr (procs S)) (other_ended i (procs S))
        (pcode (procs S ! i)) (fds (procs S ! i)) (pipe S) p m b t ks \<Longrightarrow>
      I \<lparr>procs = (procs S)[i := \<lparr>pcode = p, fds = m\<rparr>] @ ks, pipe = b, screen = screen S @ map (Pair i) t\<rparr>"
begin

lemma invariant: "reachable S0 S \<Longrightarrow> start S0 \<Longrightarrow> I S"
  by (induction rule: reachable.induct) (auto simp: I_start elim!: step.cases intro: I_act)

end

text \<open>
  A process is idle when it has ended and its descriptors are released. \<open>runs S0 n S\<close>: the system goes
  from \<open>S0\<close> to \<open>S\<close> and its processes make \<open>n\<close> steps on the way, not counting idle ones.
\<close>

definition idle :: "process \<Rightarrow> bool" where
  "idle P = (ended P \<and> fds P = (\<lambda>_. None))"

inductive runs :: "system \<Rightarrow> nat \<Rightarrow> system \<Rightarrow> bool" for S0 where
  runs_refl: "runs S0 0 S0"
| runs_step: "runs S0 n S \<Longrightarrow> i < length (procs S) \<Longrightarrow>
    act (holds Rd (procs S)) (holds Wr (procs S)) (other_ended i (procs S))
      (pcode (procs S ! i)) (fds (procs S ! i)) (pipe S) p m b t ks \<Longrightarrow>
    runs S0 (n + (if idle (procs S ! i) then 0 else 1))
      \<lparr>procs = (procs S)[i := \<lparr>pcode = p, fds = m\<rparr>] @ ks, pipe = b, screen = screen S @ map (Pair i) t\<rparr>"

lemma runs_reachable: "runs S0 n S \<Longrightarrow> reachable S0 S"
  by (induction rule: runs.induct) (auto intro: reachable.intros step_proc)

text \<open>
  A system makes progress when every step leaves less to do than there was; then no schedule goes
  on for ever.
\<close>

locale system_progress = system_invariant +
  fixes left :: "system \<Rightarrow> nat"
  assumes left_act: "I S \<Longrightarrow> i < length (procs S) \<Longrightarrow>
      act (holds Rd (procs S)) (holds Wr (procs S)) (other_ended i (procs S))
        (pcode (procs S ! i)) (fds (procs S ! i)) (pipe S) p m b t ks \<Longrightarrow>
      left \<lparr>procs = (procs S)[i := \<lparr>pcode = p, fds = m\<rparr>] @ ks, pipe = b, screen = screen S @ map (Pair i) t\<rparr> +
        (if idle (procs S ! i) then 0 else 1) \<le> left S"
begin

lemma bounded: "runs S0 n S \<Longrightarrow> start S0 \<Longrightarrow> n + left S \<le> left S0"
proof (induction rule: runs.induct)
  case runs_refl
  then show ?case by simp
next
  case (runs_step n S i p m b t ks)
  then show ?case
    using left_act [OF invariant [OF runs_reachable [OF runs_step(1)] runs_step.prems] runs_step(2,3)] by linarith
qed

end

text \<open>A process can move when it is not idle and one of its steps is possible.\<close>

definition can_move :: "system \<Rightarrow> nat \<Rightarrow> bool" where
  "can_move S i = (i < length (procs S) \<and> \<not> idle (procs S ! i) \<and>
     (\<exists>p m b t ks. act (holds Rd (procs S)) (holds Wr (procs S)) (other_ended i (procs S))
        (pcode (procs S ! i)) (fds (procs S ! i)) (pipe S) p m b t ks))"

definition enabled :: "bool \<Rightarrow> bool \<Rightarrow> bool \<Rightarrow> prog \<Rightarrow> fd_map \<Rightarrow> string \<Rightarrow> bool" where
  "enabled rd wr dead p m b = ((\<forall>oc. p \<noteq> Halt oc) \<and> (\<exists>p' m' b' t ks. act rd wr dead p m b p' m' b' t ks))"

lemma can_moveI:
  "i < length (procs S) \<Longrightarrow> procs S ! i = \<lparr>pcode = p, fds = m\<rparr> \<Longrightarrow>
   enabled (holds Rd (procs S)) (holds Wr (procs S)) (other_ended i (procs S)) p m (pipe S) \<Longrightarrow> can_move S i"
  by (simp add: can_move_def enabled_def idle_def ended_def)

lemma ended_moves: "i < length (procs S) \<Longrightarrow> ended (procs S ! i) \<Longrightarrow> \<not> idle (procs S ! i) \<Longrightarrow> can_move S i"
  unfolding can_move_def ended_def using act_exit by metis

lemma enabledI: "act rd wr dead (Call c f) m b p' m' b' t ks \<Longrightarrow> enabled rd wr dead (Call c f) m b"
  unfolding enabled_def by blast

lemma enabled_put: "enabled rd wr dead (Put q s p) m b"
  unfolding enabled_def using act_put by blast

lemma enabled_close: "m fd \<noteq> None \<Longrightarrow> enabled rd wr dead (Call (Io (Close fd)) f) m b"
  by (rule enabledI [OF act_close [where r = "ok 0"]]) simp_all

lemma enabled_write: "m fd = Some Wr \<Longrightarrow> enabled rd wr dead (Call (Io (Write fd d)) f) m b"
  using enabledI [OF act_write [where r = "ok (int (length d))"]] enabledI [OF act_killed] by (cases rd) simp_all

lemma enabled_print: "m fd = None \<Longrightarrow> enabled rd wr dead (Call (Io (Write fd d)) f) m b"
  by (rule enabledI [OF act_print [where r = "ok (int (length d))"]]) simp_all

lemma enabled_wait: "enabled rd wr True (Call (Proc Wait) f) m b"
  by (rule enabledI [OF act_wait [where r = "ok 0"]]) simp

lemma enabled_fork: "enabled rd wr dead (Call (Proc Fork) f) m b"
  by (rule enabledI [OF act_no_fork [where r = "fail EAGAIN"]]) simp

lemma enabled_read: "m fd = Some Rd \<Longrightarrow> b \<noteq> [] \<or> \<not> wr \<Longrightarrow> 0 < n \<Longrightarrow> enabled rd wr dead (Call (Io (Read fd n)) f) m b"
  using enabledI [OF act_eof [of m fd wr "ok 0"]] enabledI [OF act_read [where d = "[hd b]" and b = "tl b" and r = "got [hd b]"]]
  by (cases b) simp_all

section \<open>Code that leaves the pipe alone\<close>

text \<open>
  \<open>quiet p\<close>: whatever the answers, \<open>p\<close> neither forks nor creates a pipe, nor does it read, write or
  wait. Such code is never held up.
\<close>

fun harmless :: "syscall \<Rightarrow> bool" where
  "harmless (Io Pipe) = False"
| "harmless (Io (Read fd n)) = False"
| "harmless (Io (Write fd d)) = False"
| "harmless (Proc Fork) = False"
| "harmless (Proc Wait) = False"
| "harmless c = True"

primrec quiet :: "prog \<Rightarrow> bool" where
  "quiet (Halt out) = True"
| "quiet (Put q s p) = quiet p"
| "quiet (Call c f) = (harmless c \<and> (\<forall>r. quiet (f r)))"

lemma quiet_act:
  assumes "quiet p" and "act rd wr dead p m b p' m' b' t ks"
  shows "quiet p' \<and> ks = [] \<and> (b = [] \<longrightarrow> b' = []) \<and> (\<forall>fd. m' fd = m fd \<or> m' fd = None)"
  using assms(2,1) by (cases rule: act.cases) auto

text \<open>
  \<open>keeps M fd A p\<close>: as long as the descriptors in \<open>A\<close> are open, \<open>p\<close> is quiet and keeps \<open>fd\<close> open until
  it has printed a line that satisfies \<open>M\<close>.
\<close>

primrec keeps :: "(string \<Rightarrow> bool) \<Rightarrow> int \<Rightarrow> prog \<Rightarrow> int set \<Rightarrow> bool" where
  "keeps M fd (Halt out) = (\<lambda>A. False)"
| "keeps M fd (Put q s p) = (\<lambda>A. if M s then quiet p else keeps M fd p A)"
| "keeps M fd (Call c f) = (\<lambda>A. harmless c \<and>
     (case c of Io (Close x) \<Rightarrow> x \<noteq> fd \<and> x \<in> A \<and> (\<forall>r. rv r = 0 \<longrightarrow> keeps M fd (f r) (A - {x}))
      | _ \<Rightarrow> \<forall>r. keeps M fd (f r) A))"

lemma keeps_act:
  assumes "keeps M fd p A" and "\<forall>x\<in>A. m x \<noteq> None" and "act rd wr dead p m b p' m' b' t ks"
  shows "ks = [] \<and> (b = [] \<longrightarrow> b' = []) \<and>
    ((\<exists>s\<in>set t. M s) \<and> quiet p' \<or> m' fd = m fd \<and> (\<exists>A'. keeps M fd p' A' \<and> (\<forall>x\<in>A'. m' x \<noteq> None)))"
  using assms(3,1,2)
proof (cases rule: act.cases)
  case (act_put q s)
  then show ?thesis using assms by (auto split: if_splits)
next
  case (act_close x r f)
  then show ?thesis using assms by (auto intro!: exI [of _ "A - {x}"])
qed (auto split: syscall.splits io_call.splits)

lemma harmless_enabled: "harmless c \<Longrightarrow> enabled rd wr dead (Call c f) m b"
  using enabled_close [of m] enabledI [OF act_other [of m c rd wr dead f b "ok 0"]]
  by (cases "(m, c)" rule: shared_call.cases) (auto, metis not_Some_eq)

lemma quiet_enabled: "quiet p \<Longrightarrow> \<forall>oc. p \<noteq> Halt oc \<Longrightarrow> enabled rd wr dead p m b"
  by (cases p) (auto intro: enabled_put harmless_enabled)

lemma keeps_enabled: "keeps M fd p A \<Longrightarrow> enabled rd wr dead p m b"
  by (cases p) (auto intro: enabled_put harmless_enabled)

section \<open>Code without loops\<close>

text \<open>\<open>within p n\<close>: whatever the answers, \<open>p\<close> ends after at most \<open>n\<close> steps.\<close>

primrec within :: "prog \<Rightarrow> nat \<Rightarrow> bool" where
  "within (Halt out) = (\<lambda>n. True)"
| "within (Put q s p) = (\<lambda>n. 0 < n \<and> within p (n - 1))"
| "within (Call c f) = (\<lambda>n. 0 < n \<and> (\<forall>r. within (f r) (n - 1)))"

definition steps_left :: "prog \<Rightarrow> nat" where
  "steps_left p = (LEAST n. within p n)"

definition proc_left :: "process \<Rightarrow> nat" where
  "proc_left P = steps_left (pcode P) + (if idle P then 0 else 1)"

lemma steps_left_within: "within p n \<Longrightarrow> within p (steps_left p) \<and> steps_left p \<le> n"
  unfolding steps_left_def by (auto intro: LeastI Least_le)

lemma within_act:
  assumes "within p n" and "\<forall>oc. p \<noteq> Halt oc" and "act rd wr dead p m b p' m' b' t ks"
  shows "0 < n \<and> within p' (n - 1)"
  using assms(3,1,2) by (cases rule: act.cases) auto

lemma proc_left_act:
  assumes "within (pcode P) n" and "act rd wr dead (pcode P) (fds P) b p m b' t ks"
  shows "proc_left \<lparr>pcode = p, fds = m\<rparr> + (if idle P then 0 else 1) \<le> proc_left P \<and> (\<exists>n. within p n)"
proof (cases "ended P")
  case True
  then obtain oc where P: "pcode P = Halt oc" by (auto simp: ended_def)
  have "p = Halt oc \<and> m = (\<lambda>_. None)" using assms(2) [unfolded P] by (rule act_HaltE) auto
  then show ?thesis by (simp add: P proc_left_def idle_def ended_def steps_left_def Least_eq_0)
next
  case False
  then have "\<forall>oc. pcode P \<noteq> Halt oc" by (simp add: ended_def)
  from within_act [OF conjunct1 [OF steps_left_within [OF assms(1)]] this assms(2)] steps_left_within [of p]
  show ?thesis using False by (fastforce simp: proc_left_def idle_def)
qed

section \<open>Single steps\<close>

text \<open>Single steps of a process that is given by its position.\<close>

abbreviation sys :: "process list \<Rightarrow> string \<Rightarrow> (nat \<times> string) list \<Rightarrow> system" where
  "sys ps b sc \<equiv> \<lparr>procs = ps, pipe = b, screen = sc\<rparr>"

abbreviation proc :: "prog \<Rightarrow> fd_map \<Rightarrow> process" where
  "proc p m \<equiv> \<lparr>pcode = p, fds = m\<rparr>"

lemma go:
  assumes "reachable S0 (sys ps b sc)" and "i < length ps" and "ps ! i = proc p m"
    and "act (holds Rd ps) (holds Wr ps) (other_ended i ps) p m b p' m' b' t ks"
  shows "reachable S0 (sys (ps[i := proc p' m'] @ ks) b' (sc @ map (Pair i) t))"
  using reachable_step [OF assms(1) step_proc [of i "sys ps b sc" p' m' b' t ks]] assms(2-4) by simp

lemma go_call:
  "reachable S0 (sys ps b sc) \<Longrightarrow> i < length ps \<Longrightarrow> ps ! i = proc (Call c f) m \<Longrightarrow> \<not> shared_call m c \<Longrightarrow>
   reachable S0 (sys (ps[i := proc (f r) m]) b sc)"
  using go [OF _ _ _ act_other, of S0 ps b sc i c f m r] by simp

lemma go_put:
  "reachable S0 (sys ps b sc) \<Longrightarrow> i < length ps \<Longrightarrow> ps ! i = proc (Put q s p) m \<Longrightarrow>
   reachable S0 (sys (ps[i := proc p m]) b (sc @ [(i, s)]))"
  using go [OF _ _ _ act_put, of S0 ps b sc i q s p m] by simp

lemma go_close:
  "reachable S0 (sys ps b sc) \<Longrightarrow> i < length ps \<Longrightarrow> ps ! i = proc (Call (Io (Close fd)) f) m \<Longrightarrow> m fd \<noteq> None \<Longrightarrow> rv r = 0 \<Longrightarrow>
   reachable S0 (sys (ps[i := proc (f r) (m(fd := None))]) b sc)"
  using go [OF _ _ _ act_close, of S0 ps b sc i fd f m r] by (simp add: fun_upd_def)

end
