(* ===== verification/Pipe_Sync.thy ===== *)
theory Pipe_Sync
  imports Interleaving
begin

text \<open>
  src/pipes\_and\_fifo/pipe\_sync.c under every scheduling of the parent and its children: the parent
  goes on only after all children have announced that they are done, and every run comes to an end.
\<close>

section \<open>pipe\_sync.c: the parent waits for all children\<close>

text \<open>What the child number \<open>j\<close> prints before it closes its write end.\<close>

definition closing_line :: "nat \<Rightarrow> string \<Rightarrow> bool" where
  "closing_line j s = (\<exists>t p. s = time_text t @ '' child '' @ show_nat j @ '' pid ('' @ show_int p @ '') closing\<newline>'')"

definition announced :: "nat \<Rightarrow> (nat \<times> string) list \<Rightarrow> bool" where
  "announced j scr = (\<exists>s. (j, s) \<in> set scr \<and> closing_line j s)"

text \<open>Code that never ends by \<open>exit(EXIT_SUCCESS)\<close>.\<close>

primrec never0 :: "prog \<Rightarrow> bool" where
  "never0 (Halt out) = (out \<noteq> Exited 0)"
| "never0 (Put q s p) = never0 p"
| "never0 (Call c f) = (\<forall>r. never0 (f r))"

text \<open>The parent once its read has returned.\<close>

definition sync_ready :: "ret \<Rightarrow> prog" where
  "sync_ready r =
     (if rv r \<noteq> 0 then perror ''parent - not see EOF'' (exit EXIT_FAILURE)
      else Call (Tm Gettimeofday) (\<lambda>t.
     Call (Proc Getpid) (\<lambda>p.
     printf (time_text t @ '' Parent (pid '' @ show_int (rv p) @ '') ready to go \<newline>'') (exit EXIT_SUCCESS))))"

lemma pipe_sync_parent_eq:
  "pipe_sync_parent x y = Call (Io (Close y)) (\<lambda>c.
     if rv c = -1 then perror ''parent - pipe close for write'' (exit EXIT_FAILURE) else Call (Io (Read x 1)) sync_ready)"
  by (auto simp: pipe_sync_parent_def sync_ready_def fun_eq_iff)

definition child_ok :: "int \<Rightarrow> (nat \<times> string) list \<Rightarrow> nat \<Rightarrow> process \<Rightarrow> bool" where
  "child_ok y scr j P =
     ((\<exists>A. keeps (closing_line j) y (pcode P) A \<and> (\<forall>a\<in>A. fds P a \<noteq> None) \<and> fds P y = Some Wr) \<or>
      announced j scr \<and> quiet (pcode P))"

definition parent_ok :: "string list \<Rightarrow> int \<Rightarrow> int \<Rightarrow> nat \<Rightarrow> (nat \<times> string) list \<Rightarrow> process \<Rightarrow> bool" where
  "parent_ok args x y m scr P =
     (m \<le> length args \<and> pcode P = pipe_sync_fork (Suc m) (drop m args) x y (pipe_sync_parent x y) \<and>
        fds P = (\<lambda>_. None)(x \<mapsto> Rd, y \<mapsto> Wr) \<or>
      m = length args \<and> pcode P = Call (Io (Read x 1)) sync_ready \<and> fds P = (\<lambda>_. None)(x \<mapsto> Rd) \<or>
      (\<forall>j\<in>{1..length args}. announced j scr) \<and> quiet (pcode P) \<or>
      quiet (pcode P) \<and> never0 (pcode P))"

text \<open>The parent before it has its pipe.\<close>

definition sync_pipe :: "string list \<Rightarrow> ret \<Rightarrow> prog" where
  "sync_pipe args p =
     (if rv p = -1 then perror ''pipe error'' (exit EXIT_FAILURE)
      else pipe_sync_fork 1 args (ints p ! 0) (ints p ! 1) (pipe_sync_parent (ints p ! 0) (ints p ! 1)))"

definition starting :: "string \<Rightarrow> string list \<Rightarrow> process \<Rightarrow> bool" where
  "starting self args P =
     (fds P = (\<lambda>_. None) \<and>
      (pcode P = pipe_sync_main (self # args) \<or> (\<exists>q s. pcode P = Put q s (Call (Io Pipe) (sync_pipe args))) \<or>
       pcode P = Call (Io Pipe) (sync_pipe args)))"

definition sync_inv :: "string \<Rightarrow> string list \<Rightarrow> system \<Rightarrow> bool" where
  "sync_inv self args S =
     (pipe S = [] \<and>
      ((\<exists>P. procs S = [P] \<and> starting self args P) \<or>
       (\<exists>x y P cs. procs S = P # cs \<and> x \<noteq> y \<and> parent_ok args x y (length cs) (screen S) P \<and>
         (\<forall>j < length cs. child_ok y (screen S) (Suc j) (cs ! j)))))"

lemma announced_mono [intro]: "announced j scr \<Longrightarrow> announced j (scr @ new)"
  by (auto simp: announced_def)

lemma child_ok_mono: "child_ok y scr j P \<Longrightarrow> child_ok y (scr @ new) j P"
  by (auto simp: child_ok_def)

lemma parent_ok_mono: "parent_ok args x y m scr P \<Longrightarrow> parent_ok args x y m (scr @ new) P"
  by (auto simp: parent_ok_def)

lemma never0_act: "never0 p \<Longrightarrow> act rd wr dead p m b p' m' b' t ks \<Longrightarrow> never0 p'"
  by (auto elim: act.cases)

lemma pipe_sync_child_keeps: "x \<noteq> y \<Longrightarrow> keeps (closing_line j) y (pipe_sync_child j arg x y) {x}"
  by (auto simp: pipe_sync_child_def closing_line_def)

lemma pipe_sync_child_quiet [simp]: "quiet (pipe_sync_child j arg x y)" "never0 (pipe_sync_child j arg x y)"
  by (auto simp: pipe_sync_child_def)

lemma pipe_sync_child_within: "within (pipe_sync_child j arg x y) 7"
  by (simp add: pipe_sync_child_def)

text \<open>A step of a child.\<close>

lemma child_ok_act:
  assumes "child_ok y scr j P" and "act rd wr dead (pcode P) (fds P) [] p m b t ks"
  shows "ks = [] \<and> b = [] \<and> child_ok y (scr @ map (Pair j) t) j \<lparr>pcode = p, fds = m\<rparr>"
  using assms(1) [unfolded child_ok_def]
proof (elim disjE exE conjE)
  fix A assume A: "keeps (closing_line j) y (pcode P) A" "\<forall>a\<in>A. fds P a \<noteq> None" "fds P y = Some Wr"
  from keeps_act [OF A(1,2) assms(2)] A(3) show ?thesis by (auto simp: child_ok_def announced_def)
next
  assume "announced j scr" "quiet (pcode P)"
  with quiet_act [OF this(2) assms(2)] show ?thesis by (auto simp: child_ok_def)
qed

text \<open>
  A step of the parent, whose children are \<open>cs\<close>: it forks the next child, or closes its write end,
  or sees the end of file, which can only be once every child has announced its end.
\<close>

lemma all_announced:
  assumes "\<not> holds Wr (P # cs)" and "\<forall>j < length cs. child_ok y scr (Suc j) (cs ! j)" and "length cs = n"
  shows "\<forall>j\<in>{1..n}. announced j scr"
proof
  fix j assume "j \<in> {1..n}"
  then have j: "j - 1 < length cs" "Suc (j - 1) = j" using assms(3) by auto
  then have "fds (cs ! (j - 1)) y \<noteq> Some Wr" using assms(1) by (auto simp: holds_def)
  then show "announced j scr" using assms(2) j by (fastforce simp: child_ok_def)
qed

lemma fork_act:
  assumes "length cs \<le> length args" and "pcode P = pipe_sync_fork (Suc (length cs)) (drop (length cs) args) x y (pipe_sync_parent x y)"
    and fds: "fds P = (\<lambda>_. None)(x \<mapsto> Rd, y \<mapsto> Wr)" and "x \<noteq> y" and "act rd wr dead (pcode P) (fds P) [] p m b t ks"
  shows "b = [] \<and> t = [] \<and> parent_ok args x y (length (cs @ ks)) scr \<lparr>pcode = p, fds = m\<rparr> \<and>
    (\<forall>K\<in>set ks. ks = [K] \<and> child_ok y scr (Suc (length cs)) K \<and> within (pcode K) 7 \<and> length cs < length args)"
proof (cases "drop (length cs) args")
  case Nil
  then have "length cs = length args" using assms(1) by simp
  moreover have "(\<lambda>_. None)(x \<mapsto> Rd, y := None) = (\<lambda>_. None)(x \<mapsto> Rd)" using assms(4) by auto
  ultimately show ?thesis using assms(5) unfolding assms(2) Nil pipe_sync_fork.simps pipe_sync_parent_eq
    by (auto elim!: act_CloseE simp: fds assms(4) parent_ok_def)
next
  case (Cons a as)
  then have less: "length cs < length args" by (metis drop_eq_Nil list.distinct(1) not_le)
  have rest: "as = drop (Suc (length cs)) args" using Cons by (metis list.sel(3) tl_drop drop_Suc)
  have kid: "child_ok y scr (Suc (length cs)) \<lparr>pcode = pipe_sync_child (Suc (length cs)) a x y, fds = fds P\<rparr>"
    using pipe_sync_child_keeps [OF assms(4)] assms(4) by (auto simp: child_ok_def fds)
  from assms(5) [unfolded assms(2) Cons pipe_sync_fork.simps] show ?thesis
    using kid less fds rest pipe_sync_child_within by (elim act_ForkE) (simp_all add: parent_ok_def)
qed

lemma parent_ok_act:
  assumes "parent_ok args x y (length cs) scr P" and "x \<noteq> y" and kids: "\<forall>j < length cs. child_ok y scr (Suc j) (cs ! j)"
    and act: "act rd (holds Wr (P # cs)) dead (pcode P) (fds P) [] p m b t ks"
  shows "b = [] \<and> parent_ok args x y (length (cs @ ks)) (scr @ map (Pair 0) t) \<lparr>pcode = p, fds = m\<rparr> \<and>
    (\<forall>j < length (cs @ ks). child_ok y (scr @ map (Pair 0) t) (Suc j) ((cs @ ks) ! j)) \<and>
    (ks = [] \<or> (\<exists>K. ks = [K] \<and> within (pcode K) 7 \<and> length cs < length args))"
  using assms(1) [unfolded parent_ok_def]
proof (elim disjE conjE)
  assume "length cs \<le> length args" "pcode P = pipe_sync_fork (Suc (length cs)) (drop (length cs) args) x y (pipe_sync_parent x y)"
    "fds P = (\<lambda>_. None)(x \<mapsto> Rd, y \<mapsto> Wr)"
  from fork_act [OF this assms(2) act, of scr] kids show ?thesis
    by (cases ks) (auto simp: nth_append less_Suc_eq)
next
  assume P: "length cs = length args" "pcode P = Call (Io (Read x 1)) sync_ready" "fds P = (\<lambda>_. None)(x \<mapsto> Rd)"
  have "quiet (sync_ready r)" for r by (simp add: sync_ready_def)
  with act P all_announced [of P cs y scr, OF _ kids P(1)] kids show ?thesis
    by (auto elim!: act_ReadE simp: parent_ok_def)
next
  assume "\<forall>j\<in>{1..length args}. announced j scr" "quiet (pcode P)"
  with quiet_act [OF this(2) act] kids show ?thesis by (auto simp: parent_ok_def intro: child_ok_mono)
next
  assume "quiet (pcode P)" "never0 (pcode P)"
  with quiet_act [OF this(1) act] never0_act [OF this(2) act] kids show ?thesis
    by (auto simp: parent_ok_def intro: child_ok_mono)
qed

lemma pipe_sync_main_eq:
  "pipe_sync_main (self # args) =
     (if args = [] \<or> hd args = ''--help'' then perror ''wrong arguments'' (exit EXIT_FAILURE)
      else Call (Tm Gettimeofday) (\<lambda>t. printf (time_text t @ '' Parent started\<newline>'') (Call (Io Pipe) (sync_pipe args))))"
  by (cases args) (auto simp: pipe_sync_main_def sync_pipe_def fun_eq_iff)

lemma pipe_sync_fork_within: "within (pipe_sync_fork j as x y (pipe_sync_parent x y)) (length as + 8)"
proof (induction as arbitrary: j)
  case Nil
  then show ?case by (simp add: pipe_sync_parent_eq sync_ready_def)
next
  case (Cons a as)
  have "within (pipe_sync_child j a x y) (length as + 7)" "within (pipe_sync_child j a x y) (length as + 8)"
    by (simp_all add: pipe_sync_child_def)
  then show ?case using Cons.IH by (simp add: add.commute)
qed

lemma pipe_sync_main_within: "within (pipe_sync_main (self # args)) (length args + 11)"
  using pipe_sync_fork_within [of 1 args] by (auto simp: pipe_sync_main_eq sync_pipe_def eval_nat_numeral)

lemma starting_act:
  assumes "starting self args P" and "act rd wr dead (pcode P) (fds P) [] p m b t ks"
  shows "ks = [] \<and> b = [] \<and> (starting self args \<lparr>pcode = p, fds = m\<rparr> \<or> (\<exists>x y. x \<noteq> y \<and> parent_ok args x y 0 scr \<lparr>pcode = p, fds = m\<rparr>))"
proof -
  have failed: "\<exists>x y. x \<noteq> y \<and> parent_ok args x y 0 scr \<lparr>pcode = p, fds = m\<rparr>" if "quiet p" "never0 p"
    using that by (intro exI [of _ 0] exI [of _ 1]) (simp add: parent_ok_def)
  consider (main) "pcode P = pipe_sync_main (self # args)" | (put) q s where "pcode P = Put q s (Call (Io Pipe) (sync_pipe args))"
    | (pipe) "pcode P = Call (Io Pipe) (sync_pipe args)"
    using assms(1) by (auto simp: starting_def)
  then show ?thesis
  proof cases
    case main
    note act = assms(2) [unfolded main pipe_sync_main_eq] and fds = assms(1) [unfolded starting_def, THEN conjunct1]
    show ?thesis
    proof (cases "args = [] \<or> hd args = ''--help''")
      case True
      then show ?thesis using act failed by (auto elim!: act_PutE)
    next
      case False
      then show ?thesis using act fds by (auto elim!: act_TmE simp: starting_def)
    qed
  next
    case put
    then show ?thesis using assms by (auto elim!: act_PutE simp: starting_def)
  next
    case pipe
    have forks: "parent_ok args x y 0 scr \<lparr>pcode = pipe_sync_fork 1 args x y (pipe_sync_parent x y), fds = (\<lambda>_. None)(x \<mapsto> Rd, y \<mapsto> Wr)\<rparr>"
      if "x \<noteq> y" for x y using that by (simp add: parent_ok_def)
    have "fds P = (\<lambda>_. None)" using assms(1) by (simp add: starting_def)
    from assms(2) [unfolded pipe this] show ?thesis
      by (rule act_PipeE) (use forks failed in \<open>fastforce simp: sync_pipe_def\<close>)+
  qed
qed

lemma sync_inv_running:
  "pipe S = [] \<Longrightarrow> procs S = P # cs \<Longrightarrow> x \<noteq> y \<Longrightarrow> parent_ok args x y (length cs) (screen S) P \<Longrightarrow>
   (\<And>j. j < length cs \<Longrightarrow> child_ok y (screen S) (Suc j) (cs ! j)) \<Longrightarrow> sync_inv self args S"
  unfolding sync_inv_def by blast

lemma sync_inv_act:
  assumes I: "sync_inv self args S" and i: "i < length (procs S)"
    and act: "act (holds Rd (procs S)) (holds Wr (procs S)) (other_ended i (procs S))
      (pcode (procs S ! i)) (fds (procs S ! i)) (pipe S) p m b t ks"
  shows "sync_inv self args \<lparr>procs = (procs S)[i := \<lparr>pcode = p, fds = m\<rparr>] @ ks, pipe = b, screen = screen S @ map (Pair i) t\<rparr> \<and>
    (ks = [] \<or> (\<exists>K. ks = [K] \<and> within (pcode K) 7 \<and> length (procs S) \<le> length args))"
proof -
  let ?S' = "\<lparr>procs = (procs S)[i := \<lparr>pcode = p, fds = m\<rparr>] @ ks, pipe = b, screen = screen S @ map (Pair i) t\<rparr>"
  have empty: "pipe S = []" using I by (simp add: sync_inv_def)
  consider (start) P where "procs S = [P]" "starting self args P"
    | (run) x y P cs where "procs S = P # cs" "x \<noteq> y" "parent_ok args x y (length cs) (screen S) P"
      "\<forall>j < length cs. child_ok y (screen S) (Suc j) (cs ! j)"
    using I by (auto simp: sync_inv_def)
  then show ?thesis
  proof cases
    case start
    then show ?thesis using i act starting_act [of self args P _ _ _ p m b t ks "screen ?S'"] empty
      by (fastforce simp: sync_inv_def)
  next
    case run
    show ?thesis
    proof (cases i)
      case 0
      from parent_ok_act [OF run(3,2,4), of "holds Rd (procs S)" "other_ended 0 (procs S)" p m b t ks] act
      show ?thesis using run(1,2) 0 empty
        by (intro conjI sync_inv_running [of _ "\<lparr>pcode = p, fds = m\<rparr>" "cs @ ks" x y]) auto
    next
      case (Suc j)
      then have j: "j < length cs" "procs S ! i = cs ! j" using i run(1) by auto
      from child_ok_act [OF run(4) [rule_format, OF j(1)]] act Suc j empty
      have "ks = [] \<and> b = [] \<and> child_ok y (screen ?S') (Suc j) \<lparr>pcode = p, fds = m\<rparr>" by simp
      then show ?thesis using run Suc j parent_ok_mono [OF run(3)] child_ok_mono
        by (intro conjI sync_inv_running [of _ P "cs[j := \<lparr>pcode = p, fds = m\<rparr>]" x y]) (auto simp: nth_list_update)
    qed
  qed
qed

text \<open>
  What is left to do: the steps of the processes there are, and for every child that may still be
  forked its seven steps and the release of its descriptors.
\<close>

definition sync_left :: "nat \<Rightarrow> process list \<Rightarrow> nat" where
  "sync_left k ps = sum_list (map proc_left ps) + 8 * (k + 1 - length ps)"

lemma sync_left_act:
  assumes "i < length ps" and "proc_left P + d \<le> proc_left (ps ! i)"
    and "ks = [] \<or> (\<exists>K. ks = [K] \<and> within (pcode K) 7 \<and> length ps \<le> k)"
  shows "sync_left k (ps[i := P] @ ks) + d \<le> sync_left k ps"
proof -
  have "proc_left (ps ! i) \<le> sum_list (map proc_left ps)"
    using assms(1) by (intro member_le_sum_list) auto
  moreover have "proc_left K \<le> 8" if "within (pcode K) 7" for K
    using steps_left_within [OF that] by (simp add: proc_left_def)
  moreover have "sum_list (map proc_left (ps[i := P])) + d \<le> sum_list (map proc_left ps)"
    using calculation(1) assms(1,2) by (simp add: map_update sum_list_update)
  ultimately show ?thesis
    using assms(3) by (elim disjE exE conjE) (fastforce simp: sync_left_def Suc_diff_le)+
qed

interpretation sync: system_progress "(=) (boot (pipe_sync_main (self # args)))"
  "\<lambda>S. sync_inv self args S \<and> (\<forall>P\<in>set (procs S). \<exists>n. within (pcode P) n)"
  "\<lambda>S. sync_left (length args) (procs S)" for self args
proof (unfold_locales, goal_cases)
  case (1 S)
  then show ?case using pipe_sync_main_within [of self args] by (auto simp: boot_def sync_inv_def starting_def)
next
  case (2 S i p m b t ks)
  then have "\<exists>n. within p n" using proc_left_act by (metis nth_mem)
  moreover have "\<forall>P\<in>set (procs S). \<exists>n. within (pcode P) n" using 2 by blast
  ultimately show ?case using sync_inv_act [of self args S i p m b t ks] 2 by (auto dest!: set_update_subset_insert [THEN subsetD])
next
  case (3 S i p m b t ks)
  then obtain n where "within (pcode (procs S ! i)) n" by (meson nth_mem)
  from sync_left_act [OF 3(2) conjunct1 [OF proc_left_act [OF this 3(3)]]] sync_inv_act [of self args S i p m b t ks] 3
  show ?case by simp
qed

text \<open>
  (C6) pipe\_sync.c is a barrier: in every system that pipe\_sync can reach, under any scheduling of
  the parent and its children and any answers of the system, the parent is about to print that it
  is ready to go, or has ended with exit status 0, only when each of its children, one for every
  argument, has already announced that it is done.
\<close>

theorem pipe_sync_barrier:
  assumes "reachable (boot (pipe_sync_main (self # args))) S"
    and "pcode (procs S ! 0) = exit 0 \<or> (\<exists>s. pcode (procs S ! 0) = Put Stdout s (exit 0))"
    and "j \<in> {1..length args}"
  shows "announced j (screen S)"
proof -
  have not_main: "\<not> starting self args (procs S ! 0)"
    using assms(2) by (auto simp: starting_def pipe_sync_main_eq split: if_splits)
  have "pipe_sync_fork k as x y (pipe_sync_parent x y) \<noteq> exit 0 \<and> pipe_sync_fork k as x y (pipe_sync_parent x y) \<noteq> Put Stdout s (exit 0)"
    for k as x y s by (cases as) (simp_all add: pipe_sync_parent_eq)
  then have "\<forall>j\<in>{1..length args}. announced j (screen S)"
    using conjunct1 [OF sync.invariant [OF assms(1) refl]] not_main assms(2) by (fastforce simp: sync_inv_def parent_ok_def)
  then show ?thesis using assms(3) by blast
qed

lemma pipe_sync_barrier_witness:
  "\<exists>S s. reachable (boot (pipe_sync_main [''pipe_sync'', ''0''])) S \<and> pcode (procs S ! 0) = Put Stdout s (exit 0) \<and>
    announced 1 (screen S)"
proof -
  define T where "T = (ok 0)\<lparr>ints := [0, 0]\<rparr>"
  define none :: fd_map where "none = (\<lambda>_. None)"
  have nz [simp]: "none z = None" for z by (simp add: none_def)
  define m :: fd_map where "m = none(3 \<mapsto> Rd, 4 \<mapsto> Wr)"
  have m [simp]: "m 3 = Some Rd" "m 4 = Some Wr" and T [simp]: "rv T = 0" "bytes T = []" by (simp_all add: m_def T_def)
  define gone where "gone = proc (exit_now 0) (m(3 := None, 4 := None))"
  define l where "l = time_text T @ '' child '' @ show_nat 1 @ '' pid ('' @ show_int (rv T) @ '') closing\<newline>''"
  let ?B = "boot (pipe_sync_main [''pipe_sync'', ''0''])"
  let ?parent = "proc (pipe_sync_parent 3 4) m"
  have s0: "reachable ?B (sys [proc (pipe_sync_main [''pipe_sync'', ''0'']) none] [] [])"
    using reachable_refl [of ?B] by (simp add: boot_def none_def)
  have s1: "reachable ?B (sys [proc (Call (Io Pipe) (sync_pipe [''0''])) none] [] [(0, time_text T @ '' Parent started\<newline>'')])"
    using go_put [OF go_call [OF s0, where i = 0 and r = T], where i = 0] by (simp add: pipe_sync_main_eq)
  let ?sc = "[(0, time_text T @ '' Parent started\<newline>'')]"
  have s2: "reachable ?B (sys [proc (pipe_sync_fork 1 [''0''] 3 4 (pipe_sync_parent 3 4)) m] [] ?sc)"
    using go [OF s1, where i = 0, OF _ _ act_pipe [of "(ok 0)\<lparr>ints := [3, 4]\<rparr>" 3 4]] by (simp add: holds_def sync_pipe_def m_def del: fun_upd_apply)
  have s3: "reachable ?B (sys [?parent, proc (pipe_sync_child 1 ''0'' 3 4) m] [] ?sc)"
    using go [OF s2, where i = 0, OF _ _ act_fork [of "ok 7" "ok 0"]] by simp
  have "reachable ?B (sys [?parent, proc (Call (Proc (Sleep (atoi ''0''))) (\<lambda>_. Call (Tm Gettimeofday) (\<lambda>t.
     Call (Proc Getpid) (\<lambda>p.
     printf (time_text t @ '' child '' @ show_nat 1 @ '' pid ('' @ show_int (rv p) @ '') closing\<newline>'') (
     Call (Io (Close 4)) (\<lambda>c.
     if rv c = -1 then perror ''child - pipe close for write'' (exit EXIT_FAILURE)
     else exit_now EXIT_SUCCESS)))))) (m(3 := None))] [] ?sc)"
    using go_close [OF s3, where i = 1 and r = T] by (simp add: pipe_sync_child_def)
  from go_call [OF go_call [OF go_call [OF this, where i = 1 and r = T], where i = 1 and r = T], where i = 1 and r = T]
  have "reachable ?B (sys [?parent, proc (printf l (Call (Io (Close 4)) (\<lambda>c.
     if rv c = -1 then perror ''child - pipe close for write'' (exit EXIT_FAILURE)
     else exit_now EXIT_SUCCESS))) (m(3 := None))] [] ?sc)" by (simp add: l_def)
  from go_close [OF go_put [OF this, where i = 1], where i = 1 and r = T]
  have s4: "reachable ?B (sys [?parent, gone] [] (?sc @ [(1, l)]))" by (simp add: gone_def)
  from go_close [OF s4, where i = 0 and r = T]
  have reach4: "reachable ?B (sys [proc (Call (Io (Read 3 1)) sync_ready) (m(4 := None)), gone] [] (?sc @ [(1, l)]))"
    by (simp add: pipe_sync_parent_eq)
  have wr: "m z \<noteq> Some Wr \<or> z = 4" for z by (auto simp: m_def)
  then have "\<forall>z. (if z = 4 then None else m z) \<noteq> Some Wr" "\<forall>z. (if z = 4 then None else (m(3 := None)) z) \<noteq> Some Wr"
    by auto
  with go [OF reach4, where i = 0, OF _ _ act_eof [of _ _ _ T]]
  have s5: "reachable ?B (sys [proc (sync_ready T) (m(4 := None)), gone] [] (?sc @ [(1, l)]))"
    by (simp add: gone_def holds_def)
  from go_call [OF go_call [OF this, where i = 0 and r = T], where i = 0 and r = T]
  have s6: "reachable ?B (sys [proc (printf (time_text T @ '' Parent (pid '' @ show_int (rv T) @ '') ready to go \<newline>'') (exit 0)) (m(4 := None)), gone] [] (?sc @ [(1, l)]))"
    by (simp add: sync_ready_def)
  show ?thesis using s6 pipe_sync_barrier [OF s6, of 1] by fastforce
qed

section \<open>Every run ends\<close>

lemma quiet_moves:
  "i < length (procs S) \<Longrightarrow> quiet (pcode (procs S ! i)) \<Longrightarrow> ended (procs S ! i) \<or> can_move S i"
  using can_moveI [of i S] quiet_enabled unfolding ended_def by (metis process.surjective unit.exhaust)

lemma child_moves:
  assumes "child_ok y scr j (procs S ! i)" and "i < length (procs S)"
  shows "idle (procs S ! i) \<or> can_move S i"
proof -
  have P: "procs S ! i = \<lparr>pcode = pcode (procs S ! i), fds = fds (procs S ! i)\<rparr>" by simp
  have "ended (procs S ! i) \<or> can_move S i"
    using assms(1) can_moveI [OF assms(2) P keeps_enabled] quiet_moves [OF assms(2)] by (auto simp: child_ok_def)
  then show ?thesis using ended_moves [OF assms(2)] by blast
qed

lemma fork_enabled:
  assumes "m y = Some Wr"
  shows "enabled rd wr dead (pipe_sync_fork j as x y (pipe_sync_parent x y)) m b"
  using assms by (cases as) (simp_all add: pipe_sync_parent_eq enabled_close enabled_fork)

lemma parent_moves:
  assumes "procs S = P # cs" and "pipe S = []" and "parent_ok args x y (length cs) (screen S) P" and "x \<noteq> y" and "\<forall>K\<in>set cs. idle K"
  shows "idle P \<or> can_move S 0"
proof -
  have P: "0 < length (procs S)" "procs S ! 0 = \<lparr>pcode = pcode P, fds = fds P\<rparr>" by (simp_all add: assms(1))
  have "\<not> holds Wr (procs S)" if "fds P = (\<lambda>_. None)(x \<mapsto> Rd)"
    using assms(5) that by (auto simp: assms(1) holds_def idle_def split: if_splits)
  then have "ended P \<or> can_move S 0"
    using assms(3) can_moveI [OF P] fork_enabled [of "fds P" y] enabled_read [of "fds P" x] quiet_moves [OF P(1)]
    by (auto simp: parent_ok_def P(2) assms(2,4) ended_def)
  then show ?thesis using ended_moves [OF P(1)] by (auto simp: assms(1))
qed

lemma sync_moves:
  assumes "sync_inv self args S"
  shows "(\<forall>P\<in>set (procs S). idle P) \<or> (\<exists>i. can_move S i)"
proof -
  have "pipe S = []" using assms by (simp add: sync_inv_def)
  consider (start) P where "procs S = [P]" "starting self args P"
    | (run) x y P cs where "procs S = P # cs" "x \<noteq> y" "parent_ok args x y (length cs) (screen S) P"
      "\<forall>j < length cs. child_ok y (screen S) (Suc j) (cs ! j)"
    using assms by (auto simp: sync_inv_def)
  then show ?thesis
  proof cases
    case start
    have "enabled rd wr dead (pcode P) (fds P) b" for rd wr dead b
      using start(2) by (auto simp: starting_def pipe_sync_main_eq
          intro!: enabled_put harmless_enabled enabledI [OF act_no_pipe [where r = "fail EMFILE"]])
    then show ?thesis using can_moveI [of 0 S "pcode P" "fds P"] start(1) by auto
  next
    case run
    show ?thesis
    proof (cases "\<forall>K\<in>set cs. idle K")
      case True
      from parent_moves [OF run(1) \<open>pipe S = []\<close> run(3,2) True] show ?thesis using True run(1) by auto
    next
      case False
      then obtain j where j: "j < length cs" "\<not> idle (cs ! j)" by (auto simp: in_set_conv_nth)
      then show ?thesis using child_moves [of y "screen S" "Suc j" S "Suc j"] run(1,4) by auto
    qed
  qed
qed

text \<open>
  (C7) pipe\_sync.c always comes to its end: with n arguments no schedule of the parent and its
  children makes more than 9 n + 12 steps, and as long as one of the processes has not ended (or
  its descriptors are not released) one of them can make a step. In particular the parent does not
  wait for ever at its read, because it closes its own write end first and every child closes its
  copy or ends.
\<close>

theorem pipe_sync_terminates:
  assumes "runs (boot (pipe_sync_main (self # args))) n S"
  shows "n \<le> 9 * length args + 12 \<and> ((\<forall>P\<in>set (procs S). idle P) \<or> (\<exists>i. can_move S i))"
proof
  have "sync_left (length args) (procs (boot (pipe_sync_main (self # args)))) \<le> 9 * length args + 12"
    using steps_left_within [OF pipe_sync_main_within [of self args]] by (simp add: sync_left_def boot_def proc_left_def)
  then show "n \<le> 9 * length args + 12" using sync.bounded [OF assms refl] by linarith
  show "(\<forall>P\<in>set (procs S). idle P) \<or> (\<exists>i. can_move S i)"
    using sync_moves sync.invariant [OF runs_reachable [OF assms] refl] by blast
qed

lemma pipe_sync_terminates_witness:
  "runs (boot (pipe_sync_main [''pipe_sync'', ''0''])) 0 (boot (pipe_sync_main [''pipe_sync'', ''0''])) \<and>
   (\<exists>i. can_move (boot (pipe_sync_main [''pipe_sync'', ''0''])) i)"
proof -
  let ?B = "boot (pipe_sync_main [''pipe_sync'', ''0''])"
  have "\<not> (\<forall>P\<in>set (procs ?B). idle P)" by (simp add: boot_def idle_def ended_def pipe_sync_main_eq)
  then show ?thesis using conjunct2 [OF pipe_sync_terminates [OF runs_refl [of ?B]]] runs_refl by blast
qed

end
