(* ===== verification/Simple_Pipe.thy ===== *)
theory Simple_Pipe
  imports Interleaving
begin

text \<open>
  src/pipes\_and\_fifo/simple\_pipe.c as two processes that run concurrently: the parent sends its
  argument through the pipe, the child copies what it reads to standard output. The invariant
  relates what was sent, what is in the pipe and what the child has written, in every scheduling,
  and a measure of what is left to do shows that every scheduling comes to an end.
\<close>

section \<open>The programs, cut at their calls\<close>

definition parent_wait :: prog where
  "parent_wait = Call (Proc Wait) (\<lambda>_. exit EXIT_SUCCESS)"

definition parent_close :: "int \<Rightarrow> prog" where
  "parent_close y = Call (Io (Close y)) (\<lambda>c. perror_if (rv c = -1) ''close'' parent_wait)"

definition parent_write :: "string \<Rightarrow> int \<Rightarrow> prog" where
  "parent_write msg y =
     Call (Io (Write y msg)) (\<lambda>w. perror_if (rv w \<noteq> int (length msg)) ''parent - partial/failed write'' (parent_close y))"

lemma simple_pipe_parent_eq:
  "simple_pipe_parent msg x y = Call (Io (Close x)) (\<lambda>c. perror_if (rv c = -1) ''close - parent'' (parent_write msg y))"
  by (simp add: simple_pipe_parent_def parent_write_def parent_close_def parent_wait_def)

definition child_close :: "int \<Rightarrow> prog" where
  "child_close x = Call (Io (Close x)) (\<lambda>c. perror_if (rv c = -1) ''close'' (exit EXIT_SUCCESS))"

definition child_newline :: "int \<Rightarrow> prog" where
  "child_newline x = Call (Io (Write 1 [NL])) (\<lambda>_. child_close x)"

lemma simple_pipe_child_eq:
  "simple_pipe_child fuel x y = Call (Io (Close y)) (\<lambda>c. perror_if (rv c = -1) ''close - child'' (pipe_read_loop fuel x (child_newline x)))"
  by (simp add: simple_pipe_child_def child_newline_def child_close_def)

text \<open>The copying of one block.\<close>

definition child_copy :: "nat \<Rightarrow> int \<Rightarrow> string \<Rightarrow> int \<Rightarrow> prog" where
  "child_copy n x d numRead = Call (Io (Write 1 d)) (\<lambda>w.
     perror_if (rv w \<noteq> numRead) ''child - partial/failed write'' (pipe_read_loop n x (child_newline x)))"

text \<open>main once it has its pipe.\<close>

definition simple_pipe_forks :: "nat \<Rightarrow> string \<Rightarrow> int \<Rightarrow> int \<Rightarrow> prog" where
  "simple_pipe_forks fuel msg x y =
     Call (Proc Fork) (\<lambda>f.
     if rv f = -1 then perror ''fork'' (simple_pipe_child fuel x y)
     else if rv f = 0 then simple_pipe_child fuel x y
     else simple_pipe_parent msg x y)"

lemma simple_pipe_main_eq:
  "msg \<noteq> ''--help'' \<Longrightarrow> simple_pipe_main fuel junk [self, msg] =
     Call (Io Pipe) (\<lambda>p. let (x, y) = (if rv p = -1 then junk else (ints p ! 0, ints p ! 1)) in
       perror_if (rv p = -1) ''pipe creation'' (simple_pipe_forks fuel msg x y))"
  by (simp add: simple_pipe_main_def simple_pipe_forks_def cong: if_cong)

section \<open>The invariant\<close>

definition ends :: "fd_map \<Rightarrow> int \<Rightarrow> int \<Rightarrow> pipe_end option \<Rightarrow> pipe_end option \<Rightarrow> bool" where
  "ends m x y a b = (m x = a \<and> m y = b \<and> (\<forall>z. z \<noteq> x \<and> z \<noteq> y \<longrightarrow> m z = None))"

text \<open>What the parent has put into the pipe, by whether it has written.\<close>

definition sent_data :: "bool \<Rightarrow> string \<Rightarrow> string" where
  "sent_data wrote msg = (if wrote then msg else [])"

definition sender_at :: "string \<Rightarrow> int \<Rightarrow> int \<Rightarrow> bool \<Rightarrow> prog \<Rightarrow> fd_map \<Rightarrow> bool" where
  "sender_at msg x y wrote p m =
     (\<not> wrote \<and> p = simple_pipe_parent msg x y \<and> ends m x y (Some Rd) (Some Wr) \<or>
      \<not> wrote \<and> p = parent_write msg y \<and> ends m x y None (Some Wr) \<or>
      wrote \<and> p = parent_close y \<and> ends m x y None (Some Wr) \<or>
      wrote \<and> (p = parent_wait \<or> p = exit 0) \<and> ends m x y None None)"

definition receiver_at :: "nat \<Rightarrow> string \<Rightarrow> int \<Rightarrow> int \<Rightarrow> bool \<Rightarrow> string \<Rightarrow> string \<Rightarrow> prog \<Rightarrow> fd_map \<Rightarrow> bool" where
  "receiver_at fuel msg x y wrote buf out p m =
     (out = [] \<and> buf = sent_data wrote msg \<and> p = simple_pipe_child fuel x y \<and> ends m x y (Some Rd) (Some Wr) \<or>
      (\<exists>n. fuel \<le> n + length out \<and> out @ buf = sent_data wrote msg \<and> p = pipe_read_loop n x (child_newline x) \<and> ends m x y (Some Rd) None) \<or>
      (\<exists>n d. d \<noteq> [] \<and> fuel \<le> n + length out + length d \<and> out @ d @ buf = sent_data wrote msg \<and> p = child_copy n x d (int (length d)) \<and>
        ends m x y (Some Rd) None) \<or>
      wrote \<and> buf = [] \<and> out = msg \<and> p = child_newline x \<and> ends m x y (Some Rd) None \<or>
      wrote \<and> buf = [] \<and> out = msg @ [NL] \<and> (p = child_close x \<and> ends m x y (Some Rd) None \<or> p = exit 0 \<and> ends m x y None None))"

lemma ends_close: "ends m x y a b \<Longrightarrow> x \<noteq> y \<Longrightarrow> ends (m(x := None)) x y None b" "ends m x y a b \<Longrightarrow> x \<noteq> y \<Longrightarrow> ends (m(y := None)) x y a None"
  by (auto simp: ends_def)

text \<open>What the two programs still have to do: an upper bound of the calls they will make.\<close>

fun sender_left :: "prog \<Rightarrow> fd_map \<Rightarrow> nat" where
  "sender_left (Call (Io (Close fd)) f) m = (if m fd = Some Rd then 4 else 2)"
| "sender_left (Call (Io (Write fd d)) f) m = 3"
| "sender_left (Call (Proc Wait) f) m = 1"
| "sender_left p m = 0"

fun receiver_left :: "nat \<Rightarrow> string \<Rightarrow> prog \<Rightarrow> fd_map \<Rightarrow> nat" where
  "receiver_left len out (Call (Io (Close fd)) f) m = (if m fd = Some Wr then 2 * len + 4 else 1)"
| "receiver_left len out (Call (Io (Read fd n)) f) m = 2 * (len - length out) + 3"
| "receiver_left len out (Call (Io (Write fd d)) f) m = 2 * (len - length out) + 2"
| "receiver_left len out p m = 0"

definition halted :: "prog \<Rightarrow> bool" where
  "halted p = (\<exists>oc. p = Halt oc)"

lemma halted_simps [simp]: "halted (Halt oc)" "\<not> halted (Put q s p)" "\<not> halted (Call c f)"
  by (simp_all add: halted_def)

lemma ended_halted: "ended P = halted (pcode P)"
  by (simp add: ended_def halted_def)

lemmas transfer_heads = simple_pipe_parent_eq parent_write_def parent_close_def parent_wait_def
  simple_pipe_child_eq child_copy_def child_newline_def child_close_def

lemma transfer_left_simps [simp]:
  "sender_left (simple_pipe_parent msg x y) m = (if m x = Some Rd then 4 else 2)" "sender_left (parent_write msg y) m = 3"
  "sender_left (parent_close y) m = (if m y = Some Rd then 4 else 2)" "sender_left parent_wait m = 1"
  "receiver_left len out (simple_pipe_child fuel x y) m = (if m y = Some Wr then 2 * len + 4 else 1)"
  "receiver_left len out (pipe_read_loop (Suc n) x (child_newline x)) m = 2 * (len - length out) + 3"
  "receiver_left len out (child_copy n x d k) m = 2 * (len - length out) + 2"
  "receiver_left len out (child_newline x) m = 2 * (len - length out) + 2"
  "receiver_left len out (child_close x) m = (if m x = Some Wr then 2 * len + 4 else 1)"
  by (simp_all add: transfer_heads)

lemma receiver_left_loop: "receiver_left len out (pipe_read_loop n x (child_newline x)) m \<le> 2 * (len - length out) + 3"
  by (cases n) simp_all

lemma halted_heads [simp]:
  "\<not> halted (simple_pipe_parent msg x y)" "\<not> halted (parent_write msg y)" "\<not> halted (parent_close y)" "\<not> halted parent_wait"
  "\<not> halted (simple_pipe_child fuel x y)" "\<not> halted (child_copy n x d k)" "\<not> halted (child_newline x)" "\<not> halted (child_close x)"
  "\<not> halted (pipe_read_loop (Suc n) x (child_newline x))"
  by (simp_all add: transfer_heads)

lemma ends_lookup: "ends m x y a b \<Longrightarrow> m x = a \<and> m y = b"
  by (simp add: ends_def)

lemma sender_act:
  assumes "sender_at msg x y wrote p m" and "x \<noteq> y" and "\<not> wrote \<Longrightarrow> rd"
    and act: "act rd wr dead p m buf p' m' buf' t ks"
  shows "ks = [] \<and> t = [] \<and> (sender_at msg x y wrote p' m' \<and> buf' = buf \<or> \<not> wrote \<and> sender_at msg x y True p' m' \<and> buf' = buf @ msg) \<and>
    sender_left p' m' + (if halted p then 0 else 1) \<le> sender_left p m"
  using assms(1) [unfolded sender_at_def]
proof (elim disjE conjE)
  assume P: "\<not> wrote" "p = simple_pipe_parent msg x y" "ends m x y (Some Rd) (Some Wr)"
  have "p' = parent_write msg y \<and> m' = m(x := None) \<and> buf' = buf \<and> t = [] \<and> ks = []"
    using act [unfolded P(2) simple_pipe_parent_eq] by (rule act_CloseE) (use P(3) in \<open>auto simp: ends_def\<close>)
  then show ?thesis using P(1,2) ends_close(1) [OF P(3) assms(2)] ends_lookup [OF P(3)] by (simp add: sender_at_def)
next
  assume P: "\<not> wrote" "p = parent_write msg y" "ends m x y None (Some Wr)"
  have "p' = parent_close y \<and> m' = m \<and> buf' = buf @ msg \<and> t = [] \<and> ks = []"
    using act [unfolded P(2) parent_write_def] by (rule act_WriteE) (use P(3) assms(3) [OF P(1)] in \<open>auto simp: ends_def\<close>)
  then show ?thesis using P ends_lookup [OF P(3)] by (simp add: sender_at_def)
next
  assume P: "wrote" "p = parent_close y" "ends m x y None (Some Wr)"
  have "p' = parent_wait \<and> m' = m(y := None) \<and> buf' = buf \<and> t = [] \<and> ks = []"
    using act [unfolded P(2) parent_close_def] by (rule act_CloseE) (use P(3) in \<open>auto simp: ends_def\<close>)
  then show ?thesis using P(1,2) ends_close(2) [OF P(3) assms(2)] ends_lookup [OF P(3)] by (simp add: sender_at_def)
next
  assume P: "wrote" "p = parent_wait" "ends m x y None None"
  have "p' = exit 0 \<and> m' = m \<and> buf' = buf \<and> t = [] \<and> ks = []"
    using act [unfolded P(2) parent_wait_def] by (rule act_WaitE) auto
  then show ?thesis using P ends_lookup [OF P(3)] by (simp add: sender_at_def)
next
  assume P: "wrote" "p = exit 0" "ends m x y None None"
  have "p' = exit 0 \<and> m' = (\<lambda>_. None) \<and> buf' = buf \<and> t = [] \<and> ks = []"
    using act [unfolded P(2)] by (rule act_HaltE) auto
  then show ?thesis using P(1,2) by (simp add: sender_at_def ends_def)
qed

lemma receiver_loop:
  "fuel \<le> n + length out \<Longrightarrow> out @ buf = sent_data wrote msg \<Longrightarrow> ends m x y (Some Rd) None \<Longrightarrow>
   receiver_at fuel msg x y wrote buf out (pipe_read_loop n x (child_newline x)) m"
  unfolding receiver_at_def by blast

lemma receiver_copy:
  "d \<noteq> [] \<Longrightarrow> fuel \<le> n + length out + length d \<Longrightarrow> out @ d @ buf = sent_data wrote msg \<Longrightarrow> ends m x y (Some Rd) None \<Longrightarrow>
   receiver_at fuel msg x y wrote buf out (child_copy n x d (int (length d))) m"
  unfolding receiver_at_def by blast

text \<open>The loop has fuel for another read as long as the child has not written the whole argument.\<close>

lemma loop_fuel:
  assumes "fuel \<le> n + length out" and "out @ buf = sent_data wrote msg" and "length msg < fuel"
  obtains k where "n = Suc k"
proof -
  have "length out \<le> length msg" using arg_cong [OF assms(2), of length] by (simp add: sent_data_def split: if_splits)
  then show ?thesis using assms(1,3) that by (cases n) auto
qed

lemma receiver_read:
  assumes "fuel \<le> n + length out" and "out @ buf = sent_data wrote msg" and "ends m x y (Some Rd) None" and "length msg < fuel"
    and "\<not> wr \<Longrightarrow> wrote" and act: "act rd wr dead (pipe_read_loop n x (child_newline x)) m buf p' m' buf' t ks"
  shows "ks = [] \<and> t = [] \<and> receiver_at fuel msg x y wrote buf' out p' m' \<and>
    receiver_left (length msg) out p' m' < receiver_left (length msg) out (pipe_read_loop n x (child_newline x)) m \<and>
    \<not> halted (pipe_read_loop n x (child_newline x))"
proof -
  obtain k where n: "n = Suc k" using loop_fuel [OF assms(1,2,4)] .
  have "ks = [] \<and> t = [] \<and> m' = m \<and>
    (p' = child_newline x \<and> buf = [] \<and> buf' = [] \<and> \<not> wr \<or> (\<exists>d. buf = d @ buf' \<and> d \<noteq> [] \<and> p' = child_copy k x d (int (length d))))"
    using act [unfolded n pipe_read_loop.simps]
    by (rule act_ReadE) (use assms(3) in \<open>auto simp: ends_def child_copy_def\<close>)
  then consider (eof) "p' = child_newline x" "buf = []" "buf' = []" "\<not> wr" "ks = []" "t = []" "m' = m"
    | (data) d where "buf = d @ buf'" "d \<noteq> []" "p' = child_copy k x d (int (length d))" "ks = []" "t = []" "m' = m" by blast
  then show ?thesis
  proof cases
    case eof
    then show ?thesis using assms(2,3,5) by (simp add: n receiver_at_def sent_data_def del: pipe_read_loop.simps)
  next
    case data
    have "0 < length d" using data(2) by simp
    then have "fuel \<le> k + length out + length d" using assms(1) n by linarith
    then show ?thesis using assms(2,3) data by (auto simp: n simp del: pipe_read_loop.simps intro: receiver_copy)
  qed
qed

lemma receiver_act:
  assumes "receiver_at fuel msg x y wrote buf out p m" and "x \<noteq> y" "2 < x" "2 < y" and "length msg < fuel"
    and "\<not> wr \<Longrightarrow> wrote" and act: "act rd wr dead p m buf p' m' buf' t ks"
  shows "ks = [] \<and> receiver_at fuel msg x y wrote buf' (out @ concat t) p' m' \<and>
    receiver_left (length msg) (out @ concat t) p' m' + (if halted p then 0 else 1) \<le> receiver_left (length msg) out p m"
  using assms(1) [unfolded receiver_at_def]
proof (elim disjE exE conjE)
  assume P: "out = []" "buf = sent_data wrote msg" "p = simple_pipe_child fuel x y" "ends m x y (Some Rd) (Some Wr)"
  have "p' = pipe_read_loop fuel x (child_newline x) \<and> m' = m(y := None) \<and> buf' = buf \<and> t = [] \<and> ks = []"
    using act [unfolded P(3) simple_pipe_child_eq] by (rule act_CloseE) (use P(4) in \<open>auto simp: ends_def\<close>)
  then show ?thesis using P(1-3) ends_close(2) [OF P(4) assms(2)] ends_lookup [OF P(4)]
      receiver_left_loop [of "length msg" "[]" fuel x "m(y := None)"] by (auto intro: receiver_loop)
next
  fix n assume P: "fuel \<le> n + length out" "out @ buf = sent_data wrote msg" "p = pipe_read_loop n x (child_newline x)" "ends m x y (Some Rd) None"
  from receiver_read [OF P(1,2,4) assms(5,6) act [unfolded P(3)]] show ?thesis by (simp add: P(3))
next
  fix n d assume P: "d \<noteq> []" "fuel \<le> n + length out + length d" "out @ d @ buf = sent_data wrote msg"
    "p = child_copy n x d (int (length d))" "ends m x y (Some Rd) None"
  have q: "p' = pipe_read_loop n x (child_newline x) \<and> m' = m \<and> buf' = buf \<and> t = [d] \<and> ks = []"
    using act [unfolded P(4) child_copy_def] by (rule act_WriteE) (use P(5) assms(3,4) in \<open>auto simp: ends_def\<close>)
  have "length out + length d \<le> length msg" "0 < length d"
    using arg_cong [OF P(3), of length] P(1) by (simp_all add: sent_data_def split: if_splits)
  then have "receiver_left (length msg) (out @ d) p' m' + 1 \<le> receiver_left (length msg) out p m"
    using receiver_left_loop [of "length msg" "out @ d" n x m]
    unfolding q [THEN conjunct1] q [THEN conjunct2, THEN conjunct1] P(4) transfer_left_simps length_append by linarith
  then show ?thesis using P q by (auto intro: receiver_loop)
next
  assume P: "wrote" "buf = []" "out = msg" "p = child_newline x" "ends m x y (Some Rd) None"
  have "p' = child_close x \<and> m' = m \<and> buf' = buf \<and> t = [[NL]] \<and> ks = []"
    using act [unfolded P(4) child_newline_def] by (rule act_WriteE) (use P(5) assms(3,4) in \<open>auto simp: ends_def\<close>)
  then show ?thesis using P ends_lookup [OF P(5)] by (auto simp: receiver_at_def)
next
  assume P: "wrote" "buf = []" "out = msg @ [NL]" "p = child_close x" "ends m x y (Some Rd) None"
  have "p' = exit 0 \<and> m' = m(x := None) \<and> buf' = buf \<and> t = [] \<and> ks = []"
    using act [unfolded P(4) child_close_def] by (rule act_CloseE) (use P(5) in \<open>auto simp: ends_def\<close>)
  then show ?thesis using P ends_close(1) [OF P(5) assms(2)] ends_lookup [OF P(5)] by (auto simp: receiver_at_def)
next
  assume P: "wrote" "buf = []" "out = msg @ [NL]" "p = exit 0" "ends m x y None None"
  have "p' = exit 0 \<and> m' = (\<lambda>_. None) \<and> buf' = buf \<and> t = [] \<and> ks = []"
    using act [unfolded P(4)] by (rule act_HaltE) auto
  then show ?thesis using P by (auto simp: receiver_at_def ends_def)
qed

text \<open>What a process has written to standard output.\<close>

definition out_of :: "nat \<Rightarrow> (nat \<times> string) list \<Rightarrow> string" where
  "out_of i scr = concat (map snd (filter (\<lambda>e. fst e = i) scr))"

lemma out_of_append [simp]:
  "out_of i [] = []" "out_of i (scr @ map (Pair j) t) = out_of i scr @ (if i = j then concat t else [])"
  by (simp_all add: out_of_def comp_def)

text \<open>
  The system is one process that is about to fork, or that has failed to fork and then runs the
  child's code itself, or the two processes.
\<close>

definition lone_at :: "nat \<Rightarrow> string \<Rightarrow> int \<Rightarrow> int \<Rightarrow> string \<Rightarrow> string \<Rightarrow> prog \<Rightarrow> fd_map \<Rightarrow> bool" where
  "lone_at fuel msg x y buf out p m =
     (p = simple_pipe_forks fuel msg x y \<and> ends m x y (Some Rd) (Some Wr) \<and> buf = [] \<and> out = [] \<or>
      p = perror ''fork'' (simple_pipe_child fuel x y) \<and> ends m x y (Some Rd) (Some Wr) \<and> buf = [] \<and> out = [] \<or>
      (\<exists>o'. out = ''fork'' @ o' \<and> receiver_at fuel [] x y True buf o' p m))"

definition transfer_inv :: "nat \<Rightarrow> string \<Rightarrow> int \<Rightarrow> int \<Rightarrow> system \<Rightarrow> bool" where
  "transfer_inv fuel msg x y S =
     ((\<exists>p m. procs S = [proc p m] \<and> lone_at fuel msg x y (pipe S) (out_of 0 (screen S)) p m \<and> out_of 1 (screen S) = []) \<or>
      (\<exists>wrote p m q l. procs S = [proc p m, proc q l] \<and> sender_at msg x y wrote p m \<and>
         receiver_at fuel msg x y wrote (pipe S) (out_of 1 (screen S)) q l))"

fun lone_left :: "nat \<Rightarrow> prog \<Rightarrow> fd_map \<Rightarrow> nat" where
  "lone_left len (Call (Proc Fork) f) m = 2 * len + 9"
| "lone_left len (Put q s p) m = 5"
| "lone_left len p m = receiver_left 0 [] p m"

fun transfer_left :: "string \<Rightarrow> process list \<Rightarrow> (nat \<times> string) list \<Rightarrow> nat" where
  "transfer_left msg [P] scr = lone_left (length msg) (pcode P) (fds P)"
| "transfer_left msg [P, Q] scr =
     sender_left (pcode P) (fds P) + receiver_left (length msg) (out_of 1 scr) (pcode Q) (fds Q)"
| "transfer_left msg Ps scr = 0"

lemma receiver_left_0: "receiver_left 0 out p m = receiver_left 0 [] p m"
  by (induction "0 :: nat" out p m rule: receiver_left.induct) simp_all

lemma lone_left_receiver:
  assumes "receiver_at fuel [] x y True buf out p m"
  shows "lone_left len p m = receiver_left 0 out p m"
proof -
  have "lone_left len (pipe_read_loop n x (child_newline x)) m = receiver_left 0 out (pipe_read_loop n x (child_newline x)) m" for n
    by (cases n) simp_all
  then show ?thesis using assms [unfolded receiver_at_def]
    by (elim disjE exE conjE) (simp_all add: transfer_heads del: pipe_read_loop.simps)
qed

lemma lone_act:
  assumes "lone_at fuel msg x y buf out p m" and "x \<noteq> y" "2 < x" "2 < y" and "length msg < fuel"
    and act: "act rd wr dead p m buf p' m' buf' t ks"
  shows "ks = [] \<and> lone_at fuel msg x y buf' (out @ concat t) p' m' \<and>
      lone_left (length msg) p' m' + (if halted p then 0 else 1) \<le> lone_left (length msg) p m \<or>
    t = [] \<and> \<not> halted p \<and> ks = [proc (simple_pipe_child fuel x y) m] \<and> p' = simple_pipe_parent msg x y \<and> m' = m \<and> buf' = [] \<and>
      ends m x y (Some Rd) (Some Wr) \<and> lone_left (length msg) p m = 2 * length msg + 9"
  using assms(1) [unfolded lone_at_def]
proof (elim disjE exE conjE)
  assume P: "p = simple_pipe_forks fuel msg x y" "ends m x y (Some Rd) (Some Wr)" "buf = []" "out = []"
  then show ?thesis using act unfolding P(1) simple_pipe_forks_def
    by (auto elim!: act_ForkE simp: lone_at_def)
next
  assume P: "p = perror ''fork'' (simple_pipe_child fuel x y)" "ends m x y (Some Rd) (Some Wr)" "buf = []" "out = []"
  have q: "p' = simple_pipe_child fuel x y \<and> m' = m \<and> buf' = [] \<and> t = [''fork''] \<and> ks = []"
    using act [unfolded P(1)] P(3) by (auto elim!: act_PutE)
  have r: "receiver_at fuel [] x y True [] [] (simple_pipe_child fuel x y) m" using P(2) by (simp add: receiver_at_def sent_data_def)
  then show ?thesis using q P(1,4) ends_lookup [OF P(2)] lone_left_receiver [OF r, of "length msg"] by (simp add: lone_at_def)
next
  fix o' assume P: "out = ''fork'' @ o'" "receiver_at fuel [] x y True buf o' p m"
  have "0 < fuel" using assms(5) by simp
  with receiver_act [OF P(2) assms(2-4) _ _ act]
  have q: "ks = []" "receiver_at fuel [] x y True buf' (o' @ concat t) p' m'"
    "receiver_left 0 (o' @ concat t) p' m' + (if halted p then 0 else 1) \<le> receiver_left 0 o' p m" by simp_all
  then show ?thesis
    using lone_left_receiver [OF P(2), of "length msg"] lone_left_receiver [OF q(2), of "length msg"] P(1)
    by (simp add: lone_at_def)
qed

lemma holds_pair:
  assumes "sender_at msg x y wrote p m" and "receiver_at fuel msg x y wrote buf out q l"
  shows "\<not> wrote \<Longrightarrow> holds Rd [proc p m, proc q l]" "\<not> holds Wr [proc p m, proc q l] \<Longrightarrow> wrote"
proof -
  show "holds Rd [proc p m, proc q l]" if "\<not> wrote"
    using assms(2) that unfolding receiver_at_def holds_def ends_def by auto
  show "wrote" if "\<not> holds Wr [proc p m, proc q l]"
    using assms(1) that unfolding sender_at_def holds_def ends_def by auto
qed

lemma receiver_more:
  "receiver_at fuel msg x y False buf out q l \<Longrightarrow> receiver_at fuel msg x y True (buf @ msg) out q l"
  unfolding receiver_at_def sent_data_def by auto

lemma transfer_act:
  assumes I: "transfer_inv fuel msg x y S" and xy: "x \<noteq> y" "2 < x" "2 < y" and fuel: "length msg < fuel" and i: "i < length (procs S)"
    and act: "act (holds Rd (procs S)) (holds Wr (procs S)) (other_ended i (procs S))
      (pcode (procs S ! i)) (fds (procs S ! i)) (pipe S) p' m' b t ks"
  shows "transfer_inv fuel msg x y \<lparr>procs = (procs S)[i := proc p' m'] @ ks, pipe = b, screen = screen S @ map (Pair i) t\<rparr> \<and>
    transfer_left msg ((procs S)[i := proc p' m'] @ ks) (screen S @ map (Pair i) t) + (if ended (procs S ! i) then 0 else 1)
      \<le> transfer_left msg (procs S) (screen S)"
  using I [unfolded transfer_inv_def]
proof (elim disjE exE conjE)
  fix p m assume S: "procs S = [proc p m]" "lone_at fuel msg x y (pipe S) (out_of 0 (screen S)) p m" "out_of 1 (screen S) = []"
  with i act have "act (holds Rd (procs S)) (holds Wr (procs S)) (other_ended i (procs S)) p m (pipe S) p' m' b t ks" by simp
  from lone_act [OF S(2) xy fuel this] show ?thesis
  proof (elim disjE conjE)
    assume "ks = []" "lone_at fuel msg x y b (out_of 0 (screen S) @ concat t) p' m'"
      "lone_left (length msg) p' m' + (if halted p then 0 else 1) \<le> lone_left (length msg) p m"
    then show ?thesis using S i by (simp add: transfer_inv_def ended_halted)
  next
    assume "t = []" "\<not> halted p" "ks = [proc (simple_pipe_child fuel x y) m]" "p' = simple_pipe_parent msg x y" "m' = m" "b = []"
      "ends m x y (Some Rd) (Some Wr)" "lone_left (length msg) p m = 2 * length msg + 9"
    then show ?thesis using S i ends_lookup
      by (auto simp: transfer_inv_def ended_halted sender_at_def receiver_at_def sent_data_def)
  qed
next
  fix wrote p m q l
  assume S: "procs S = [proc p m, proc q l]" and snd: "sender_at msg x y wrote p m"
    and rcv: "receiver_at fuel msg x y wrote (pipe S) (out_of 1 (screen S)) q l"
  consider "i = 0" | "i = 1" using i S by fastforce
  then show ?thesis
  proof cases
    case 1
    from sender_act [OF snd xy(1) holds_pair(1) [OF snd rcv]] act 1 S
    have "ks = [] \<and> t = [] \<and> (sender_at msg x y wrote p' m' \<and> b = pipe S \<or> \<not> wrote \<and> sender_at msg x y True p' m' \<and> b = pipe S @ msg) \<and>
      sender_left p' m' + (if halted p then 0 else 1) \<le> sender_left p m" by simp
    then show ?thesis using S 1 rcv receiver_more by (auto simp: transfer_inv_def ended_halted)
  next
    case 2
    from receiver_act [OF rcv xy fuel holds_pair(2) [OF snd rcv]] act 2 S
    have "ks = [] \<and> receiver_at fuel msg x y wrote b (out_of 1 (screen S) @ concat t) p' m' \<and>
      receiver_left (length msg) (out_of 1 (screen S) @ concat t) p' m' + (if halted q then 0 else 1)
        \<le> receiver_left (length msg) (out_of 1 (screen S)) q l" by simp
    then show ?thesis using S 2 snd by (auto simp: transfer_inv_def ended_halted)
  qed
qed

text \<open>A process that has ended holds no descriptor any more: both close what they have.\<close>

lemma receiver_ended:
  assumes "receiver_at fuel msg x y wrote buf out (Halt oc) m" and "length msg < fuel"
  shows "out = msg @ [NL] \<and> oc = Exited 0 \<and> ends m x y None None"
proof -
  have "Halt oc \<noteq> pipe_read_loop n x (child_newline x)" if "fuel \<le> n + length out" "out @ buf = sent_data wrote msg" for n
    using loop_fuel [OF that assms(2)] by (metis halted_simps(1) halted_heads(9))
  then show ?thesis
    using assms(1) [unfolded receiver_at_def] by (elim disjE exE conjE) (blast | simp add: transfer_heads)+
qed

lemma sender_ended: "sender_at msg x y wrote (Halt oc) m \<Longrightarrow> ends m x y None None"
  by (auto simp: sender_at_def transfer_heads)

lemma ends_None: "ends m x y None None \<Longrightarrow> m = (\<lambda>_. None)"
  unfolding ends_def by (metis ext)

lemma transfer_idle:
  assumes "transfer_inv fuel msg x y S" and "length msg < fuel" and "i < length (procs S)" and "ended (procs S ! i)"
  shows "idle (procs S ! i)"
proof -
  obtain oc where oc: "pcode (procs S ! i) = Halt oc" using assms(4) by (auto simp: ended_def)
  have "ends (fds (procs S ! i)) x y None None"
    using assms(1) [unfolded transfer_inv_def]
  proof (elim disjE exE conjE)
    fix p m assume S: "procs S = [proc p m]" "lone_at fuel msg x y (pipe S) (out_of 0 (screen S)) p m"
    have "length [] < fuel" using assms(2) by simp
    then show ?thesis using S oc assms(3) by (auto simp: lone_at_def simple_pipe_forks_def dest: receiver_ended)
  next
    fix wrote p m q l assume "procs S = [proc p m, proc q l]" "sender_at msg x y wrote p m"
      "receiver_at fuel msg x y wrote (pipe S) (out_of 1 (screen S)) q l"
    then show ?thesis using oc assms(2,3) by (auto simp: less_Suc_eq dest: receiver_ended sender_ended)
  qed
  then show ?thesis using ends_None assms(4) by (simp add: idle_def)
qed

text \<open>The systems with which the transfer begins: the first call of main has created the pipe.\<close>

definition transfer_begins :: "nat \<Rightarrow> int \<times> int \<Rightarrow> string \<Rightarrow> string \<Rightarrow> system \<Rightarrow> bool" where
  "transfer_begins fuel junk self msg S =
     (length msg < fuel \<and> step (boot (simple_pipe_main fuel junk [self, msg])) S \<and> holds Wr (procs S))"

definition transfer_start :: "nat \<Rightarrow> string \<Rightarrow> int \<Rightarrow> int \<Rightarrow> system" where
  "transfer_start fuel msg x y = sys [proc (simple_pipe_forks fuel msg x y) ((\<lambda>_. None)(x \<mapsto> Rd, y \<mapsto> Wr))] [] []"

lemma transfer_begins_start:
  assumes "transfer_begins fuel junk self msg S"
  obtains x y where "x \<noteq> y" "2 < x" "2 < y" "length msg < fuel" "S = transfer_start fuel msg x y"
proof -
  obtain p m b t ks where S: "S = sys (proc p m # ks) b (map (Pair 0) t)"
    and act: "act False False False (simple_pipe_main fuel junk [self, msg]) (\<lambda>_. None) [] p m b t ks"
    using assms by (auto simp: transfer_begins_def boot_def holds_def other_ended_def elim!: step.cases)
  have fuel: "length msg < fuel" and wr: "holds Wr (proc p m # ks)" using assms by (simp_all add: transfer_begins_def S)
  have msg: "msg \<noteq> ''--help''"
    using act wr by (auto simp: simple_pipe_main_def holds_def elim!: act_PutE)
  from act [unfolded simple_pipe_main_eq [OF msg]] show thesis
  proof (rule act_PipeE)
    fix r x y assume "p = (let (x, y) = (if rv r = -1 then junk else (ints r ! 0, ints r ! 1)) in
        perror_if (rv r = -1) ''pipe creation'' (simple_pipe_forks fuel msg x y))"
      "m = (\<lambda>_. None)(x \<mapsto> Rd, y \<mapsto> Wr)" "b = []" "t = []" "ks = []" "rv r = 0" "ints r = [x, y]" "2 < x" "2 < y" "x \<noteq> y"
    then show thesis using that fuel S by (simp add: transfer_start_def perror_if_def)
  qed (use wr in \<open>auto simp: holds_def\<close>)
qed

interpretation transfer: system_progress "transfer_begins fuel junk self msg"
  "\<lambda>S. \<exists>x y. x \<noteq> y \<and> 2 < x \<and> 2 < y \<and> length msg < fuel \<and> transfer_inv fuel msg x y S"
  "\<lambda>S. transfer_left msg (procs S) (screen S)" for fuel junk self msg
proof (unfold_locales, goal_cases)
  case (1 S)
  then obtain x y where S: "x \<noteq> y" "2 < x" "2 < y" "length msg < fuel" "S = transfer_start fuel msg x y"
    by (rule transfer_begins_start)
  then have "transfer_inv fuel msg x y S" by (auto simp: transfer_start_def transfer_inv_def lone_at_def ends_def)
  with S show ?case by blast
next
  case (2 S i p m b t ks)
  then show ?case using transfer_act by blast
next
  case (3 S i p m b t ks)
  then obtain x y where "transfer_inv fuel msg x y S" "x \<noteq> y" "2 < x" "2 < y" "length msg < fuel" by blast
  from transfer_act [OF this 3(2,3)] transfer_idle [OF this(1,5) 3(2)] show ?case by (auto simp: idle_def)
qed

section \<open>Properties\<close>

lemma transfer_pair:
  assumes "transfer_begins fuel junk self msg S0" and "reachable S0 S" and "length (procs S) = 2"
  obtains x y wrote p m q l where "2 < x" "2 < y" "length msg < fuel" "procs S = [proc p m, proc q l]" "sender_at msg x y wrote p m"
    "receiver_at fuel msg x y wrote (pipe S) (out_of 1 (screen S)) q l"
  using transfer.invariant [OF assms(2,1)] assms(3) by (auto simp: transfer_inv_def)

text \<open>
  (C10) simple\_pipe.c transfers its argument intact under every scheduling: once its first call has
  created the pipe and there are two processes, whatever the order in which they run and however
  the reads split the data, the child has written a prefix of the argument followed by a newline,
  and when it has ended it has written all of it and its exit status is 0.
\<close>

theorem simple_pipe_delivers:
  assumes "step (boot (simple_pipe_main fuel junk [self, msg])) S0" and "holds Wr (procs S0)" and "length msg < fuel"
    and "reachable S0 S" and "length (procs S) = 2"
  shows "(\<exists>rest. out_of 1 (screen S) @ rest = msg @ [NL]) \<and>
    (ended (procs S ! 1) \<longrightarrow> out_of 1 (screen S) = msg @ [NL] \<and> pcode (procs S ! 1) = exit 0)"
proof -
  have "transfer_begins fuel junk self msg S0" using assms(1-3) by (simp add: transfer_begins_def)
  from transfer_pair [OF this assms(4,5)] obtain x y wrote p m q l where S: "procs S = [proc p m, proc q l]"
    and rcv: "receiver_at fuel msg x y wrote (pipe S) (out_of 1 (screen S)) q l" by metis
  have "\<exists>rest. out_of 1 (screen S) @ rest = msg @ [NL]"
    using rcv unfolding receiver_at_def sent_data_def by (auto split: if_splits)
  moreover have "out_of 1 (screen S) = msg @ [NL] \<and> q = exit 0" if "q = Halt out" for out
    using receiver_ended [OF rcv [unfolded that] assms(3)] that by simp
  ultimately show ?thesis by (auto simp: S ended_def)
qed

text \<open>The first step, which creates the pipe over the descriptors 3 and 4, and the fork.\<close>

lemma begun_step:
  assumes "msg \<noteq> ''--help''"
  shows "step (boot (simple_pipe_main fuel junk [self, msg])) (transfer_start fuel msg 3 4)"
proof -
  let ?m = "(\<lambda>_. None)(3 \<mapsto> Rd, 4 \<mapsto> Wr) :: fd_map"
  let ?f = "\<lambda>p. let (x, y) = (if rv p = -1 then junk else (ints p ! 0, ints p ! 1)) in
       perror_if (rv p = -1) ''pipe creation'' (simple_pipe_forks fuel msg x y)"
  have "act False False False (Call (Io Pipe) ?f) (\<lambda>_. None) [] (?f ((ok 0)\<lparr>ints := [3, 4]\<rparr>)) ?m [] [] []"
    by (rule act_pipe) simp_all
  moreover have "?f ((ok 0)\<lparr>ints := [3, 4]\<rparr>) = simple_pipe_forks fuel msg 3 4" by (simp add: perror_if_def)
  ultimately have "act False False False (simple_pipe_main fuel junk [self, msg]) (\<lambda>_. None) [] (simple_pipe_forks fuel msg 3 4) ?m [] [] []"
    unfolding simple_pipe_main_eq [OF assms] by simp
  then show ?thesis
    using step_proc [of 0 "boot (simple_pipe_main fuel junk [self, msg])" "simple_pipe_forks fuel msg 3 4" ?m "[]" "[]" "[]"]
    by (simp add: boot_def transfer_start_def holds_def other_ended_def)
qed

lemma start_holds: "holds Wr (procs (transfer_start fuel msg 3 4))"
  by (auto simp: transfer_start_def holds_def intro!: exI [of _ 4])

text \<open>The system just after the fork.\<close>

abbreviation forked :: "nat \<Rightarrow> string \<Rightarrow> system" where
  "forked fuel msg \<equiv> sys [proc (simple_pipe_parent msg 3 4) ((\<lambda>_. None)(3 \<mapsto> Rd, 4 \<mapsto> Wr)),
     proc (simple_pipe_child fuel 3 4) ((\<lambda>_. None)(3 \<mapsto> Rd, 4 \<mapsto> Wr))] [] []"

lemma forked_runs: "runs (transfer_start fuel msg 3 4) 1 (forked fuel msg)"
proof -
  let ?f = "\<lambda>f. if rv f = -1 then perror ''fork'' (simple_pipe_child fuel 3 4)
     else if rv f = 0 then simple_pipe_child fuel 3 4 else simple_pipe_parent msg 3 4"
  let ?m = "(\<lambda>_. None)(3 \<mapsto> Rd, 4 \<mapsto> Wr) :: fd_map"
  have "act rd wr dead (Call (Proc Fork) ?f) ?m [] (?f (ok 7)) ?m [] [] [proc (?f (ok 0)) ?m]" for rd wr dead
    by (rule act_fork) simp_all
  then have "act rd wr dead (simple_pipe_forks fuel msg 3 4) ?m [] (simple_pipe_parent msg 3 4) ?m [] [] [proc (simple_pipe_child fuel 3 4) ?m]"
    for rd wr dead by (simp add: simple_pipe_forks_def del: fun_upd_apply)
  moreover have "\<not> halted (simple_pipe_forks fuel msg 3 4)" by (simp add: simple_pipe_forks_def)
  ultimately show ?thesis
    using runs_step [OF runs_refl, of 0 "transfer_start fuel msg 3 4" "simple_pipe_parent msg 3 4" ?m "[]" "[]"
        "[proc (simple_pipe_child fuel 3 4) ?m]"]
    by (simp add: transfer_start_def idle_def ended_halted del: fun_upd_apply)
qed

lemma simple_pipe_delivers_witness:
  "\<exists>S0 S. step (boot (simple_pipe_main 6 (0, 0) [''simple_pipe'', ''hello''])) S0 \<and> reachable S0 S \<and> length (procs S) = 2 \<and>
    (\<exists>rest. out_of 1 (screen S) @ rest = ''hello'' @ [NL])"
proof -
  have b: "step (boot (simple_pipe_main 6 (0, 0) [''simple_pipe'', ''hello''])) (transfer_start 6 ''hello'' 3 4)"
    by (rule begun_step) simp
  have r: "reachable (transfer_start 6 ''hello'' 3 4) (forked 6 ''hello'')" by (rule runs_reachable [OF forked_runs])
  have "\<exists>rest. out_of 1 (screen (forked 6 ''hello'')) @ rest = ''hello'' @ [NL]"
    by (rule conjunct1 [OF simple_pipe_delivers [OF b start_holds _ r]]) simp_all
  with b r show ?thesis by (intro exI [of _ "transfer_start 6 ''hello'' 3 4"] exI [of _ "forked 6 ''hello''"]) simp
qed

lemma sender_moves:
  assumes "sender_at msg x y wrote p m" and "p \<noteq> exit 0" "p \<noteq> parent_wait"
  shows "enabled rd wr dead p m b"
  using assms(1) [unfolded sender_at_def] assms(2,3)
  by (auto simp: ends_def simple_pipe_parent_eq parent_write_def parent_close_def intro!: enabled_close enabled_write)

lemma receiver_moves:
  assumes "receiver_at fuel msg x y wrote buf out q l" and "q \<noteq> exit 0" and "2 < x" "2 < y" and "length msg < fuel"
    and "wr \<Longrightarrow> l y = Some Wr"
  shows "enabled rd wr dead q l buf"
proof -
  have loop: "enabled rd wr dead (pipe_read_loop n x (child_newline x)) l buf"
    if n: "fuel \<le> n + length out" "out @ buf = sent_data wrote msg" "ends l x y (Some Rd) None" for n
  proof -
    obtain k where "n = Suc k" using loop_fuel [OF n(1,2) assms(5)] .
    then show ?thesis using n(3) assms(6) by (auto simp: ends_def PIPE_BUF_SIZE_def intro!: enabled_read)
  qed
  show ?thesis using assms(1) [unfolded receiver_at_def] assms(2-4) loop
    by (elim disjE exE conjE) (auto simp: ends_def simple_pipe_child_eq child_copy_def child_newline_def child_close_def
        intro!: enabled_close enabled_print)
qed

text \<open>When the sender holds no end any more, the receiver's own write end is the only one.\<close>

lemma only_writer:
  "receiver_at fuel msg x y wrote buf out q l \<Longrightarrow> l fd = Some Wr \<Longrightarrow> l y = Some Wr"
  by (auto simp: receiver_at_def ends_def) (metis option.distinct(1) option.inject pipe_end.distinct(1))+

lemma pair_moves:
  assumes "procs S = [proc p m, proc q l]" and snd: "sender_at msg x y wrote p m"
    and rcv: "receiver_at fuel msg x y wrote (pipe S) out q l" and xy: "2 < x" "2 < y" and "length msg < fuel"
    and "\<not> (ended (procs S ! 0) \<and> ended (procs S ! 1))"
  shows "can_move S 0 \<or> can_move S 1"
proof -
  note S = assms(1)
  consider (busy) "p \<noteq> exit 0" "p \<noteq> parent_wait" | (alive) "p = exit 0 \<or> p = parent_wait" "q \<noteq> exit 0"
    | (wait) "p = parent_wait" "q = exit 0" using assms(7) S by (auto simp: ended_def)
  then show ?thesis
  proof cases
    case busy
    then show ?thesis using sender_moves [OF snd] by (simp add: can_moveI S)
  next
    case alive
    then have "ends m x y None None" using snd
      by (auto simp: sender_at_def simple_pipe_parent_eq parent_write_def parent_close_def parent_wait_def)
    then have "m fd \<noteq> Some Wr" for fd by (cases "fd = x \<or> fd = y") (auto simp: ends_def)
    then have "holds Wr (procs S) \<Longrightarrow> l y = Some Wr" using only_writer [OF rcv] by (auto simp: S holds_def)
    then show ?thesis using receiver_moves [OF rcv alive(2) xy assms(6)] by (simp add: can_moveI S)
  next
    case wait
    then have "other_ended 0 (procs S)" by (auto simp: S other_ended_def ended_def intro!: exI [of _ 1])
    then show ?thesis using enabled_wait wait(1) can_moveI [of 0 S] by (simp add: S parent_wait_def)
  qed
qed

lemma lone_moves:
  assumes "procs S = [proc p m]" and "lone_at fuel msg x y (pipe S) out p m" and "2 < x" "2 < y" and "length msg < fuel"
    and "\<not> ended (procs S ! 0)"
  shows "can_move S 0"
  using assms(2) [unfolded lone_at_def]
proof (elim disjE exE conjE)
  assume "p = simple_pipe_forks fuel msg x y"
  then show ?thesis by (simp add: can_moveI assms(1) simple_pipe_forks_def enabled_fork)
next
  assume "p = perror ''fork'' (simple_pipe_child fuel x y)"
  then show ?thesis by (simp add: can_moveI assms(1) enabled_put)
next
  fix o' assume rcv: "receiver_at fuel [] x y True (pipe S) o' p m"
  have "holds Wr (procs S) \<Longrightarrow> m y = Some Wr" using only_writer [OF rcv] by (auto simp: assms(1) holds_def)
  moreover have "p \<noteq> exit 0" "length [] < fuel" using assms(1,5,6) by (auto simp: ended_def)
  ultimately show ?thesis using receiver_moves [OF rcv _ assms(3,4)] by (simp add: can_moveI assms(1))
qed

text \<open>
  (C11) simple\_pipe.c always comes to its end: once it has its pipe, and also when its fork fails, no
  schedule makes more than twice the length of the argument plus nine steps, and as long as one of
  the processes has not ended with its descriptors closed one of them can make a step. In particular the child's read does not
  wait for ever for the end of file, because both processes close the write ends they hold.
\<close>

theorem simple_pipe_terminates:
  assumes "step (boot (simple_pipe_main fuel junk [self, msg])) S0" and "holds Wr (procs S0)" and "length msg < fuel"
    and "runs S0 n S"
  shows "n \<le> 2 * length msg + 9 \<and> ((\<forall>P \<in> set (procs S). idle P) \<or> (\<exists>i. can_move S i))"
proof
  have start: "transfer_begins fuel junk self msg S0" using assms(1-3) by (simp add: transfer_begins_def)
  then obtain x y where "S0 = transfer_start fuel msg x y" by (rule transfer_begins_start)
  then have "transfer_left msg (procs S0) (screen S0) = 2 * length msg + 9"
    by (simp add: transfer_start_def simple_pipe_forks_def)
  then show "n \<le> 2 * length msg + 9" using transfer.bounded [OF assms(4) start] by simp
  obtain x y where xy: "2 < x" "2 < y" and I: "transfer_inv fuel msg x y S"
    using transfer.invariant [OF runs_reachable [OF assms(4)] start] by blast
  have "(\<forall>P \<in> set (procs S). ended P) \<or> (\<exists>i. can_move S i)"
    using I [unfolded transfer_inv_def] pair_moves [OF _ _ _ xy assms(3)] lone_moves [OF _ _ xy assms(3)]
    by (elim disjE exE conjE) fastforce+
  then show "(\<forall>P \<in> set (procs S). idle P) \<or> (\<exists>i. can_move S i)"
    using transfer_idle [OF I assms(3)] by (metis in_set_conv_nth)
qed

lemma simple_pipe_terminates_witness:
  "\<exists>S0. step (boot (simple_pipe_main 6 (0, 0) [''simple_pipe'', ''hello''])) S0 \<and> runs S0 1 (forked 6 ''hello'') \<and>
    (\<exists>i. can_move (forked 6 ''hello'') i)"
proof -
  have b: "step (boot (simple_pipe_main 6 (0, 0) [''simple_pipe'', ''hello''])) (transfer_start 6 ''hello'' 3 4)"
    by (rule begun_step) simp
  have len: "length ''hello'' < 6" by simp
  have "\<not> (\<forall>P \<in> set (procs (forked 6 ''hello'')). idle P)" by (simp add: idle_def ended_halted)
  with conjunct2 [OF simple_pipe_terminates [OF b start_holds len forked_runs]] have "\<exists>i. can_move (forked 6 ''hello'') i"
    by blast
  with b forked_runs show ?thesis by (intro exI [of _ "transfer_start 6 ''hello'' 3 4"] conjI)
qed

end
