(* ===== verification/Inotify.thy ===== *)
theory Inotify
  imports Syscalls
begin

unbundle bit_operations_syntax

text \<open>
  src/inotify/inotify\_demo.c: reading inotify events from a buffer. An event in the buffer is a
  header of four 32-bit integers (wd, mask, cookie, len) followed by len bytes that hold the name,
  NUL-terminated and padded. \<open>inotify_walk\<close> is the pointer loop over the buffer, with the pointer
  as an index; reading outside of the array is undefined. It terminates because the index grows by
  at least the size of a header.
\<close>

section \<open>The code\<close>

record inotify_event =
  wd :: int
  mask :: "32 word"
  cookie :: "32 word"
  len :: nat

definition INOTIFY_HEADER :: nat where "INOTIFY_HEADER = 16"
definition INOTIFY_BUF_LEN :: nat where "INOTIFY_BUF_LEN = 10 * (INOTIFY_HEADER + 255 + 1)"

text \<open>The flags in the order in which they are tested.\<close>

definition in_flags :: "(32 word \<times> string) list" where
  "in_flags = [
     (0x1, ''IN_ACCESS ''), (0x4, ''IN_ATTRIB ''), (0x10, ''IN_CLOSE_NOWRITE ''),
     (0x8, ''IN_CLOSE_WRITE ''), (0x100, ''IN_CREATE ''), (0x200, ''IN_DELETE ''),
     (0x400, ''IN_DELETE_SELF ''), (0x8000, ''IN_IGNORED ''), (0x40000000, ''IN_ISDIR ''),
     (0x2, ''IN_MODIFY ''), (0x800, ''IN_MOVE_SELF ''), (0x40, ''IN_MOVED_FROM ''),
     (0x80, ''IN_MOVED_TO ''), (0x20, ''IN_OPEN ''), (0x4000, ''IN_Q_OVERFLOW ''),
     (0x2000, ''IN_UNMOUNT '')]"

abbreviation (input) IN_ALL_EVENTS :: flags where "IN_ALL_EVENTS \<equiv> 0xfff"

text \<open>A 32-bit integer at index \<open>i\<close> of the buffer, unsigned.\<close>

definition u32_at :: "string \<Rightarrow> nat \<Rightarrow> nat" where
  "u32_at buf i = le_decode (take 4 (drop i buf))"

definition event_at :: "string \<Rightarrow> nat \<Rightarrow> inotify_event" where
  "event_at buf i =
     \<lparr>wd = to_int (int (u32_at buf i)), mask = of_nat (u32_at buf (i + 4)),
      cookie = of_nat (u32_at buf (i + 8)), len = u32_at buf (i + 12)\<rparr>"

text \<open>\<open>name\<close> is what the buffer holds from the name on, to the end of the array.\<close>

definition displayInotifyEvent :: "inotify_event \<Rightarrow> string \<Rightarrow> prog \<Rightarrow> prog" where
  "displayInotifyEvent i name p =
     printf (''    wd='' @ pad_left (CHR '' '') 2 (show_int (wd i)) @ ''; '') (
     (if cookie i > 0 then Put Stdout (''cookie ='' @ pad_left (CHR '' '') 4 (show_int (sint (cookie i))) @ ''; '')
      else (\<lambda>p. p)) (
     printf ''mask = '' (
     foldr (\<lambda>(f, s) p. if mask i AND f \<noteq> 0 then printf s p else p) in_flags (
     printf [NL] (
     if len i > 0 then
       (if NUL \<in> set name then printf (''        name = '' @ cstr name @ [NL]) p else Halt Undefined)
     else p)))))"

function inotify_walk :: "string \<Rightarrow> nat \<Rightarrow> nat \<Rightarrow> prog \<Rightarrow> prog" where
  "inotify_walk buf numRead p finish =
     (if p < numRead then
        (if p + INOTIFY_HEADER \<le> length buf then
           (let event = event_at buf p in
            displayInotifyEvent event (drop (p + INOTIFY_HEADER) buf)
              (inotify_walk buf numRead (p + INOTIFY_HEADER + len event) finish))
         else Halt Undefined)
      else finish)"
  by pat_completeness auto

termination
  by (relation "measure (\<lambda>(buf, numRead, p, finish). numRead - p)") (auto simp: INOTIFY_HEADER_def)

declare inotify_walk.simps [simp del]

fun inotify_watch :: "int \<Rightarrow> string list \<Rightarrow> prog \<Rightarrow> prog" where
  "inotify_watch fd [] p = p"
| "inotify_watch fd (arg # args) p =
     Call (Sys (Inotify_add_watch fd arg IN_ALL_EVENTS)) (\<lambda>w.
     if rv w = -1 then perror ''inotify_add_watch'' (exit EXIT_FAILURE)
     else printf (''Watching '' @ arg @ '' using wd '' @ show_int (rv w) @ [NL]) (inotify_watch fd args p))"

text \<open>\<open>buf\<close> is the array: what read delivers overwrites its beginning.\<close>

fun inotify_loop :: "nat \<Rightarrow> int \<Rightarrow> string \<Rightarrow> prog" where
  "inotify_loop 0 fd buf = Halt Unfinished"
| "inotify_loop (Suc n) fd buf =
     Call (Io (Read fd (int INOTIFY_BUF_LEN))) (\<lambda>r.
     if rv r = 0 then perror ''read() from inotify fd returned 0!'' (exit EXIT_FAILURE)
     else if rv r = -1 then perror ''read'' (exit EXIT_FAILURE)
     else
       let buf = bytes r @ drop (length (bytes r)) buf in
       printf (''Read '' @ show_int (rv r) @ '' bytes from inotify fd\<newline>'')
         (inotify_walk buf (nat (rv r)) 0 (inotify_loop n fd buf)))"

definition inotify_main :: "nat \<Rightarrow> string \<Rightarrow> string list \<Rightarrow> prog" where
  "inotify_main n buf argv =
     (if length argv < 2 \<or> argv ! 1 = ''--help'' then
        printf (argv ! 0 @ '' pathname.... \<newline>'') (perror ''arguments issue'' (exit (-1)))
      else Call (Sys Inotify_init) (\<lambda>i.
        if rv i = -1 then perror ''inotify-init'' (exit EXIT_FAILURE)
        else inotify_watch (rv i) (drop 1 argv) (inotify_loop n (rv i) buf)))"

section \<open>Events as the kernel writes them\<close>

text \<open>An event with its name: \<open>pad\<close> bytes of padding follow a name, an event without name has none.\<close>

record named_event =
  event :: inotify_event
  name :: string

definition valid_named :: "named_event \<Rightarrow> bool" where
  "valid_named e =
     (INT_MIN \<le> wd (event e) \<and> wd (event e) \<le> INT_MAX \<and> len (event e) < 2 ^ 32 \<and> no_nul (name e) \<and>
      (if len (event e) = 0 then name e = [] else length (name e) < len (event e)))"

definition event_bytes :: "named_event \<Rightarrow> string" where
  "event_bytes e =
     int_bytes (wd (event e)) @ le_encode 4 (unat (mask (event e))) @ le_encode 4 (unat (cookie (event e))) @
     le_encode 4 (len (event e)) @ name e @ replicate (len (event e) - length (name e)) NUL"

text \<open>The report on one event.\<close>

definition event_report :: "named_event \<Rightarrow> string" where
  "event_report e = (let i = event e in
     ''    wd='' @ pad_left (CHR '' '') 2 (show_int (wd i)) @ ''; '' @
     (if cookie i > 0 then ''cookie ='' @ pad_left (CHR '' '') 4 (show_int (sint (cookie i))) @ ''; '' else []) @
     ''mask = '' @ concat (map snd (filter (\<lambda>(f, s). mask i AND f \<noteq> 0) in_flags)) @ [NL] @
     (if len i > 0 then ''        name = '' @ name e @ [NL] else []))"

section \<open>Lemmas\<close>

lemma length_event_bytes:
  "valid_named e \<Longrightarrow> length (event_bytes e) = INOTIFY_HEADER + len (event e)"
  by (auto simp: event_bytes_def INOTIFY_HEADER_def valid_named_def split: if_splits)

lemma u32_at_append: "length a = 4 \<Longrightarrow> u32_at (pre @ a @ post) (length pre) = le_decode a"
  by (simp add: u32_at_def)

lemma event_at_bytes:
  assumes "valid_named e"
  shows "event_at (pre @ event_bytes e @ post) (length pre) = event e"
proof -
  let ?w = "int_bytes (wd (event e))" and ?m = "le_encode 4 (unat (mask (event e)))"
    and ?c = "le_encode 4 (unat (cookie (event e)))" and ?l = "le_encode 4 (len (event e))"
  let ?rest = "name e @ replicate (len (event e) - length (name e)) NUL @ post"
  let ?buf = "pre @ ?w @ ?m @ ?c @ ?l @ ?rest"
  have buf: "pre @ event_bytes e @ post = ?buf" by (simp add: event_bytes_def)
  have word: "le_decode (le_encode 4 (unat (w :: 32 word))) = unat w" for w
    by (rule le_decode_encode) (use unsigned_less [of w, where 'a = nat] in simp)
  have u: "u32_at ?buf (length pre) = le_decode ?w"
    "u32_at ?buf (length pre + 4) = le_decode ?m"
    "u32_at ?buf (length pre + 8) = le_decode ?c"
    "u32_at ?buf (length pre + 12) = le_decode ?l"
    using u32_at_append [of ?w pre] u32_at_append [of ?m "pre @ ?w"] u32_at_append [of ?c "pre @ ?w @ ?m"]
      u32_at_append [of ?l "pre @ ?w @ ?m @ ?c"] by (simp_all add: add.commute)
  have "to_int (int (le_decode ?w)) = wd (event e)"
    using int_of_bytes_int_bytes [of "wd (event e)"] assms by (simp add: int_of_bytes_def valid_named_def)
  with u assms show ?thesis
    by (simp add: buf event_at_def le_decode_encode word valid_named_def)
qed

lemma emitted_display:
  assumes "len i > 0 \<longrightarrow> NUL \<in> set rest"
  shows "emitted Stdout (trace K (displayInotifyEvent i rest p) k) =
      event_report \<lparr>event = i, name = cstr rest\<rparr> @ emitted Stdout (trace K p k)"
    and "outcome K (displayInotifyEvent i rest p) k = outcome K p k"
    and "final K (displayInotifyEvent i rest p) k = final K p k"
proof -
  have fold: "emitted Stdout (trace K (foldr (\<lambda>(f, s) p. if mask i AND f \<noteq> 0 then Put Stdout s p else p) xs p) k) =
      concat (map snd (filter (\<lambda>(f, s). mask i AND f \<noteq> 0) xs)) @ emitted Stdout (trace K p k)"
    "outcome K (foldr (\<lambda>(f, s) p. if mask i AND f \<noteq> 0 then Put Stdout s p else p) xs p) k = outcome K p k"
    "final K (foldr (\<lambda>(f, s) p. if mask i AND f \<noteq> 0 then Put Stdout s p else p) xs p) k = final K p k" for xs p
    by (induction xs) auto
  show "emitted Stdout (trace K (displayInotifyEvent i rest p) k) =
      event_report \<lparr>event = i, name = cstr rest\<rparr> @ emitted Stdout (trace K p k)"
    and "outcome K (displayInotifyEvent i rest p) k = outcome K p k"
    and "final K (displayInotifyEvent i rest p) k = final K p k"
    using assms by (simp_all add: displayInotifyEvent_def event_report_def fold Let_def)
qed

lemma event_bytes_tail:
  assumes "valid_named e"
  shows "drop (length pre + INOTIFY_HEADER) (pre @ event_bytes e @ post) =
      name e @ replicate (len (event e) - length (name e)) NUL @ post"
  by (simp add: event_bytes_def INOTIFY_HEADER_def)

lemma cstr_padded:
  assumes "valid_named e" "len (event e) > 0"
  shows "cstr (name e @ replicate (len (event e) - length (name e)) NUL @ post) = name e"
proof -
  obtain m where "len (event e) - length (name e) = Suc m"
    using assms by (cases "len (event e) - length (name e)") (auto simp: valid_named_def)
  then show ?thesis using assms by (simp add: valid_named_def)
qed

lemma event_report_name:
  "event_report \<lparr>event = i, name = n\<rparr> = event_report \<lparr>event = i, name = n'\<rparr> \<longleftrightarrow> len i = 0 \<or> n = n'"
  by (auto simp: event_report_def Let_def)

text \<open>One event of the walk.\<close>

lemma inotify_walk_step:
  assumes e: "valid_named e" and buf: "buf = pre @ event_bytes e @ post" and n: "length pre < numRead"
  shows "emitted Stdout (trace K (inotify_walk buf numRead (length pre) q) k) =
      event_report e @ emitted Stdout (trace K (inotify_walk buf numRead (length (pre @ event_bytes e)) q) k) \<and>
    outcome K (inotify_walk buf numRead (length pre) q) k =
      outcome K (inotify_walk buf numRead (length (pre @ event_bytes e)) q) k \<and>
    final K (inotify_walk buf numRead (length pre) q) k =
      final K (inotify_walk buf numRead (length (pre @ event_bytes e)) q) k"
proof -
  let ?rest = "name e @ replicate (len (event e) - length (name e)) NUL @ post"
  have walk: "inotify_walk buf numRead (length pre) q = displayInotifyEvent (event e) ?rest
      (inotify_walk buf numRead (length (pre @ event_bytes e)) q)"
    using n length_event_bytes [OF e] event_at_bytes [OF e, of pre post] event_bytes_tail [OF e, of pre post]
    by (subst inotify_walk.simps) (simp add: buf Let_def add.assoc)
  have nul: "len (event e) > 0 \<longrightarrow> NUL \<in> set ?rest"
    using e by (auto simp: valid_named_def)
  have "event_report \<lparr>event = event e, name = cstr ?rest\<rparr> = event_report e"
    using cstr_padded [OF e, of post] event_report_name [of "event e" "cstr ?rest" "name e"]
    by (cases e) auto
  then show ?thesis unfolding walk by (simp add: emitted_display [OF nul] del: length_append)
qed

text \<open>
  (C24) The walk over the buffer is exact: when read delivers the encodings of any list of events,
  the loop reports each of them once, in order, with its own name, does not touch what the array
  held before behind them, and continues after the last one; it never reads outside of the array.
\<close>

theorem inotify_walk_reports:
  assumes "list_all valid_named evs"
  shows "emitted Stdout (trace K (inotify_walk (concat (map event_bytes evs) @ stale)
        (length (concat (map event_bytes evs))) 0 q) k) =
      concat (map event_report evs) @ emitted Stdout (trace K q k) \<and>
    outcome K (inotify_walk (concat (map event_bytes evs) @ stale) (length (concat (map event_bytes evs))) 0 q) k =
      outcome K q k"
proof -
  have walk: "emitted Stdout (trace K (inotify_walk (pre @ concat (map event_bytes evs) @ stale)
        (length (pre @ concat (map event_bytes evs))) (length pre) q) k) =
      concat (map event_report evs) @ emitted Stdout (trace K q k) \<and>
    outcome K (inotify_walk (pre @ concat (map event_bytes evs) @ stale)
        (length (pre @ concat (map event_bytes evs))) (length pre) q) k = outcome K q k" for pre
    using assms
  proof (induction evs arbitrary: pre)
    case Nil
    then show ?case by (simp add: inotify_walk.simps)
  next
    case (Cons e evs)
    have "0 < length (event_bytes e)"
      using length_event_bytes [of e] Cons.prems by (simp add: INOTIFY_HEADER_def)
    with inotify_walk_step [of e _ pre "concat (map event_bytes evs) @ stale"
        "length (pre @ concat (map event_bytes (e # evs)))" K q k] Cons.IH [of "pre @ event_bytes e"] Cons.prems
    show ?case by simp
  qed
  from walk [of "[]"] show ?thesis by simp
qed

lemma inotify_walk_reports_witness:
  "outcome script (inotify_walk (event_bytes \<lparr>event = \<lparr>wd = 1, mask = 0x100, cookie = 0, len = 16\<rparr>, name = ''aaa''\<rparr> @ ''old'')
     (length (event_bytes \<lparr>event = \<lparr>wd = 1, mask = 0x100, cookie = 0, len = 16\<rparr>, name = ''aaa''\<rparr>)) 0 (exit 0)) [] = Exited 0"
  using inotify_walk_reports [of "[\<lparr>event = \<lparr>wd = 1, mask = 0x100, cookie = 0, len = 16\<rparr>, name = ''aaa''\<rparr>]" script "''old''" "exit 0" "[]"]
  by (simp add: valid_named_def int_limits)

end
