(* ===== verification/Tty.thy ===== *)
theory Tty
  imports Syscalls
begin

unbundle bit_operations_syntax

text \<open>
  Terminal modes: src/terminals/tty\_functions.c and .h, and the signal-driven input loop of
  src/alternative\_io/demo\_sigio.c, which uses them. The fields of a \<open>termios\<close> are 32-bit words;
  the numbers of the flags are those of Linux.
\<close>

section \<open>The code\<close>

record termios =
  c_iflag :: "32 word"
  c_oflag :: "32 word"
  c_cflag :: "32 word"
  c_lflag :: "32 word"
  c_cc :: "int list"

abbreviation (input) ISIG :: "32 word" where "ISIG \<equiv> 0x1"
abbreviation (input) ICANON :: "32 word" where "ICANON \<equiv> 0x2"
abbreviation (input) ECHO :: "32 word" where "ECHO \<equiv> 0x8"
abbreviation (input) IEXTEN :: "32 word" where "IEXTEN \<equiv> 0x8000"
abbreviation (input) IGNBRK :: "32 word" where "IGNBRK \<equiv> 0x1"
abbreviation (input) BRKINT :: "32 word" where "BRKINT \<equiv> 0x2"
abbreviation (input) PARMRK :: "32 word" where "PARMRK \<equiv> 0x8"
abbreviation (input) INPCK :: "32 word" where "INPCK \<equiv> 0x10"
abbreviation (input) ISTRIP :: "32 word" where "ISTRIP \<equiv> 0x20"
abbreviation (input) INLCR :: "32 word" where "INLCR \<equiv> 0x40"
abbreviation (input) IGNCR :: "32 word" where "IGNCR \<equiv> 0x80"
abbreviation (input) ICRNL :: "32 word" where "ICRNL \<equiv> 0x100"
abbreviation (input) IXON :: "32 word" where "IXON \<equiv> 0x400"
abbreviation (input) OPOST :: "32 word" where "OPOST \<equiv> 0x1"
definition VTIME :: nat where "VTIME = 5"
definition VMIN :: nat where "VMIN = 6"
abbreviation (input) TCSAFLUSH :: int where "TCSAFLUSH \<equiv> 2"

text \<open>What tcgetattr stored, and the arguments of tcsetattr.\<close>

definition termios_of :: "ret \<Rightarrow> termios" where
  "termios_of r = \<lparr>c_iflag = word_of_int (ints r ! 0), c_oflag = word_of_int (ints r ! 1),
     c_cflag = word_of_int (ints r ! 2), c_lflag = word_of_int (ints r ! 3), c_cc = ints2 r\<rparr>"

definition tcsetattr :: "int \<Rightarrow> int \<Rightarrow> termios \<Rightarrow> syscall" where
  "tcsetattr fd act t = Sys (Tcsetattr fd act [c_iflag t, c_oflag t, c_cflag t, c_lflag t] (c_cc t))"

definition cbreak :: "termios \<Rightarrow> termios" where
  "cbreak t = t\<lparr>
     c_lflag := (c_lflag t AND NOT (ICANON OR ECHO)) OR ISIG,
     c_iflag := c_iflag t AND NOT ICRNL,
     c_cc := (c_cc t)[VMIN := 1, VTIME := 0]\<rparr>"

definition raw :: "termios \<Rightarrow> termios" where
  "raw t = t\<lparr>
     c_lflag := c_lflag t AND NOT (ICANON OR ISIG OR IEXTEN OR ECHO),
     c_iflag := c_iflag t AND NOT (BRKINT OR ICRNL OR IGNBRK OR IGNCR OR INLCR OR INPCK OR ISTRIP OR IXON OR PARMRK),
     c_oflag := c_oflag t AND NOT OPOST,
     c_cc := (c_cc t)[VMIN := 1, VTIME := 0]\<rparr>"

text \<open>\<open>return\<close> takes the result and what was stored through \<open>prevTermios\<close>, if it was.\<close>

definition ttySetCbreak :: "int \<Rightarrow> (int \<Rightarrow> termios option \<Rightarrow> prog) \<Rightarrow> prog" where
  "ttySetCbreak fd return =
     Call (Sys (Tcgetattr fd)) (\<lambda>g.
     if rv g = -1 then return (-1) None
     else let t = termios_of g in
     Call (tcsetattr fd TCSAFLUSH (cbreak t)) (\<lambda>s.
     if rv s = -1 then return (-1) (Some t) else return 0 (Some t)))"

definition ttySetRaw :: "int \<Rightarrow> (int \<Rightarrow> termios option \<Rightarrow> prog) \<Rightarrow> prog" where
  "ttySetRaw fd return =
     Call (Sys (Tcgetattr fd)) (\<lambda>g.
     if rv g = -1 then return (-1) None
     else let t = termios_of g in
     Call (tcsetattr fd TCSAFLUSH (raw t)) (\<lambda>s.
     if rv s = -1 then return (-1) (Some t) else return 0 (Some t)))"

section \<open>demo\_sigio.c\<close>

abbreviation (input) SIGIO :: int where "SIGIO \<equiv> 29"
abbreviation (input) SA_RESTART :: flags where "SA_RESTART \<equiv> 0x10000000"
abbreviation (input) O_ASYNC :: flags where "O_ASYNC \<equiv> 0x2000"
abbreviation (input) O_NONBLOCK :: flags where "O_NONBLOCK \<equiv> 0x800"

text \<open>
  The inner loop \<open>while (read(...) > 0 && !done)\<close>: the read is performed before \<open>done\<close> is tested.
\<close>

fun sigio_read :: "nat \<Rightarrow> int \<Rightarrow> bool \<Rightarrow> (bool \<Rightarrow> prog) \<Rightarrow> prog" where
  "sigio_read 0 cnt finished k = Halt Unfinished"
| "sigio_read (Suc n) cnt finished k =
     Call (Io (Read 0 1)) (\<lambda>r.
     if rv r > 0 \<and> \<not> finished then
       printf (''cnt='' @ show_int cnt @ ''; read '' @ [byte0 r] @ [NL]) (
       sigio_read n cnt (byte0 r = CHR ''#'') k)
     else k finished)"

text \<open>
  The main loop; \<open>arrived cnt\<close> says whether the handler has set \<open>gotSigio\<close> by the test of
  iteration \<open>cnt\<close>. The busy loop that slows it down has no effect.
\<close>

fun sigio_loop :: "(nat \<Rightarrow> bool) \<Rightarrow> nat \<Rightarrow> nat \<Rightarrow> nat \<Rightarrow> prog \<Rightarrow> prog" where
  "sigio_loop arrived m 0 cnt finish = Halt Unfinished"
| "sigio_loop arrived m (Suc n) cnt finish =
     (let next = (\<lambda>finished.
            if int cnt = INT_MAX then Halt Undefined
            else if finished then finish else sigio_loop arrived m n (Suc cnt) finish) in
      if arrived cnt then sigio_read m (int cnt) False next else next False)"

definition demo_sigio_main :: "(nat \<Rightarrow> bool) \<Rightarrow> nat \<Rightarrow> nat \<Rightarrow> prog" where
  "demo_sigio_main arrived m n =
     Call (Sig (Sigaction SIGIO ''sigioHandler'' SA_RESTART {})) (\<lambda>a.
     if rv a = -1 then perror ''sigaction'' (exit EXIT_FAILURE)
     else Call (Proc Getpid) (\<lambda>p.
     Call (Io (Setown 0 (rv p))) (\<lambda>o1.
     if rv o1 = -1 then perror ''fcntl(F_SETOWN)'' (exit EXIT_FAILURE)
     else Call (Io (Getfl 0)) (\<lambda>g.
     Call (Io (Setfl 0 (word_of_int (rv g) OR O_ASYNC OR O_NONBLOCK))) (\<lambda>s.
     if rv s = -1 then perror ''fcntl(SET_FL)'' (exit EXIT_FAILURE)
     else ttySetCbreak 0 (\<lambda>v origTermios.
     if v = -1 then perror ''ttySetCBreak'' (exit EXIT_FAILURE)
     else sigio_loop arrived m n 0 (
       Call (tcsetattr 0 TCSAFLUSH (the origTermios)) (\<lambda>t.
       if rv t = -1 then perror ''tcsetattr'' (exit EXIT_FAILURE)
       else exit EXIT_SUCCESS))))))))"

section \<open>Properties\<close>

lemma bit_flag:
  "bit (0x1 :: 32 word) n = (n = 0)" "bit (0x2 :: 32 word) n = (n = 1)"
  "bit (0x8 :: 32 word) n = (n = 3)" "bit (0x10 :: 32 word) n = (n = 4)" "bit (0x20 :: 32 word) n = (n = 5)"
  "bit (0x40 :: 32 word) n = (n = 6)" "bit (0x80 :: 32 word) n = (n = 7)" "bit (0x100 :: 32 word) n = (n = 8)"
  "bit (0x400 :: 32 word) n = (n = 10)" "bit (0x8000 :: 32 word) n = (n = 15)"
proof -
  have e: "bit ((2 :: 32 word) ^ m) n = (n = m \<and> m < 32)" for m
    by (auto simp: bit_exp_iff)
  show "bit (0x1 :: 32 word) n = (n = 0)" "bit (0x2 :: 32 word) n = (n = 1)"
    "bit (0x8 :: 32 word) n = (n = 3)" "bit (0x10 :: 32 word) n = (n = 4)" "bit (0x20 :: 32 word) n = (n = 5)"
    "bit (0x40 :: 32 word) n = (n = 6)" "bit (0x80 :: 32 word) n = (n = 7)" "bit (0x100 :: 32 word) n = (n = 8)"
    "bit (0x400 :: 32 word) n = (n = 10)" "bit (0x8000 :: 32 word) n = (n = 15)"
    using e [of 0] e [of 1] e [of 3] e [of 4] e [of 5] e [of 6] e [of 7] e [of 8] e [of 10] e [of 15] by simp_all
qed

lemma bit_cleared: "bit (w AND NOT m) n = (bit w n \<and> \<not> bit m n)" for w m :: "32 word"
  using bit_imp_le_length [of w n] by (auto simp: bit_simps)

lemmas bit_flags = bit_cleared bit_or_iff bit_flag

lemma mode_fields:
  "c_lflag (cbreak t) = (c_lflag t AND NOT (ICANON OR ECHO)) OR ISIG"
  "c_iflag (cbreak t) = c_iflag t AND NOT ICRNL"
  "c_lflag (raw t) = c_lflag t AND NOT (ICANON OR ISIG OR IEXTEN OR ECHO)"
  "c_iflag (raw t) = c_iflag t AND NOT (BRKINT OR ICRNL OR IGNBRK OR IGNCR OR INLCR OR INPCK OR ISTRIP OR IXON OR PARMRK)"
  "c_oflag (raw t) = c_oflag t AND NOT OPOST"
  by (simp_all add: cbreak_def raw_def)

text \<open>
  (C34) The terminal modes set exactly the flags they should. Cbreak turns ICANON, ECHO and ICRNL
  off and ISIG on and leaves every other bit as it was; raw mode turns off ICANON, ISIG, IEXTEN,
  ECHO, the nine input flags of the code and OPOST, and nothing else; both select
  character-at-a-time blocking input, and doing either twice changes nothing more.
\<close>

theorem tty_modes_exact:
  "bit (c_lflag (cbreak t)) n = (if n \<in> {1, 3} then False else if n = 0 then True else bit (c_lflag t) n) \<and>
   bit (c_iflag (cbreak t)) n = (if n = 8 then False else bit (c_iflag t) n) \<and>
   c_oflag (cbreak t) = c_oflag t \<and> c_cflag (cbreak t) = c_cflag t \<and>
   bit (c_lflag (raw t)) n = (if n \<in> {0, 1, 3, 15} then False else bit (c_lflag t) n) \<and>
   bit (c_iflag (raw t)) n = (if n \<in> {0, 1, 3, 4, 5, 6, 7, 8, 10} then False else bit (c_iflag t) n) \<and>
   bit (c_oflag (raw t)) n = (if n = 0 then False else bit (c_oflag t) n) \<and> c_cflag (raw t) = c_cflag t \<and>
   c_cc (cbreak t) = (c_cc t)[VMIN := 1, VTIME := 0] \<and> c_cc (raw t) = (c_cc t)[VMIN := 1, VTIME := 0] \<and>
   cbreak (cbreak t) = cbreak t \<and> raw (raw t) = raw t"
proof -
  have bits: "bit (c_lflag (cbreak t)) n = (if n \<in> {1, 3} then False else if n = 0 then True else bit (c_lflag t) n)"
    "bit (c_iflag (cbreak t)) n = (if n = 8 then False else bit (c_iflag t) n)"
    "bit (c_lflag (raw t)) n = (if n \<in> {0, 1, 3, 15} then False else bit (c_lflag t) n)"
    "bit (c_iflag (raw t)) n = (if n \<in> {0, 1, 3, 4, 5, 6, 7, 8, 10} then False else bit (c_iflag t) n)"
    "bit (c_oflag (raw t)) n = (if n = 0 then False else bit (c_oflag t) n)" for t n
    unfolding mode_fields bit_flags by auto
  have words: "w = v \<longleftrightarrow> (\<forall>n. bit w n = bit v n)" for w v :: "32 word"
    using bit_imp_le_length [of w] bit_imp_le_length [of v] by (auto simp: bit_eq_iff)
  have "cbreak (cbreak t) = cbreak t"
    by (rule termios.equality) (simp_all only: words bits, simp_all add: cbreak_def VMIN_def VTIME_def list_update_swap)
  moreover have "raw (raw t) = raw t"
    by (rule termios.equality) (simp_all only: words bits, simp_all add: raw_def VMIN_def VTIME_def list_update_swap)
  moreover note bits [of t n]
  ultimately show ?thesis by (simp add: cbreak_def raw_def)
qed

text \<open>The loops end in what follows them, or run on.\<close>

lemma sigio_read_ends:
  "outcome K (sigio_read m cnt b q) k = Unfinished \<or> (\<exists>b' k'. reaches K (sigio_read m cnt b q) k (q b') k')"
proof (induction m arbitrary: b k)
  case (Suc m)
  let ?r = "fst (K k (Io (Read 0 1)))" and ?k = "snd (K k (Io (Read 0 1)))"
  show ?case
  proof (cases "rv ?r > 0 \<and> \<not> b")
    case True
    then have step: "reaches K (sigio_read (Suc m) cnt b q) k (sigio_read m cnt (byte0 ?r = CHR ''#'') q) ?k"
      by (auto intro!: reaches_Call reaches_Put)
    with Suc.IH [of "byte0 ?r = CHR ''#''" ?k] show ?thesis
      by (metis reaches_outcome reaches_trans)
  next
    case False
    then have "reaches K (sigio_read (Suc m) cnt b q) k (q b) ?k" by (auto intro!: reaches_Call)
    then show ?thesis by blast
  qed
qed simp

lemma sigio_loop_ends:
  "outcome K (sigio_loop arrived m n cnt q) k \<in> {Unfinished, Undefined} \<or> (\<exists>k'. reaches K (sigio_loop arrived m n cnt q) k q k')"
proof (induction n arbitrary: cnt k)
  case (Suc n)
  let ?q = "\<lambda>finished. if int cnt = INT_MAX then Halt Undefined else if finished then q else sigio_loop arrived m n (Suc cnt) q"
  have onward: "outcome K (?q f) k \<in> {Unfinished, Undefined} \<or> (\<exists>k'. reaches K (?q f) k q k')" for f k
    using Suc.IH [of "Suc cnt" k] by auto
  have "outcome K (sigio_read m (int cnt) False ?q) k \<in> {Unfinished, Undefined} \<or>
      (\<exists>k'. reaches K (sigio_read m (int cnt) False ?q) k q k')"
    using sigio_read_ends [of K m "int cnt" False ?q k]
  proof
    assume "\<exists>b k'. reaches K (sigio_read m (int cnt) False ?q) k (?q b) k'"
    then obtain b k' where r: "reaches K (sigio_read m (int cnt) False ?q) k (?q b) k'" by blast
    show ?thesis using onward [of b k'] reaches_trans [OF r] unfolding reaches_outcome [OF r] by blast
  qed simp
  then show ?case using onward [of False k] unfolding sigio_loop.simps Let_def by presburger
qed simp

text \<open>
  (C35) The terminal is left as it was found: whenever demo\_sigio.c ends with status 0, whatever
  happened on the way, its last call sets the attributes of standard input back to those that
  tcgetattr had reported.
\<close>

theorem demo_sigio_restores_terminal:
  assumes "outcome K (demo_sigio_main arrived m n) k = Exited 0"
  shows "\<exists>g. Did (Sys (Tcgetattr 0)) g \<in> set (trace K (demo_sigio_main arrived m n) k) \<and>
    last (calls (trace K (demo_sigio_main arrived m n) k)) = tcsetattr 0 TCSAFLUSH (termios_of g)"
proof -
  define restore where "restore g = Call (tcsetattr 0 TCSAFLUSH (termios_of g)) (\<lambda>t.
      if rv t = -1 then perror ''tcsetattr'' (exit EXIT_FAILURE) else exit EXIT_SUCCESS)" for g
  have last_restore: "calls (trace K (restore g) k) = [tcsetattr 0 TCSAFLUSH (termios_of g)]" for g k
    by (simp add: restore_def)
  have loop: "\<exists>cs. calls (trace K (sigio_loop arrived m n 0 (restore g)) k) = cs @ [tcsetattr 0 TCSAFLUSH (termios_of g)]"
    if "outcome K (sigio_loop arrived m n 0 (restore g)) k = Exited 0" for g k
    using sigio_loop_ends [of K arrived m n 0 "restore g" k] that
    by (auto simp: reaches_def last_restore dest!: leads_run)
  have main: "demo_sigio_main arrived m n =
     Call (Sig (Sigaction SIGIO ''sigioHandler'' SA_RESTART {})) (\<lambda>a.
     if rv a = -1 then perror ''sigaction'' (exit EXIT_FAILURE)
     else Call (Proc Getpid) (\<lambda>p.
     Call (Io (Setown 0 (rv p))) (\<lambda>o1.
     if rv o1 = -1 then perror ''fcntl(F_SETOWN)'' (exit EXIT_FAILURE)
     else Call (Io (Getfl 0)) (\<lambda>g.
     Call (Io (Setfl 0 (word_of_int (rv g) OR O_ASYNC OR O_NONBLOCK))) (\<lambda>s.
     if rv s = -1 then perror ''fcntl(SET_FL)'' (exit EXIT_FAILURE)
     else Call (Sys (Tcgetattr 0)) (\<lambda>g.
     if rv g = -1 then perror ''ttySetCBreak'' (exit EXIT_FAILURE)
     else Call (tcsetattr 0 TCSAFLUSH (cbreak (termios_of g))) (\<lambda>s.
     if rv s = -1 then perror ''ttySetCBreak'' (exit EXIT_FAILURE)
     else sigio_loop arrived m n 0 (restore g))))))))"
    by (simp add: demo_sigio_main_def ttySetCbreak_def Let_def restore_def cong: if_cong)
  show ?thesis using assms unfolding main by (auto split: if_splits dest!: loop)
qed

lemma demo_sigio_restores_terminal_witness:
  "\<exists>g. Did (Sys (Tcgetattr 0)) g \<in> set (trace script (demo_sigio_main (\<lambda>_. True) 9 9)
      [ok 0, ok 7, ok 0, ok 2, ok 0, (ok 0)\<lparr>ints := [0, 0, 0, 0]\<rparr>, ok 0, got ''#'', fail EAGAIN, ok 0])"
proof -
  have "outcome script (demo_sigio_main (\<lambda>_. True) 9 9)
      [ok 0, ok 7, ok 0, ok 2, ok 0, (ok 0)\<lparr>ints := [0, 0, 0, 0]\<rparr>, ok 0, got ''#'', fail EAGAIN, ok 0] = Exited 0"
    by (simp add: demo_sigio_main_def ttySetCbreak_def Let_def byte0_def INT_MAX_def eval_nat_numeral)
  from demo_sigio_restores_terminal [OF this] show ?thesis by blast
qed

text \<open>
  The inner loop reads before it tests \<open>done\<close>: after the hash character one more byte is taken
  from the terminal and thrown away.
\<close>

lemma sigio_drops_byte:
  "run script (sigio_read (Suc (Suc m)) cnt False q) (got ''#'' # got ''x'' # rs) =
     ([Did (Io (Read 0 1)) (got ''#''), Emit Stdout (''cnt='' @ show_int cnt @ ''; read #\<newline>''),
       Did (Io (Read 0 1)) (got ''x'')] @ trace script (q True) rs,
      outcome script (q True) rs, final script (q True) rs)"
  by (simp add: byte0_def run_parts)

end
