(* ===== verification/Event_IO.thy ===== *)
theory Event_IO
  imports Syscalls
begin

unbundle bit_operations_syntax

text \<open>
  Waiting for several descriptors: src/alternative\_io/t\_select.c, poll\_pipes.c and epoll\_input.c.
  A descriptor set is a set of ints; FD\_SET on a descriptor outside of 0..FD\_SETSIZE-1 is
  undefined.
\<close>

section \<open>t\_select.c\<close>

definition FD_SETSIZE :: int where "FD_SETSIZE = 1024"

definition select_usageError :: "string \<Rightarrow> prog" where
  "select_usageError programName =
     eprintf (''Usage:'' @ [TAB] @ programName @ '' {timeout|-} fd-num[rw]...\<newline>'')
     (eprintf (TAB # ''- means infinite timeout; \<newline>'')
     (eprintf (TAB # ''r = monitor for read\<newline>'')
     (eprintf (TAB # ''w = monitor for write\<newline>'')
     (eprintf (TAB # ''e.g.: '' @ programName @ '' - 0rw 1w\<newline>'') (exit EXIT_FAILURE)))))"

text \<open>\<open>sscanf(arg, "%d%2[rw]", &fd, buf) == 2\<close>: the number and the letters, or None.\<close>

definition scan_fd :: "string \<Rightarrow> (int \<times> string) option" where
  "scan_fd arg =
     (let (v, rest) = strtol arg; buf = takeWhile (\<lambda>c. c \<in> {CHR ''r'', CHR ''w''}) (take 2 rest)
      in if rest = arg \<or> buf = [] then None else Some (to_int v, buf))"

definition FD_SET :: "int \<Rightarrow> int set \<Rightarrow> (int set \<Rightarrow> prog) \<Rightarrow> prog" where
  "FD_SET fd s f = (if 0 \<le> fd \<and> fd < FD_SETSIZE then f (insert fd s) else Halt Undefined)"

fun select_args :: "string \<Rightarrow> string list \<Rightarrow> int \<Rightarrow> int set \<Rightarrow> int set \<Rightarrow>
    (int \<Rightarrow> int set \<Rightarrow> int set \<Rightarrow> prog) \<Rightarrow> prog" where
  "select_args self [] nfds rs ws f = f nfds rs ws"
| "select_args self (arg # args) nfds rs ws f =
     (case scan_fd arg of
        None \<Rightarrow> select_usageError self
      | Some (fd, buf) \<Rightarrow>
          if fd \<ge> FD_SETSIZE then
            eprintf (''file descriptor exceeds limit ('' @ show_int FD_SETSIZE @ '')\<newline>'') (exit EXIT_FAILURE)
          else
            let nfds = (if fd \<ge> nfds then fd + 1 else nfds) in
            (if strchr_found buf (CHR ''r'') then FD_SET fd rs else (\<lambda>f. f rs)) (\<lambda>rs.
            (if strchr_found buf (CHR ''w'') then FD_SET fd ws else (\<lambda>f. f ws)) (\<lambda>ws.
            select_args self args nfds rs ws f)))"

fun select_show :: "int list \<Rightarrow> ret \<Rightarrow> prog \<Rightarrow> prog" where
  "select_show [] r p = p"
| "select_show (fd # fds) r p =
     printf (show_int fd @ '': '' @ (if fd \<in> set (ints r) then ''r'' else []) @
             (if fd \<in> set (ints2 r) then ''w'' else []) @ [NL]) (select_show fds r p)"

text \<open>
  \<open>select\<close> leaves the ready descriptors in \<open>ints\<close> and \<open>ints2\<close> and the rest of the timeout, a
  \<open>struct timeval\<close> of two 64-bit integers, in \<open>bytes\<close>.
\<close>

definition long_of_bytes :: "string \<Rightarrow> int" where
  "long_of_bytes b = (int (le_decode (take 8 b)) + 2 ^ 63) mod 2 ^ 64 - 2 ^ 63"

definition timeval_text :: "string \<Rightarrow> string" where
  "timeval_text b =
     (let sec = long_of_bytes b; usec = long_of_bytes (drop 8 b)
      in show_int sec @ ''.'' @ pad_left (CHR ''0'') 3 (show_int (sgn usec * (\<bar>usec\<bar> div 1000))))"

definition t_select_main :: "string list \<Rightarrow> prog" where
  "t_select_main argv =
     (if length argv < 2 \<or> argv ! 1 = ''--help'' then select_usageError (argv ! 0)
      else
        let pto = (if argv ! 1 = ''-'' then None else Some (atol (argv ! 1))) in
        select_args (argv ! 0) (drop 2 argv) 0 {} {} (\<lambda>nfds rs ws.
        Call (Ev (Select nfds rs ws pto)) (\<lambda>r.
        if rv r = -1 then perror ''select'' (exit EXIT_FAILURE)
        else printf (''ready = '' @ show_int (rv r) @ [NL]) (
          select_show (map int [0..<nat nfds]) r (
          (if pto \<noteq> None then
             Put Stdout (''timeout after select() (as it returned before timeout): '' @ timeval_text (bytes r) @ [NL])
           else (\<lambda>p. p)) (exit EXIT_SUCCESS))))))"

section \<open>poll\_pipes.c\<close>

abbreviation (input) POLLIN :: flags where "POLLIN \<equiv> 1"

text \<open>\<open>pfds\<close> lists the pipes created so far; \<open>j\<close> is the number of the next one.\<close>

fun make_pipes :: "nat \<Rightarrow> nat \<Rightarrow> (int \<times> int) list \<Rightarrow> ((int \<times> int) list \<Rightarrow> prog) \<Rightarrow> prog" where
  "make_pipes 0 j pfds f = f pfds"
| "make_pipes (Suc n) j pfds f =
     Call (Io Pipe) (\<lambda>p.
     if rv p = -1 then eprintf (''pipe '' @ show_nat j) (exit EXIT_FAILURE)
     else make_pipes n (Suc j) (pfds @ [(ints p ! 0, ints p ! 1)]) f)"

text \<open>\<open>random() % numPipes\<close> is undefined when \<open>numPipes\<close> is 0.\<close>

fun random_writes :: "nat \<Rightarrow> (int \<times> int) list \<Rightarrow> prog \<Rightarrow> prog" where
  "random_writes 0 pfds p = p"
| "random_writes (Suc n) pfds p =
     Call (Ev Random) (\<lambda>r.
     if pfds = [] then Halt Undefined
     else let (rd, wr) = pfds ! nat (rv r mod int (length pfds)) in
       printf (''Writing to fd: '' @ pad_left (CHR '' '') 3 (show_int wr) @
               '' (read fd: '' @ pad_left (CHR '' '') 3 (show_int rd) @ '')\<newline>'') (
       Call (Io (Write wr ''a'')) (\<lambda>w.
       if rv w = -1 then eprintf (''write '' @ show_int wr) (exit EXIT_FAILURE)
       else random_writes n pfds p)))"

fun show_readable :: "(int \<times> int) list \<Rightarrow> prog \<Rightarrow> prog" where
  "show_readable [] p = p"
| "show_readable ((fd, revents) # rest) p =
     (if (word_of_int revents :: flags) AND POLLIN \<noteq> 0
      then Put Stdout (''Readable: '' @ pad_left (CHR '' '') 3 (show_int fd) @ [NL]) else (\<lambda>p. p))
     (show_readable rest p)"

definition poll_pipes_main :: "string list \<Rightarrow> prog" where
  "poll_pipes_main argv =
     (if length argv < 2 \<or> argv ! 1 = ''--help'' then
        eprintf (argv ! 0 @ '' num-pipes [num-writes]\<newline>'') (exit EXIT_FAILURE)
      else
        let numPipes = atoi (argv ! 1) in
        Call (Mem (Calloc numPipes 8)) (\<lambda>a.
        if rv a = 0 then perror ''calloc'' (exit EXIT_FAILURE)
        else Call (Mem (Calloc numPipes 8)) (\<lambda>b.
        if rv b = 0 then perror ''calloc'' (exit EXIT_FAILURE)
        else make_pipes (nat numPipes) 0 [] (\<lambda>pfds.
          let numWrites = (if length argv > 2 then atoi (argv ! 2) else 1) in
          Call (Tm Time) (\<lambda>t.
          Call (Ev (Srandom (to_int (rv t)))) (\<lambda>_.
          random_writes (nat numWrites) pfds (
          Call (Ev (Poll (map fst pfds) POLLIN 0)) (\<lambda>r.
          if rv r = -1 then perror ''poll'' (exit EXIT_FAILURE)
          else printf (''poll() returned: '' @ show_int (rv r) @ [NL]) (
            show_readable (zip (map fst pfds) (ints r)) (exit EXIT_SUCCESS))))))))))"

section \<open>epoll\_input.c\<close>

definition EPOLL_MAX_BUF :: int where "EPOLL_MAX_BUF = 1000"
definition MAX_EVENTS :: int where "MAX_EVENTS = 5"

abbreviation (input) EPOLLIN :: flags where "EPOLLIN \<equiv> 0x1"
abbreviation (input) EPOLLERR :: flags where "EPOLLERR \<equiv> 0x8"
abbreviation (input) EPOLLHUP :: flags where "EPOLLHUP \<equiv> 0x10"

fun epoll_open :: "int \<Rightarrow> string list \<Rightarrow> prog \<Rightarrow> prog" where
  "epoll_open epfd [] p = p"
| "epoll_open epfd (arg # args) p =
     Call (Io (Open arg 0 0)) (\<lambda>o1.
     if rv o1 = -1 then perror ''open'' (exit EXIT_FAILURE)
     else printf (''Opened '' @ [CHR 0x22] @ arg @ [CHR 0x22] @ '' on fd '' @ show_int (rv o1) @ [NL]) (
       Call (Ev (Epoll_add epfd (rv o1) EPOLLIN)) (\<lambda>c.
       if rv c = -1 then perror ''epoll_ctl'' (exit EXIT_FAILURE)
       else epoll_open epfd args p)))"

text \<open>The events of one epoll\_wait; \<open>f\<close> takes the number of open descriptors that is left.\<close>

fun epoll_events :: "(int \<times> flags) list \<Rightarrow> int \<Rightarrow> (int \<Rightarrow> prog) \<Rightarrow> prog" where
  "epoll_events [] numOpenFds f = f numOpenFds"
| "epoll_events ((fd, ev) # evs) numOpenFds f =
     printf (''  fd='' @ show_int fd @ ''; events: '' @
             (if ev AND EPOLLIN \<noteq> 0 then ''EPOLLIN '' else []) @
             (if ev AND EPOLLHUP \<noteq> 0 then ''EPOLLHUP '' else []) @
             (if ev AND EPOLLERR \<noteq> 0 then ''EPOLLERR'' else []) @ [NL])
     (if ev AND EPOLLIN \<noteq> 0 then
        Call (Io (Read fd EPOLL_MAX_BUF)) (\<lambda>s.
        if rv s = -1 then perror ''read'' (exit EXIT_FAILURE)
        else printf (''  read '' @ show_int (rv s) @ '' bytes: '' @ take (nat (rv s)) (cstr (bytes s)) @ [NL])
               (epoll_events evs numOpenFds f))
      else if ev AND (EPOLLHUP OR EPOLLERR) \<noteq> 0 then
        printf (''  closing fd '' @ show_int fd @ [NL]) (
        Call (Io (Close fd)) (\<lambda>c.
        if rv c = -1 then perror ''close'' (exit EXIT_FAILURE)
        else epoll_events evs (numOpenFds - 1) f))
      else epoll_events evs numOpenFds f)"

fun epoll_loop :: "nat \<Rightarrow> int \<Rightarrow> int \<Rightarrow> prog" where
  "epoll_loop 0 epfd numOpenFds = Halt Unfinished"
| "epoll_loop (Suc n) epfd numOpenFds =
     (if numOpenFds > 0 then
        printf ''About to call epoll_wait()\<newline>'' (
        Call (Ev (Epoll_wait epfd MAX_EVENTS (-1))) (\<lambda>r.
        if rv r = -1 then
          (if err r = EINTR then epoll_loop n epfd numOpenFds
           else perror ''epoll-wait'' (exit EXIT_FAILURE))
        else printf (''Ready: '' @ show_int (rv r) @ [NL])
          (epoll_events (take (nat (rv r)) (zip (ints r) (map word_of_int (ints2 r)))) numOpenFds (\<lambda>m.
             epoll_loop n epfd m))))
      else printf ''All file descriptors closed; bye\<newline>'' (exit EXIT_SUCCESS))"

definition epoll_input_main :: "nat \<Rightarrow> string list \<Rightarrow> prog" where
  "epoll_input_main n argv =
     (if length argv < 2 \<or> argv ! 1 = ''--help'' then eprintf (argv ! 0 @ '' file....\<newline>'') (exit EXIT_FAILURE)
      else Call (Ev (Epoll_create (int (length argv) - 1))) (\<lambda>e.
        if rv e = -1 then perror ''epoll_create'' (exit EXIT_FAILURE)
        else epoll_open (rv e) (drop 1 argv) (epoll_loop n (rv e) (int (length argv) - 1))))"

section \<open>Properties\<close>

text \<open>The descriptors a list of arguments asks for, with their letters; None when one is malformed.\<close>

fun scan_all :: "string list \<Rightarrow> (int \<times> string) list option" where
  "scan_all [] = Some []"
| "scan_all (a # as) = (case (scan_fd a, scan_all as) of (Some x, Some xs) \<Rightarrow> Some (x # xs) | _ \<Rightarrow> None)"

definition asked :: "char \<Rightarrow> (int \<times> string) list \<Rightarrow> int set" where
  "asked c xs = fst ` set (filter (\<lambda>(fd, buf). c \<in> set buf) xs)"

definition nfds_of :: "(int \<times> string) list \<Rightarrow> int" where
  "nfds_of xs = foldl (\<lambda>n (fd, buf). max n (fd + 1)) 0 xs"

lemma select_args_sets:
  assumes "scan_all args = Some xs" and "\<forall>(fd, buf) \<in> set xs. 0 \<le> fd \<and> fd < FD_SETSIZE"
  shows "select_args self args nfds rs ws f =
    f (foldl (\<lambda>n (fd, buf). max n (fd + 1)) nfds xs) (rs \<union> asked (CHR ''r'') xs) (ws \<union> asked (CHR ''w'') xs)"
  using assms
proof (induction args arbitrary: xs nfds rs ws)
  case Nil
  then show ?case by (simp add: asked_def)
next
  case (Cons a as)
  then obtain fd buf ys where x: "scan_fd a = Some (fd, buf)" "scan_all as = Some ys" "xs = (fd, buf) # ys"
    by (auto split: option.splits prod.splits)
  with Cons.prems have fd: "0 \<le> fd" "fd < FD_SETSIZE" by auto
  have n: "(if nfds \<le> fd then fd + 1 else nfds) = max nfds (fd + 1)" by auto
  from Cons.IH [OF x(2)] Cons.prems x fd n show ?case
    by (auto simp: Let_def FD_SET_def asked_def strchr_found_def)
qed

lemma nfds_of_bounds:
  "0 \<le> nfds_of xs \<and> (\<forall>(fd, buf) \<in> set xs. fd < nfds_of xs)"
proof -
  have "n \<le> foldl (\<lambda>n (fd, buf). max n (fd + 1)) n xs \<and>
      (\<forall>(fd, buf) \<in> set xs. fd < foldl (\<lambda>n (fd, buf). max n (fd + 1)) n xs)" for n :: int
  proof (induction xs arbitrary: n)
    case (Cons x xs)
    obtain fd buf where x: "x = (fd, buf)" by force
    from Cons [of "max n (fd + 1)"] x show ?case by auto
  qed simp
  from this [of 0] show ?thesis by (simp add: nfds_of_def)
qed

text \<open>
  t\_select.c asks select for what its arguments say: when every argument is a number below
  FD\_SETSIZE, not negative, followed by r, w or both, its first call is select with exactly the
  descriptors marked r in the first set, those marked w in the second, and an nfds above all of
  them; a dash as timeout waits forever.
\<close>

theorem t_select_asks:
  assumes "scan_all args = Some xs" and "\<forall>(fd, buf) \<in> set xs. 0 \<le> fd \<and> fd < FD_SETSIZE"
    and "timeout \<noteq> ''--help''"
  shows "hd (calls (trace K (t_select_main (self # timeout # args)) k)) =
      Ev (Select (nfds_of xs) {fd. \<exists>buf. (fd, buf) \<in> set xs \<and> CHR ''r'' \<in> set buf}
        {fd. \<exists>buf. (fd, buf) \<in> set xs \<and> CHR ''w'' \<in> set buf}
        (if timeout = ''-'' then None else Some (atol timeout))) \<and>
    (\<forall>(fd, buf) \<in> set xs. fd < nfds_of xs)"
proof -
  have "asked c xs = {fd. \<exists>buf. (fd, buf) \<in> set xs \<and> c \<in> set buf}" for c
    by (force simp: asked_def)
  with assms(3) nfds_of_bounds [of xs] show ?thesis
    by (simp add: t_select_main_def Let_def select_args_sets [OF assms(1,2)] nfds_of_def)
qed

lemma t_select_asks_witness:
  "hd (calls (trace script (t_select_main [''t_select'', ''-'', ''0rw'', ''4w'']) [])) =
     Ev (Select 5 {0} {0, 4} None)"
proof -
  have scan: "scan_all [''0rw'', ''4w''] = Some [(0, ''rw''), (4, ''w'')]" by code_simp
  have "{fd :: int. \<exists>buf. (fd, buf) \<in> set [(0, ''rw''), (4, ''w'')] \<and> CHR ''r'' \<in> set buf} = {0}"
    "{fd :: int. \<exists>buf. (fd, buf) \<in> set [(0, ''rw''), (4, ''w'')] \<and> CHR ''w'' \<in> set buf} = {0, 4}"
    by auto
  then show ?thesis
    using t_select_asks [OF scan, of "''-''" script "''t_select''" "[]"]
    by (simp add: FD_SETSIZE_def nfds_of_def)
qed

text \<open>
  A negative descriptor passes every check of t\_select.c and reaches FD\_SET, outside of the
  descriptor set; and poll\_pipes.c with zero pipes divides by zero at its first write.
\<close>

theorem event_io_undefined:
  "outcome K (t_select_main [self, ''-'', ''-1r'']) k = Undefined \<and>
   outcome script (poll_pipes_main [self, ''0'']) [ok 1, ok 1, ok 0, ok 0, ok 5] = Undefined"
proof -
  have "scan_fd ''-1r'' = Some (-1, ''r'')" "atoi ''0'' = 0" by code_simp+
  then show ?thesis
    by (simp add: t_select_main_def poll_pipes_main_def FD_SET_def FD_SETSIZE_def strchr_found_def Let_def)
qed

text \<open>The calls of close in a run.\<close>

definition closes :: "event list \<Rightarrow> nat" where
  "closes tr = length (filter (\<lambda>c. case c of Io (Close fd) \<Rightarrow> True | _ \<Rightarrow> False) (calls tr))"

lemma closes_simps [simp]:
  "closes [] = 0"
  "closes (Emit q s # es) = closes es"
  "closes (Did c r # es) = (case c of Io (Close fd) \<Rightarrow> Suc (closes es) | _ \<Rightarrow> closes es)"
  by (auto simp: closes_def split: syscall.splits io_call.splits)

lemma epoll_events_closes:
  assumes "outcome K (epoll_events evs m f) k = Exited 0"
  shows "\<exists>i k'. outcome K (f (m - int i)) k' = Exited 0 \<and>
    closes (trace K (epoll_events evs m f) k) = i + closes (trace K (f (m - int i)) k')"
  using assms
proof (induction evs arbitrary: m k)
  case Nil
  then show ?case by (intro exI [of _ 0] exI [of _ k]) simp
next
  case (Cons x evs)
  obtain fd ev where x: "x = (fd, ev)" by force
  have step: "\<exists>i k'. outcome K (f (m - int i)) k' = Exited 0 \<and> Suc n = i + closes (trace K (f (m - int i)) k')"
    if "\<exists>i k'. outcome K (f (m - 1 - int i)) k' = Exited 0 \<and> n = i + closes (trace K (f (m - 1 - int i)) k')" for n
  proof -
    from that obtain i k' where "outcome K (f (m - 1 - int i)) k' = Exited 0"
      "n = i + closes (trace K (f (m - 1 - int i)) k')" by blast
    then show ?thesis by (intro exI [of _ "Suc i"] exI [of _ k']) (simp add: algebra_simps)
  qed
  from Cons.prems show ?case
    unfolding x using Cons.IH step by (auto split: if_splits)
qed

lemma epoll_loop_closes:
  "outcome K (epoll_loop n epfd m) k = Exited 0 \<Longrightarrow> m \<le> int (closes (trace K (epoll_loop n epfd m) k))"
proof (induction n arbitrary: m k)
  case (Suc n)
  show ?case
  proof (cases "m > 0")
    case True
    let ?c = "Ev (Epoll_wait epfd MAX_EVENTS (-1))"
    obtain r k1 where r: "K k ?c = (r, k1)" by force
    show ?thesis
    proof (cases "rv r = -1")
      case True
      with Suc r \<open>m > 0\<close> show ?thesis by (auto split: if_splits)
    next
      case False
      let ?evs = "take (nat (rv r)) (zip (ints r) (map word_of_int (ints2 r)))"
      from False True Suc.prems r have "outcome K (epoll_events ?evs m (\<lambda>m. epoll_loop n epfd m)) k1 = Exited 0"
        by simp
      from epoll_events_closes [OF this] obtain i k' where
        i: "outcome K (epoll_loop n epfd (m - int i)) k' = Exited 0"
          "closes (trace K (epoll_events ?evs m (\<lambda>m. epoll_loop n epfd m)) k1) =
           i + closes (trace K (epoll_loop n epfd (m - int i)) k')" by blast
      from Suc.IH [OF i(1)] i(2) False True r show ?thesis by simp
    qed
  next
    case False
    then show ?thesis by simp
  qed
qed simp

text \<open>
  epoll\_input.c says goodbye only when it is done: in every run that ends with status 0 it has
  closed at least as many descriptors as it was given files.
\<close>

theorem epoll_input_closes_all:
  assumes "outcome K (epoll_input_main n argv) k = Exited 0"
  shows "length argv - 1 \<le> closes (trace K (epoll_input_main n argv) k)"
proof -
  have opens: "outcome K (epoll_open epfd as p) k = Exited 0 \<Longrightarrow>
      (\<And>k. outcome K p k = Exited 0 \<Longrightarrow> m \<le> closes (trace K p k)) \<Longrightarrow>
      m \<le> closes (trace K (epoll_open epfd as p) k)" for epfd as p k m
    by (induction as arbitrary: k) (auto split: if_splits)
  from assms show ?thesis
    using epoll_loop_closes [of K n _ "int (length argv) - 1"]
    by (fastforce simp: epoll_input_main_def split: if_splits intro!: opens)
qed

lemma epoll_input_closes_all_witness:
  "1 \<le> closes (trace script (epoll_input_main (Suc (Suc 0)) [''e'', ''fifo''])
     [ok 3, ok 4, ok 0, (ok 1)\<lparr>ints := [4], ints2 := [16]\<rparr>, ok 0])"
proof -
  have "outcome script (epoll_input_main (Suc (Suc 0)) [''e'', ''fifo''])
     [ok 3, ok 4, ok 0, (ok 1)\<lparr>ints := [4], ints2 := [16]\<rparr>, ok 0] = Exited 0"
    by (simp add: epoll_input_main_def)
  from epoll_input_closes_all [OF this] show ?thesis by simp
qed

end
