(* ===== verification/Getopt.thy ===== *)
theory Getopt
  imports Syscalls
begin

text \<open>
  \<open>getopt(3)\<close> of the C library, as the command-line programs use it. The result of the whole loop
  \<open>while ((opt = getopt(argc, argv, spec)) != -1)\<close> is the list of options in the order of the
  command line, each with its argument, and the remaining arguments, which GNU getopt moves behind
  the options: \<open>argv[optind + i]\<close> is the i-th of them and \<open>argc - optind\<close> is their number. An
  unknown option or a missing argument is the option \<open>?\<close>.

  The specification is an association list: whether each known option takes an argument.
\<close>

type_synonym optspec = "(char \<times> bool) list"

text \<open>One word of flags; the second component is an option that takes its argument from the next word.\<close>

fun getopt_word :: "optspec \<Rightarrow> string \<Rightarrow> (char \<times> string) list \<times> char option" where
  "getopt_word spec [] = ([], None)"
| "getopt_word spec (c # cs) =
     (case map_of spec c of
        None \<Rightarrow> let (os, p) = getopt_word spec cs in ((CHR ''?'', [c]) # os, p)
      | Some False \<Rightarrow> let (os, p) = getopt_word spec cs in ((c, []) # os, p)
      | Some True \<Rightarrow> if cs = [] then ([], Some c) else ([(c, cs)], None))"

definition is_option :: "string \<Rightarrow> bool" where
  "is_option a = (length a \<ge> 2 \<and> hd a = CHR ''-'')"

fun getopt :: "optspec \<Rightarrow> string list \<Rightarrow> (char \<times> string) list \<times> string list" where
  "getopt spec [] = ([], [])"
| "getopt spec (a # as) =
     (if a = ''--'' then ([], as)
      else if is_option a then
        (case getopt_word spec (tl a) of
           (os, None) \<Rightarrow> let (os', rest) = getopt spec as in (os @ os', rest)
         | (os, Some c) \<Rightarrow>
             (case as of
                [] \<Rightarrow> (os @ [(CHR ''?'', [c])], [])
              | b # bs \<Rightarrow> let (os', rest) = getopt spec bs in (os @ (c, b) # os', rest)))
      else let (os, rest) = getopt spec as in (os, a # rest))"

text \<open>What getopt itself prints on standard error for \<open>?\<close>.\<close>

definition getopt_message :: "optspec \<Rightarrow> string \<Rightarrow> string \<Rightarrow> string" where
  "getopt_message spec self c =
     (if map_of spec (hd c) = None then self @ '': invalid option -- '' @ [CHR 0x27] @ c @ [CHR 0x27] @ [NL]
      else self @ '': option requires an argument -- '' @ [CHR 0x27] @ c @ [CHR 0x27] @ [NL])"

text \<open>Without options everything is an operand.\<close>

lemma getopt_operands:
  "\<forall>a\<in>set as. \<not> is_option a \<Longrightarrow> getopt spec as = ([], as)"
proof (induction as)
  case (Cons a as)
  moreover have "a \<noteq> ''--''" using Cons.prems by (auto simp: is_option_def)
  ultimately show ?case by simp
qed simp

end
