(* ===== verification/Msg_Queue.thy ===== *)
theory Msg_Queue
  imports Getopt "HOL-Library.Multiset"
begin

unbundle bit_operations_syntax

text \<open>
  The POSIX message queue programs: src/posix\_message\_queues/pmsg\_create.c, pmsg\_getattr.c,
  pmsg\_receive.c, pmsg\_send.c, pmsg\_unlink.c, mq\_notify\_signal.c and mq\_notify\_thread.c.

  The locale \<open>mq_kernel\<close> is the contract of a message queue: a send within the limits of the queue puts
  a message behind those of the same or a higher priority, a receive takes the first one; \<open>mq_limits\<close>
  adds what happens to other sends.
\<close>

section \<open>The code\<close>

abbreviation (input) O_RDONLY :: flags where "O_RDONLY \<equiv> 0"
abbreviation (input) O_WRONLY :: flags where "O_WRONLY \<equiv> 1"
abbreviation (input) O_RDWR :: flags where "O_RDWR \<equiv> 2"
abbreviation (input) O_CREAT :: flags where "O_CREAT \<equiv> 0x40"
abbreviation (input) O_EXCL :: flags where "O_EXCL \<equiv> 0x80"
abbreviation (input) O_NONBLOCK :: flags where "O_NONBLOCK \<equiv> 0x800"
abbreviation (input) RW_USER :: flags where "RW_USER \<equiv> 0x180"

definition pmsg_create_usage :: "string \<Rightarrow> prog" where
  "pmsg_create_usage self =
     eprintf (''Usage: '' @ self @ '' [-cx] [-m maxmsg] [-s msgsize] mq-name [octal-perms]\<newline>'')
     (eprintf ''   -c      Create Queue (O_CREAT)\<newline>''
     (eprintf ''   -m  maxmsg  Set maximum # of messages\<newline>''
     (eprintf ''   -s msgsize Set maximum message size\<newline>''
     (eprintf ''   -x      Create exclusively (O_EXCL)\<newline>'' (exit EXIT_FAILURE)))))"

definition pmsg_create_spec :: optspec where
  "pmsg_create_spec = [(CHR ''c'', False), (CHR ''m'', True), (CHR ''s'', True), (CHR ''x'', False)]"

text \<open>The option loop; \<open>attrp\<close> is whether the attributes are passed at all.\<close>

fun pmsg_create_opts :: "string \<Rightarrow> (char \<times> string) list \<Rightarrow> flags \<Rightarrow> int \<Rightarrow> int \<Rightarrow> bool \<Rightarrow>
    (flags \<Rightarrow> (int \<times> int) option \<Rightarrow> prog) \<Rightarrow> prog" where
  "pmsg_create_opts self [] flags maxmsg msgsize attrp f =
     f flags (if attrp then Some (maxmsg, msgsize) else None)"
| "pmsg_create_opts self ((opt, optarg) # opts) flags maxmsg msgsize attrp f =
     (if opt = CHR ''c'' then pmsg_create_opts self opts (flags OR O_CREAT) maxmsg msgsize attrp f
      else if opt = CHR ''m'' then pmsg_create_opts self opts flags (atoi optarg) msgsize True f
      else if opt = CHR ''s'' then pmsg_create_opts self opts flags maxmsg (atoi optarg) True f
      else if opt = CHR ''x'' then pmsg_create_opts self opts (flags OR O_EXCL) maxmsg msgsize attrp f
      else eprintf (getopt_message pmsg_create_spec self optarg) (pmsg_create_usage self))"

definition pmsg_create_main :: "string list \<Rightarrow> prog" where
  "pmsg_create_main argv =
     (let (opts, rest) = getopt pmsg_create_spec (drop 1 argv) in
      pmsg_create_opts (argv ! 0) opts O_RDWR 10 2048 False (\<lambda>flags attrp.
      if rest = [] then pmsg_create_usage (argv ! 0)
      else
        let perms = (if length rest \<le> 1 then RW_USER else word_of_int (atoi (rest ! 1))) in
        Call (Ipc (Mq_open (rest ! 0) flags perms attrp)) (\<lambda>q.
        if rv q = -1 then perror ''mq_open'' (exit EXIT_FAILURE) else exit EXIT_SUCCESS)))"

definition mq_open :: "string \<Rightarrow> flags \<Rightarrow> syscall" where
  "mq_open name flags = Ipc (Mq_open name flags 0 None)"

definition pmsg_getattr_main :: "string list \<Rightarrow> prog" where
  "pmsg_getattr_main argv =
     (if length argv \<noteq> 2 \<or> argv ! 1 = ''--help'' then eprintf (argv ! 0 @ '' mq-name\<newline>'') (exit EXIT_FAILURE)
      else Call (mq_open (argv ! 1) O_RDONLY) (\<lambda>q.
      if rv q = -1 then perror ''mq open'' (exit EXIT_FAILURE)
      else Call (Ipc (Mq_getattr (rv q))) (\<lambda>a.
      if rv a = -1 then perror ''mq_getattr'' (exit EXIT_FAILURE)
      else
        printf (''Maximum # of messages on the queue:'' @ [TAB] @ show_int (ints a ! 0) @ [NL]) (
        printf (''Maximum message size:'' @ [TAB, TAB, TAB] @ show_int (ints a ! 1) @ [NL]) (
        printf (''# of messages currently on the queue:'' @ [TAB] @ show_int (ints a ! 2) @ [NL]) (
        exit EXIT_SUCCESS))))))"

definition pmsg_usage :: "string \<Rightarrow> prog" where
  "pmsg_usage self =
     eprintf (''Usage: '' @ self @ '' [-n] name msg [-prio]\<newline>'')
     (eprintf ''   -n      USE O_NONBLOCK flag\<newline>'' (exit EXIT_FAILURE))"

definition pmsg_spec :: optspec where "pmsg_spec = [(CHR ''n'', False)]"

fun pmsg_opts :: "string \<Rightarrow> (char \<times> string) list \<Rightarrow> flags \<Rightarrow> (flags \<Rightarrow> prog) \<Rightarrow> prog" where
  "pmsg_opts self [] flags f = f flags"
| "pmsg_opts self ((opt, optarg) # opts) flags f =
     (if opt = CHR ''n'' then pmsg_opts self opts (flags OR O_NONBLOCK) f
      else eprintf (getopt_message pmsg_spec self optarg) (pmsg_usage self))"

text \<open>\<open>optind > argc\<close> is never true; without an operand \<open>argv[optind]\<close> is NULL.\<close>

definition pmsg_receive_main :: "string list \<Rightarrow> prog" where
  "pmsg_receive_main argv =
     (let (opts, rest) = getopt pmsg_spec (drop 1 argv) in
      pmsg_opts (argv ! 0) opts O_RDONLY (\<lambda>flags.
      with_arg rest 0 (\<lambda>name.
      Call (mq_open name flags) (\<lambda>q.
      if rv q = -1 then perror ''mq_open'' (exit EXIT_FAILURE)
      else Call (Ipc (Mq_getattr (rv q))) (\<lambda>a.
      if rv a = -1 then perror ''mq_getattr'' (exit EXIT_FAILURE)
      else Call (Sys (Malloc (ints a ! 1))) (\<lambda>b.
      if rv b = 0 then perror ''malloc'' (exit EXIT_FAILURE)
      else Call (Ipc (Mq_receive (rv q) (ints a ! 1))) (\<lambda>r.
      if rv r = -1 then perror ''mq_receive'' (exit EXIT_FAILURE)
      else printf (''Read '' @ show_int (rv r) @ '' bytes; priority = '' @ show_int (ints r ! 0) @ [NL]) (
      Call (Io (Write 1 (bytes r))) (\<lambda>w.
      if rv w = -1 then perror ''write'' (exit EXIT_FAILURE)
      else Call (Io (Write 1 [NL])) (\<lambda>_. exit EXIT_SUCCESS))))))))))"

definition pmsg_send_main :: "string list \<Rightarrow> prog" where
  "pmsg_send_main argv =
     (let (opts, rest) = getopt pmsg_spec (drop 1 argv) in
      pmsg_opts (argv ! 0) opts O_WRONLY (\<lambda>flags.
      if length rest \<le> 1 then pmsg_usage (argv ! 0)
      else Call (mq_open (rest ! 0) flags) (\<lambda>q.
      if rv q = -1 then perror ''mq_open'' (exit EXIT_FAILURE)
      else
        let prio = (if length rest > 2 then to_uint (atoi (rest ! 2)) else 0) in
        Call (Ipc (Mq_send (rv q) (rest ! 1) prio)) (\<lambda>s.
        if rv s = -1 then perror ''mq_send'' (exit EXIT_FAILURE) else exit EXIT_SUCCESS))))"

definition pmsg_unlink_main :: "string list \<Rightarrow> prog" where
  "pmsg_unlink_main argv =
     (if length argv \<noteq> 2 \<or> argv ! 1 = ''--help'' then eprintf (argv ! 0 @ '' mq-name\<newline>'') (exit EXIT_FAILURE)
      else Call (Ipc (Mq_unlink (argv ! 1))) (\<lambda>u.
      if rv u = -1 then perror ''mq_unlink'' (exit EXIT_FAILURE) else exit EXIT_SUCCESS))"

section \<open>Notification\<close>

abbreviation (input) NOTIFY_SIG :: int where "NOTIFY_SIG \<equiv> 10"
abbreviation (input) SIG_BLOCK :: int where "SIG_BLOCK \<equiv> 0"

text \<open>\<open>while ((numRead = mq_receive(...)) >= 0) printf(...)\<close>; \<open>f\<close> takes the errno of the last call.\<close>

fun mq_drain :: "nat \<Rightarrow> int \<Rightarrow> int \<Rightarrow> (int \<Rightarrow> prog) \<Rightarrow> prog" where
  "mq_drain 0 mqd msgsize f = Halt Unfinished"
| "mq_drain (Suc n) mqd msgsize f =
     Call (Ipc (Mq_receive mqd msgsize)) (\<lambda>r.
     if rv r \<ge> 0 then printf (''Read '' @ show_int (rv r) @ '' bytes\<newline>'') (mq_drain n mqd msgsize f)
     else f (err r))"

fun mq_notify_loop :: "nat \<Rightarrow> nat \<Rightarrow> int \<Rightarrow> int \<Rightarrow> prog" where
  "mq_notify_loop d 0 mqd msgsize = Halt Unfinished"
| "mq_notify_loop d (Suc n) mqd msgsize =
     Call (Sig (Sigsuspend {})) (\<lambda>_.
     Call (Ipc (Mq_notify mqd ''SIGEV_SIGNAL'')) (\<lambda>v.
     if rv v = -1 then perror ''mq_notify'' (exit EXIT_FAILURE)
     else mq_drain d mqd msgsize (\<lambda>e.
       if e \<noteq> EAGAIN then perror ''mq_receive - unaccounted error'' (exit EXIT_FAILURE)
       else mq_notify_loop d n mqd msgsize)))"

definition mq_notify_signal_main :: "nat \<Rightarrow> nat \<Rightarrow> string list \<Rightarrow> prog" where
  "mq_notify_signal_main d n argv =
     (if length argv \<noteq> 2 \<or> argv ! 1 = ''--help'' then eprintf (argv ! 0 @ '' mq-name\<newline>'') (exit EXIT_FAILURE)
      else Call (mq_open (argv ! 1) (O_RDONLY OR O_NONBLOCK)) (\<lambda>q.
      if rv q = -1 then perror ''mq_open'' (exit EXIT_FAILURE)
      else Call (Ipc (Mq_getattr (rv q))) (\<lambda>a.
      if rv a = -1 then perror ''mq_getattr'' (exit EXIT_FAILURE)
      else Call (Sys (Malloc (ints a ! 1))) (\<lambda>b.
      if rv b = 0 then perror ''malloc'' (exit EXIT_FAILURE)
      else Call (Sig (Sigprocmask SIG_BLOCK (Some {NOTIFY_SIG}))) (\<lambda>m.
      if rv m = -1 then perror ''sigprocmask'' (exit EXIT_FAILURE)
      else Call (Sig (Sigaction NOTIFY_SIG ''handler'' 0 {})) (\<lambda>s.
      if rv s = -1 then perror ''sigaction'' (exit EXIT_FAILURE)
      else Call (Ipc (Mq_notify (rv q) ''SIGEV_SIGNAL'')) (\<lambda>v.
      if rv v = -1 then perror ''mq_notify'' (exit EXIT_FAILURE)
      else mq_notify_loop d n (rv q) (ints a ! 1))))))))"

definition notifySetup :: "int \<Rightarrow> prog \<Rightarrow> prog" where
  "notifySetup mqd p =
     Call (Ipc (Mq_notify mqd ''SIGEV_THREAD'')) (\<lambda>v.
     if rv v = -1 then perror ''mq_notify'' (exit EXIT_FAILURE) else p)"

text \<open>The thread that a notification starts; \<open>return\<close> is its end.\<close>

definition threadFunc :: "nat \<Rightarrow> int \<Rightarrow> prog \<Rightarrow> prog" where
  "threadFunc d mqd return =
     Call (Ipc (Mq_getattr mqd)) (\<lambda>a.
     if rv a = -1 then perror ''mq_getattr'' (exit EXIT_FAILURE)
     else Call (Sys (Malloc (ints a ! 1))) (\<lambda>b.
     if rv b = 0 then perror ''malloc'' (exit EXIT_FAILURE)
     else notifySetup mqd (
     mq_drain d mqd (ints a ! 1) (\<lambda>e.
     if e \<noteq> EAGAIN then perror ''unexpected error mq_receive'' (exit EXIT_FAILURE)
     else Call (Mem (Free (rv b))) (\<lambda>_. return)))))"

definition mq_notify_thread_main :: "string list \<Rightarrow> prog" where
  "mq_notify_thread_main argv =
     (if length argv \<noteq> 2 \<or> argv ! 1 = ''--help'' then eprintf (argv ! 0 @ '' mq-name\<newline>'') (exit EXIT_FAILURE)
      else Call (mq_open (argv ! 1) (O_RDONLY OR O_NONBLOCK)) (\<lambda>q.
      if rv q = -1 then perror ''mq_open'' (exit EXIT_FAILURE)
      else notifySetup (rv q) (Call (Sig Pause) (\<lambda>_. exit 0))))"

section \<open>The contract of a queue\<close>

text \<open>A message goes behind those of the same or a higher priority.\<close>

fun mq_insert :: "int \<times> string \<Rightarrow> (int \<times> string) list \<Rightarrow> (int \<times> string) list" where
  "mq_insert x [] = [x]"
| "mq_insert x (y # ys) = (if fst x \<le> fst y then y # mq_insert x ys else x # y # ys)"

text \<open>
  A queue with its limits: the size of a message, the number of messages, and the priorities, which are
  below MQ\_PRIO\_MAX. A send is promised to succeed only within them. An empty queue answers EAGAIN to
  a receive on a descriptor that was opened with O\_NONBLOCK; on another one the receive waits, of
  which nothing is said here.
\<close>

definition MQ_PRIO_MAX :: int where "MQ_PRIO_MAX = 32768"

locale mq_kernel =
  fixes K :: "'k kernel" and queue :: "'k \<Rightarrow> (int \<times> string) list" and msgsize :: int and maxmsg :: nat
    and nonblocking :: "int \<Rightarrow> bool"
  assumes send: "int (length m) \<le> msgsize \<Longrightarrow> 0 \<le> p \<Longrightarrow> p < MQ_PRIO_MAX \<Longrightarrow> length (queue k) < maxmsg \<Longrightarrow>
      K k (Ipc (Mq_send q m p)) = (r, k') \<Longrightarrow> rv r = 0 \<and> queue k' = mq_insert (p, m) (queue k)"
    and receive: "queue k = (p, m) # ms \<Longrightarrow> K k (Ipc (Mq_receive q msgsize)) = (r, k') \<Longrightarrow>
      bytes r = m \<and> rv r = int (length m) \<and> ints r ! 0 = p \<and> queue k' = ms"
    and receive_empty: "queue k = [] \<Longrightarrow> nonblocking q \<Longrightarrow> K k (Ipc (Mq_receive q n)) = (r, k') \<Longrightarrow>
      rv r = -1 \<and> err r = EAGAIN \<and> queue k' = []"
    and getattr: "K k (Ipc (Mq_getattr q)) = (r, k') \<Longrightarrow> rv r = 0 \<and> ints r ! 1 = msgsize"
    and works: "K k c = (r, k') \<Longrightarrow> c \<in> {mq_open nm fl, Sys (Malloc n), Ipc (Mq_notify q ev), Io (Write 1 s)} \<Longrightarrow>
      rv r \<noteq> -1 \<and> (c = Sys (Malloc n) \<longrightarrow> rv r \<noteq> 0)"
    and others: "K k c = (r, k') \<Longrightarrow> \<forall>q m p n. c \<noteq> Ipc (Mq_send q m p) \<and> c \<noteq> Ipc (Mq_receive q n) \<Longrightarrow>
      queue k' = queue k"
begin

lemma works_rv [simp]:
  "rv (fst (K k (mq_open nm fl))) \<noteq> -1" "rv (fst (K k (Sys (Malloc n)))) \<noteq> 0"
  "rv (fst (K k (Ipc (Mq_notify q ev)))) \<noteq> -1" "rv (fst (K k (Io (Write 1 s)))) \<noteq> -1"
  using works [of k "mq_open nm fl"] works [of k "Sys (Malloc n)"] works [of k "Ipc (Mq_notify q ev)"]
    works [of k "Io (Write 1 s)"]
  by (metis insertI1 insertI2 prod.collapse)+

lemma getattr_rv [simp]: "rv (fst (K k (Ipc (Mq_getattr q)))) = 0" "ints (fst (K k (Ipc (Mq_getattr q)))) ! 1 = msgsize"
  using getattr [of k q] by (metis prod.collapse)+

lemmas getattr_size [simp] = getattr_rv(2) [unfolded One_nat_def]

lemma queue_other [simp]:
  "\<forall>q m p n. c \<noteq> Ipc (Mq_send q m p) \<and> c \<noteq> Ipc (Mq_receive q n) \<Longrightarrow> queue (snd (K k c)) = queue k"
  using others [of k c] by (metis prod.collapse)

lemma queue_open [simp]: "queue (snd (K k (mq_open nm fl))) = queue k"
  by (simp add: mq_open_def)

text \<open>Draining takes every message and ends with EAGAIN.\<close>

lemma mq_drain_reaches:
  "length (queue k) < d \<Longrightarrow> nonblocking q \<Longrightarrow>
   \<exists>k'. queue k' = [] \<and> reaches K (mq_drain d q msgsize f) k (f EAGAIN) k'"
proof (induction d arbitrary: k)
  case (Suc d)
  obtain r k1 where r: "K k (Ipc (Mq_receive q msgsize)) = (r, k1)" by force
  show ?case
  proof (cases "queue k")
    case Nil
    with receive_empty [OF Nil Suc.prems(2) r] show ?thesis
      by (intro exI [of _ k1]) (auto simp: r intro!: reaches_Call)
  next
    case (Cons x ms)
    obtain p m where x: "x = (p, m)" by force
    note R = receive [OF Cons [unfolded x] r]
    from Suc.prems Cons R have "length (queue k1) < d" by simp
    from Suc.IH [OF this Suc.prems(2)] obtain k' where "queue k' = []" "reaches K (mq_drain d q msgsize f) k1 (f EAGAIN) k'" by blast
    with R show ?thesis by (intro exI [of _ k']) (auto simp: r intro!: reaches_Call reaches_Put)
  qed
qed simp

lemma mq_notify_iteration:
  assumes "length (queue k) < d" and "nonblocking q"
  shows "\<exists>k'. queue k' = [] \<and> reaches K (mq_notify_loop d (Suc n) q msgsize) k (mq_notify_loop d n q msgsize) k'"
proof -
  let ?k = "snd (K (snd (K k (Sig (Sigsuspend {})))) (Ipc (Mq_notify q ''SIGEV_SIGNAL'')))"
  let ?f = "\<lambda>e. if e \<noteq> EAGAIN then perror ''mq_receive - unaccounted error'' (exit EXIT_FAILURE)
       else mq_notify_loop d n q msgsize"
  have "length (queue ?k) < d" using assms by simp
  from mq_drain_reaches [OF this assms(2), of ?f] obtain k' where
    "queue k' = []" "reaches K (mq_drain d q msgsize ?f) ?k (?f EAGAIN) k'" by blast
  then show ?thesis by (intro exI [of _ k']) (auto intro!: reaches_Call)
qed

lemma pmsg_send_run:
  assumes "\<forall>a\<in>{name, m, show_nat p}. \<not> is_option a" and "int (length m) \<le> msgsize" and "int p < MQ_PRIO_MAX"
    and "length (queue k) < maxmsg"
  shows "outcome K (pmsg_send_main [self, name, m, show_nat p]) k = Exited 0 \<and>
    queue (final K (pmsg_send_main [self, name, m, show_nat p]) k) = mq_insert (int p, m) (queue k)"
proof -
  let ?k = "snd (K k (mq_open name 1))" and ?q = "rv (fst (K k (mq_open name 1)))"
  have "atoi (show_nat p) = int p"
    using atoi_show_int [of "int p" "[]"] assms(3) by (simp add: show_int_def int_limits MQ_PRIO_MAX_def)
  then have prio: "to_uint (atoi (show_nat p)) = int p" using assms(3) by (simp add: to_uint_def int_limits MQ_PRIO_MAX_def)
  obtain r k' where r: "K ?k (Ipc (Mq_send ?q m (int p))) = (r, k')" by force
  have "getopt pmsg_spec [name, m, show_nat p] = ([], [name, m, show_nat p])"
    using assms(1) by (intro getopt_operands) auto
  with send [OF assms(2) _ assms(3) _ r] assms(4) prio r show ?thesis
    by (simp add: pmsg_send_main_def Let_def del: getopt.simps)
qed

text \<open>A receive writes the first message, and a newline after it.\<close>

lemma pmsg_receive_run:
  assumes "\<not> is_option name" and q: "queue k = (p, m) # ms"
  shows "outcome K (pmsg_receive_main [self, name]) k = Exited 0 \<and>
    queue (final K (pmsg_receive_main [self, name]) k) = ms \<and>
    [c \<leftarrow> calls (trace K (pmsg_receive_main [self, name]) k). case c of Io i \<Rightarrow> True | _ \<Rightarrow> False] =
      [Io (Write 1 m), Io (Write 1 [NL])]"
proof -
  let ?k = "snd (K (snd (K (snd (K k (mq_open name 0))) (Ipc (Mq_getattr (rv (fst (K k (mq_open name 0)))))))) (Sys (Malloc msgsize)))"
  obtain r k' where r: "K ?k (Ipc (Mq_receive (rv (fst (K k (mq_open name 0)))) msgsize)) = (r, k')" by force
  have "queue ?k = (p, m) # ms" using q by simp
  note R = receive [OF this r]
  have "getopt pmsg_spec [name] = ([], [name])" using assms(1) by (intro getopt_operands) auto
  with R r show ?thesis
    by (simp add: pmsg_receive_main_def Let_def del: getopt.simps) (simp add: mq_open_def)
qed

end

text \<open>The same queue when a send is outside of the limits: it is refused and changes nothing.\<close>

locale mq_limits = mq_kernel +
  assumes send_priority: "MQ_PRIO_MAX \<le> p \<Longrightarrow> K k (Ipc (Mq_send q m p)) = (r, k') \<Longrightarrow> rv r = -1 \<and> queue k' = queue k"
    and send_size: "msgsize < int (length m) \<Longrightarrow> K k (Ipc (Mq_send q m p)) = (r, k') \<Longrightarrow> rv r = -1 \<and> queue k' = queue k"
begin

lemma pmsg_send_refused:
  assumes "\<forall>a\<in>{name, m, show_nat p}. \<not> is_option a" and "int p \<le> INT_MAX" and "msgsize < int (length m) \<or> MQ_PRIO_MAX \<le> int p"
  shows "outcome K (pmsg_send_main [self, name, m, show_nat p]) k = Exited 1 \<and>
    queue (final K (pmsg_send_main [self, name, m, show_nat p]) k) = queue k"
proof -
  let ?k = "snd (K k (mq_open name 1))" and ?q = "rv (fst (K k (mq_open name 1)))"
  have "atoi (show_nat p) = int p"
    using atoi_show_int [of "int p" "[]"] assms(2) by (simp add: show_int_def int_limits)
  then have prio: "to_uint (atoi (show_nat p)) = int p" using assms(2) by (simp add: to_uint_def int_limits)
  obtain r k' where r: "K ?k (Ipc (Mq_send ?q m (int p))) = (r, k')" by force
  have "getopt pmsg_spec [name, m, show_nat p] = ([], [name, m, show_nat p])"
    using assms(1) by (intro getopt_operands) auto
  moreover have "rv r = -1 \<and> queue k' = queue k" using assms(3) send_size [OF _ r] send_priority [OF _ r] by auto
  ultimately show ?thesis using prio r by (simp add: pmsg_send_main_def Let_def del: getopt.simps)
qed

end

text \<open>A kernel with one queue that holds up to ten messages, on descriptors that do not block.\<close>

definition mq_ipc :: "int \<Rightarrow> (int \<times> string) list \<Rightarrow> ipc_call \<Rightarrow> ret \<times> (int \<times> string) list" where
  "mq_ipc msgsize q c = (case c of
      Mq_send d m p \<Rightarrow>
        if msgsize < int (length m) then (fail 90, q)
        else if p < 0 \<or> MQ_PRIO_MAX \<le> p then (fail EINVAL, q)
        else if length q \<ge> 10 then (fail EAGAIN, q)
        else (ok 0, mq_insert (p, m) q)
    | Mq_receive d n \<Rightarrow> (case q of [] \<Rightarrow> (fail EAGAIN, q) | (p, m) # ms \<Rightarrow> ((got m)\<lparr>ints := [p]\<rparr>, ms))
    | Mq_getattr d \<Rightarrow> ((ok 0)\<lparr>ints := [10, msgsize, int (length q)]\<rparr>, q)
    | _ \<Rightarrow> (ok 3, q))"

definition mq_K :: "int \<Rightarrow> (int \<times> string) list kernel" where
  "mq_K msgsize q c = (case c of Ipc i \<Rightarrow> mq_ipc msgsize q i | _ \<Rightarrow> (ok 1, q))"

interpretation mq: mq_limits "mq_K msgsize" "\<lambda>q. q" msgsize 10 "\<lambda>_. True" for msgsize
proof unfold_locales
  fix k c r k'
  assume "mq_K msgsize k c = (r, k')" and "\<forall>q m p n. c \<noteq> Ipc (Mq_send q m p) \<and> c \<noteq> Ipc (Mq_receive q n)"
  then show "k' = k" by (auto simp: mq_K_def mq_ipc_def split: syscall.splits ipc_call.splits)
qed (auto simp: mq_K_def mq_ipc_def mq_open_def split: if_splits)

section \<open>Properties\<close>

lemma set_mq_insert: "set (mq_insert x ys) = insert x (set ys)"
  by (induction ys) auto

lemma mset_mq_insert: "mset (mq_insert x ys) = add_mset x (mset ys)"
  by (induction ys) auto

lemma length_mq_insert: "length (mq_insert x ys) = Suc (length ys)"
  by (induction ys) auto

lemma sorted_mq_insert:
  "sorted (map (\<lambda>y. - fst y) ys) \<Longrightarrow> sorted (map (\<lambda>y. - fst y) (mq_insert x ys))"
  by (induction ys) (auto simp: set_mq_insert)

lemma filter_mq_insert:
  "sorted (map (\<lambda>y. - fst y) ys) \<Longrightarrow>
   filter (\<lambda>y. fst y = p) (mq_insert x ys) = filter (\<lambda>y. fst y = p) (ys @ [x])"
proof (induction ys)
  case (Cons y ys)
  have "filter (\<lambda>z. fst z = fst x) (y # ys) = []" if "fst y < fst x"
    using Cons.prems that by (auto simp: filter_empty_conv)
  with Cons show ?case by (auto simp: filter_empty_conv)
qed simp

text \<open>Inserting messages one after the other is a stable sort by falling priority.\<close>

lemma foldl_mq_insert: "foldl (\<lambda>q x. mq_insert x q) [] xs = sort_key (\<lambda>x. - fst x) xs"
proof (rule properties_for_sort_key [symmetric])
  let ?q = "\<lambda>xs. foldl (\<lambda>q x. mq_insert x q) [] xs"
  show "mset (?q xs) = mset xs" by (induction xs rule: rev_induct) (simp_all add: mset_mq_insert)
  show s: "sorted (map (\<lambda>x. - fst x) (?q xs))" for xs
    by (induction xs rule: rev_induct) (simp_all add: sorted_mq_insert)
  show "filter (\<lambda>x. - fst k = - fst x) (?q xs) = filter (\<lambda>x. - fst k = - fst x) xs" for k
  proof (induction xs rule: rev_induct)
    case (snoc x xs)
    have eq: "(\<lambda>x. - fst k = - fst x) = (\<lambda>x. fst x = fst k)" by auto
    from snoc show ?case unfolding eq by (simp add: filter_mq_insert [OF s])
  qed simp
qed

text \<open>Runs of the sender, one per message, and runs of the receiver: what each writes.\<close>

definition send_all :: "'k kernel \<Rightarrow> string \<Rightarrow> (nat \<times> string) list \<Rightarrow> 'k \<Rightarrow> 'k" where
  "send_all K name ms k =
     foldl (\<lambda>k (p, m). final K (pmsg_send_main [''pmsg_send'', name, m, show_nat p]) k) k ms"

primrec receive_all :: "'k kernel \<Rightarrow> string \<Rightarrow> nat \<Rightarrow> 'k \<Rightarrow> syscall list list" where
  "receive_all K name 0 k = []"
| "receive_all K name (Suc n) k =
     [c \<leftarrow> calls (trace K (pmsg_receive_main [''pmsg_receive'', name]) k). case c of Io i \<Rightarrow> True | _ \<Rightarrow> False] #
     receive_all K name n (final K (pmsg_receive_main [''pmsg_receive'', name]) k)"

lemma digit_word_no_option: "\<not> is_option (show_nat p)"
  using show_nat_hd [of p] isdigit_not_special by (auto simp: is_option_def)

context mq_kernel
begin

lemma send_all_queue:
  assumes "\<not> is_option name"
    and "\<forall>(p, m) \<in> set ms. \<not> is_option m \<and> int (length m) \<le> msgsize \<and> int p < MQ_PRIO_MAX"
    and "length (queue k) + length ms \<le> maxmsg"
  shows "queue (send_all K name ms k) = foldl (\<lambda>q x. mq_insert x q) (queue k) (map (\<lambda>(p, m). (int p, m)) ms)"
  using assms(2,3)
proof (induction ms arbitrary: k)
  case (Cons x ms)
  obtain p m where x: "x = (p, m)" by force
  have "\<forall>a\<in>{name, m, show_nat p}. \<not> is_option a" "int (length m) \<le> msgsize" "int p < MQ_PRIO_MAX" "length (queue k) < maxmsg"
    using Cons.prems assms(1) digit_word_no_option by (auto simp: x)
  from pmsg_send_run [OF this, of "''pmsg_send''"] Cons show ?case by (simp add: send_all_def x length_mq_insert)
qed (simp add: send_all_def)

lemma receive_all_queue:
  "\<not> is_option name \<Longrightarrow>
   receive_all K name (length (queue k)) k = map (\<lambda>(p, m). [Io (Write 1 m), Io (Write 1 [NL])]) (queue k)"
proof (induction "queue k" arbitrary: k)
  case (Cons x ms)
  obtain p m where x: "x = (p, m)" by force
  have q: "queue k = (p, m) # ms" using Cons(2) x by simp
  note run = pmsg_receive_run [OF Cons.prems q, of "''pmsg_receive''"]
  from Cons.hyps(1) [of "final K (pmsg_receive_main [''pmsg_receive'', name]) k"] run Cons.prems q show ?case
    by simp
qed simp

end

text \<open>
  (C27) Messages come out by priority: after runs of pmsg\_send.c on an empty queue, within its limits
  (no message too long, no more messages than the queue holds, priorities below MQ\_PRIO\_MAX), as many runs of pmsg\_receive.c write exactly the messages sent, the highest priority first, and
  those of the same priority in the order in which they were sent.
\<close>

theorem pmsg_priority_order:
  assumes "mq_kernel K queue msgsize maxmsg nonblocking" and "queue k = []" and "\<not> is_option name"
    and "\<forall>(p, m) \<in> set ms. \<not> is_option m \<and> int (length m) \<le> msgsize \<and> int p < MQ_PRIO_MAX" and "length ms \<le> maxmsg"
  shows "receive_all K name (length ms) (send_all K name ms k) =
    map (\<lambda>(p, m). [Io (Write 1 m), Io (Write 1 [NL])]) (sort_key (\<lambda>(p, m). - int p) ms)"
proof -
  let ?f = "\<lambda>(p, m). (int p, m :: string)"
  have "queue (send_all K name ms k) = sort_key (\<lambda>x. - fst x) (map ?f ms)"
    using mq_kernel.send_all_queue [OF assms(1,3,4), of k] assms(2,5) foldl_mq_insert by simp
  also have "\<dots> = map ?f (sort_key (\<lambda>(p, m). - int p) ms)"
    by (simp add: sort_key_map case_prod_unfold comp_def)
  finally have q: "queue (send_all K name ms k) = map ?f (sort_key (\<lambda>(p, m). - int p) ms)" .
  from mq_kernel.receive_all_queue [OF assms(1,3), of "send_all K name ms k"] q show ?thesis
    by (simp add: case_prod_unfold comp_def)
qed

lemma pmsg_priority_order_witness:
  "receive_all (mq_K 8) ''/q'' 3 (send_all (mq_K 8) ''/q'' [(0, ''low''), (5, ''a''), (5, ''b'')] []) =
     [[Io (Write 1 ''a''), Io (Write 1 [NL])], [Io (Write 1 ''b''), Io (Write 1 [NL])],
      [Io (Write 1 ''low''), Io (Write 1 [NL])]]"
proof -
  have sorted: "sort_key (\<lambda>(p, m). - int p) [(0, ''low''), (5, ''a''), (5, ''b'')] = [(5, ''a''), (5, ''b''), (0, ''low'')]"
    by simp
  show ?thesis
    using pmsg_priority_order [OF mq.mq_kernel_axioms, of "[]" "''/q''" "[(0, ''low''), (5, ''a''), (5, ''b'')]" 8]
    unfolding sorted by (simp add: is_option_def MQ_PRIO_MAX_def numeral_3_eq_3 del: receive_all.simps)
qed

text \<open>
  (C28) mq\_notify\_signal.c loses no message: over any queue, with a descriptor opened with
  O\_NONBLOCK as the program does it, one iteration of its loop takes every
  message that is waiting, having registered for the next notification before it began to read,
  and is back at its wait with an empty queue. One unit of fuel per message and one more suffice.
\<close>

theorem mq_notify_drains:
  assumes "mq_kernel K queue msgsize maxmsg nonblocking" and "length (queue k) < d" and "nonblocking mqd"
  shows "\<exists>k'. queue k' = [] \<and>
      reaches K (mq_notify_loop d (Suc n) mqd msgsize) k (mq_notify_loop d n mqd msgsize) k' \<and>
      take 2 (calls (trace K (mq_notify_loop d (Suc n) mqd msgsize) k)) =
        [Sig (Sigsuspend {}), Ipc (Mq_notify mqd ''SIGEV_SIGNAL'')]"
  using mq_kernel.mq_notify_iteration [OF assms, of n] by auto

lemma mq_notify_drains_witness:
  "\<exists>k'. k' = [] \<and> reaches (mq_K 8) (mq_notify_loop 3 1 4 8) [(2, ''x''), (1, ''y'')] (mq_notify_loop 3 0 4 8) k'"
  using mq_notify_drains [OF mq.mq_kernel_axioms, of "[(2, ''x''), (1, ''y'')]" 3 8 0 4] by auto

text \<open>
  The permissions of pmsg\_create.c are documented as octal and read as decimal: asked for
  mode 600 it passes the number six hundred, 01130 in octal, so that the owner gets no read
  permission; and pmsg\_receive.c without a queue name passes a NULL pointer to mq\_open.
\<close>

theorem pmsg_argument_errors:
  "calls (trace K (pmsg_create_main [self, ''-c'', ''/q'', ''600'']) k) = [Ipc (Mq_open ''/q'' (O_RDWR OR O_CREAT) 600 None)] \<and>
   (600 :: flags) AND 0x100 = 0 \<and>
   outcome K (pmsg_receive_main [self]) k = Undefined"
proof -
  have "getopt pmsg_create_spec [''-c'', ''/q'', ''600''] = ([(CHR ''c'', [])], [''/q'', ''600''])" "atoi ''600'' = 600"
    "getopt pmsg_spec [] = ([], [])"
    by code_simp+
  then show ?thesis by (simp add: pmsg_create_main_def pmsg_receive_main_def)
qed

end
