(* ===== verification/Shared_Mem.thy ===== *)
theory Shared_Mem
  imports Getopt
begin

unbundle bit_operations_syntax

text \<open>
  Semaphores, shared memory objects and file mappings: src/posix\_semaphores/*.c,
  src/posix\_shared\_memory/*.c and src/memory\_mappings/*.c. A mapping is an address the kernel
  hands out; reads and writes of mapped memory are the calls \<open>Mem_load\<close> and \<open>Mem_store\<close>, so that
  another process sees them.
\<close>

section \<open>Semaphores\<close>

abbreviation (input) O_RDONLY :: flags where "O_RDONLY \<equiv> 0"
abbreviation (input) O_RDWR :: flags where "O_RDWR \<equiv> 2"
abbreviation (input) O_CREAT :: flags where "O_CREAT \<equiv> 0x40"
abbreviation (input) O_EXCL :: flags where "O_EXCL \<equiv> 0x80"
abbreviation (input) RW_USER :: flags where "RW_USER \<equiv> 0x180"

text \<open>SEM\_FAILED is -1 in the model.\<close>

definition cx_spec :: optspec where "cx_spec = [(CHR ''c'', False), (CHR ''x'', False)]"

fun cx_opts :: "(string \<Rightarrow> prog) \<Rightarrow> string \<Rightarrow> (char \<times> string) list \<Rightarrow> flags \<Rightarrow> (flags \<Rightarrow> prog) \<Rightarrow> prog" where
  "cx_opts usage self [] flags f = f flags"
| "cx_opts usage self ((opt, optarg) # opts) flags f =
     (if opt = CHR ''c'' then cx_opts usage self opts (flags OR O_CREAT) f
      else if opt = CHR ''x'' then cx_opts usage self opts (flags OR O_EXCL) f
      else eprintf (getopt_message cx_spec self optarg) (usage self))"

definition psem_usage :: "string \<Rightarrow> prog" where
  "psem_usage self =
     eprintf (''Usage: '' @ self @ '' [-cx] name [octal-perms [value]]\<newline>'')
     (eprintf ''       -c  Create Semaphore (O_CREAT)\<newline>''
     (eprintf ''       -x  Create exclusively (O_EXCL)\<newline>'' (exit EXIT_FAILURE)))"

definition psem_create_main :: "string list \<Rightarrow> prog" where
  "psem_create_main argv =
     (let (opts, rest) = getopt cx_spec (drop 1 argv) in
      cx_opts psem_usage (argv ! 0) opts 0 (\<lambda>flags.
      if rest = [] then psem_usage (argv ! 0)
      else
        let perms = (if length rest \<le> 1 then RW_USER else word_of_int (atoi (rest ! 1)));
            value = (if length rest \<le> 2 then 0 else to_uint (atoi (rest ! 2))) in
        Call (Ipc (Sem_open (rest ! 0) flags perms value)) (\<lambda>s.
        if rv s = -1 then perror ''sem_open'' (exit EXIT_FAILURE) else exit EXIT_SUCCESS)))"

definition sem_open :: "string \<Rightarrow> syscall" where
  "sem_open name = Ipc (Sem_open name 0 0 0)"

definition psem_getvalue_main :: "string list \<Rightarrow> prog" where
  "psem_getvalue_main argv =
     (if length argv \<noteq> 2 then perror ''invalid command line arguments'' (exit 1)
      else Call (sem_open (argv ! 1)) (\<lambda>s.
      if rv s = -1 then perror ''sem_open'' (exit 1)
      else Call (Ipc (Sem_getvalue (rv s))) (\<lambda>v.
      if rv v = -1 then perror ''sem_getvalue'' (exit 1)
      else printf (show_int (ints v ! 0) @ [NL]) (exit 0))))"

definition psem_post_main :: "string list \<Rightarrow> prog" where
  "psem_post_main argv =
     (if length argv \<noteq> 2 then perror ''invalid command line arguments'' (exit 1)
      else Call (sem_open (argv ! 1)) (\<lambda>s.
      if rv s = -1 then perror ''sem_open'' (exit 1)
      else Call (Ipc (Sem_post (rv s))) (\<lambda>v.
      if rv v = -1 then perror ''sem_post'' (exit 1)
      else exit 0)))"

definition psem_unlink_main :: "string list \<Rightarrow> prog" where
  "psem_unlink_main argv =
     (if length argv \<noteq> 2 \<or> argv ! 1 = ''--help'' then perror ''invalid command line arguments'' (exit 1)
      else Call (Ipc (Sem_unlink (argv ! 1))) (\<lambda>u.
      if rv u = -1 then perror ''sem_unlink'' (exit 1) else exit 0))"

definition psem_wait_main :: "string list \<Rightarrow> prog" where
  "psem_wait_main argv =
     (if length argv \<noteq> 2 \<or> argv ! 1 = ''--help'' then perror ''invalid command line arguments'' (exit 1)
      else Call (sem_open (argv ! 1)) (\<lambda>s.
      if rv s = -1 then perror ''sem_open'' (exit 1)
      else Call (Ipc (Sem_wait (rv s))) (\<lambda>v.
      if rv v = -1 then perror ''sem_wait'' (exit 1)
      else Call (Proc Getpid) (\<lambda>p.
        printf (show_int (rv p) @ '' sem_wait() succedded\<newline>'') (exit 0)))))"

section \<open>Shared memory objects\<close>

abbreviation (input) PROT_READ :: flags where "PROT_READ \<equiv> 1"
abbreviation (input) PROT_WRITE :: flags where "PROT_WRITE \<equiv> 2"
abbreviation (input) MAP_SHARED :: flags where "MAP_SHARED \<equiv> 1"
abbreviation (input) MAP_PRIVATE :: flags where "MAP_PRIVATE \<equiv> 2"
abbreviation (input) MAP_ANONYMOUS :: flags where "MAP_ANONYMOUS \<equiv> 0x20"

definition pshm_usage :: "string \<Rightarrow> prog" where
  "pshm_usage self =
     eprintf (''Usage:'' @ [TAB] @ self @ ''  [-cx]  name  size  [octal-perms]\<newline>'')
     (eprintf (TAB # ''-c  Create shared memory (O_CREAT)\<newline>'')
     (eprintf (TAB # ''-x  Create exclusively (O_EXCL)\<newline>'') (exit EXIT_FAILURE)))"

definition pshm_create_main :: "string list \<Rightarrow> prog" where
  "pshm_create_main argv =
     (let (opts, rest) = getopt cx_spec (drop 1 argv) in
      cx_opts pshm_usage (argv ! 0) opts O_RDWR (\<lambda>flags.
      if length rest \<le> 1 then pshm_usage (argv ! 0)
      else
        let len = atol (rest ! 1);
            perms = (if length rest \<le> 2 then RW_USER else word_of_int (atol (rest ! 2))) in
        Call (Ipc (Shm_open (rest ! 0) flags perms)) (\<lambda>fd.
        if rv fd = -1 then perror ''shm_open'' (exit EXIT_FAILURE)
        else Call (Io (Ftruncate (rv fd) len)) (\<lambda>t.
        if rv t = -1 then perror ''ftruncate'' (exit EXIT_FAILURE)
        else printf (show_int len @ '' size '') (
        Call (Mem (Mmap len (PROT_READ OR PROT_WRITE) MAP_SHARED (rv fd) 0)) (\<lambda>m.
        if rv m = -1 then perror ''mmap'' (exit EXIT_FAILURE) else exit EXIT_SUCCESS))))))"

text \<open>\<open>sb.st_size\<close> is the first of the numbers fstat stores.\<close>

definition pshm_read_main :: "string list \<Rightarrow> prog" where
  "pshm_read_main argv =
     (if length argv \<noteq> 2 \<or> argv ! 1 = ''--help'' then eprintf (argv ! 0 @ '' shm-name\<newline>'') (exit EXIT_FAILURE)
      else Call (Ipc (Shm_open (argv ! 1) O_RDONLY 0)) (\<lambda>fd.
      if rv fd = -1 then perror ''shm_open'' (exit EXIT_FAILURE)
      else Call (Io (Fstat (rv fd))) (\<lambda>sb.
      if rv sb = -1 then perror ''fstat'' (exit EXIT_FAILURE)
      else Call (Mem (Mmap (ints sb ! 0) PROT_READ MAP_SHARED (rv fd) 0)) (\<lambda>m.
      if rv m = -1 then perror ''mmap'' (exit EXIT_FAILURE)
      else Call (Io (Close (rv fd))) (\<lambda>c.
      if rv c = -1 then perror ''close'' (exit EXIT_FAILURE)
      else Call (Mem (Mem_load (rv m) (ints sb ! 0))) (\<lambda>d.
      Call (Io (Write 1 (bytes d))) (\<lambda>_.
      printf [NL] (exit EXIT_SUCCESS))))))))"

definition pshm_unlink_main :: "string list \<Rightarrow> prog" where
  "pshm_unlink_main argv =
     (if length argv \<noteq> 2 \<or> argv ! 1 = ''--help'' then eprintf (argv ! 0 @ '' shm-name\<newline>'') (exit EXIT_FAILURE)
      else Call (Ipc (Shm_unlink (argv ! 1))) (\<lambda>u.
      if rv u = -1 then perror ''shm_unlink'' (exit EXIT_FAILURE) else exit EXIT_SUCCESS))"

definition pshm_write_main :: "string list \<Rightarrow> prog" where
  "pshm_write_main argv =
     (if length argv \<noteq> 3 \<or> argv ! 1 = ''--help'' then perror ''invalid command line arguments'' (exit EXIT_FAILURE)
      else Call (Ipc (Shm_open (argv ! 1) O_RDWR 0)) (\<lambda>fd.
      if rv fd = -1 then perror ''shm_+open'' (exit EXIT_FAILURE)
      else let len = int (length (argv ! 2)) in
      Call (Io (Ftruncate (rv fd) len)) (\<lambda>t.
      if rv t = -1 then perror ''ftruncate'' (exit EXIT_FAILURE)
      else printf (''Resized to '' @ show_int len @ '' bytes\<newline>'') (
      Call (Mem (Mmap len (PROT_READ OR PROT_WRITE) MAP_SHARED (rv fd) 0)) (\<lambda>m.
      if rv m = -1 then perror ''mmap'' (exit EXIT_FAILURE)
      else Call (Io (Close (rv fd))) (\<lambda>c.
      if rv c = -1 then perror ''close'' (exit EXIT_FAILURE)
      else printf (''copying '' @ show_int len @ '' bytes \<newline>'') (
      Call (Mem (Mem_store (rv m) (argv ! 2))) (\<lambda>_. exit EXIT_SUCCESS))))))))"

section \<open>Mappings\<close>

definition perror_when :: "bool \<Rightarrow> string \<Rightarrow> prog \<Rightarrow> prog" where
  "perror_when b msg p = (if b then perror msg p else p)"

lemma perror_when_simps [simp]: "perror_when True msg p = perror msg p" "perror_when False msg p = p"
  by (simp_all add: perror_when_def)

text \<open>
  anony\_mmap.c; the argument of its main says whether USE\_MAP\_ANON is defined. When mmap fails the
  store goes to MAP\_FAILED, which is undefined. There is no break after \<open>case -1\<close>.
\<close>

definition anony_child :: "int \<Rightarrow> prog" where
  "anony_child addr =
     Call (Mem (Mem_load addr 4)) (\<lambda>v.
     printf (''Child started, value = '' @ show_int (int_of_bytes (bytes v)) @ [NL]) (
     Call (Mem (Mem_load addr 4)) (\<lambda>v.
     if int_of_bytes (bytes v) = INT_MAX then Halt Undefined
     else Call (Mem (Mem_store addr (int_bytes (int_of_bytes (bytes v) + 1)))) (\<lambda>_.
     Call (Mem (Munmap addr 4)) (\<lambda>u.
     perror_when (rv u = -1) ''munmap'' (exit EXIT_SUCCESS))))))"

definition anony_parent :: "int \<Rightarrow> prog" where
  "anony_parent addr =
     Call (Proc Wait) (\<lambda>w.
     perror_when (rv w = -1) ''wait'' (
     Call (Mem (Mem_load addr 4)) (\<lambda>v.
     printf (''In parent, value = '' @ show_int (int_of_bytes (bytes v)) @ [NL]) (
     Call (Mem (Munmap addr 4)) (\<lambda>u.
     perror_when (rv u = -1) ''munmap'' (exit EXIT_SUCCESS))))))"

definition anony_share :: "int \<Rightarrow> prog" where
  "anony_share addr =
     (if addr = -1 then Halt Undefined
      else Call (Mem (Mem_store addr (int_bytes 1))) (\<lambda>_.
      Call (Proc Fork) (\<lambda>f.
      if rv f = -1 then perror ''fork'' (anony_child addr)
      else if rv f = 0 then anony_child addr
      else anony_parent addr)))"

definition anony_mmap_main :: "bool \<Rightarrow> prog" where
  "anony_mmap_main use_map_anon =
     (if use_map_anon then
        Call (Mem (Mmap 4 (PROT_READ OR PROT_WRITE) (MAP_SHARED OR MAP_ANONYMOUS) (-1) 0)) (\<lambda>m.
        perror_when (rv m = -1) ''mmap'' (anony_share (rv m)))
      else
        Call (Io (Open ''/dev/zero'' O_RDWR 0)) (\<lambda>fd.
        perror_when (rv fd = -1) ''open'' (
        Call (Mem (Mmap 4 (PROT_READ OR PROT_WRITE) MAP_SHARED (rv fd) 0)) (\<lambda>m.
        perror_when (rv m = -1) ''mmap'' (
        Call (Io (Close (rv fd))) (\<lambda>c.
        perror_when (rv c = -1) ''close'' (anony_share (rv m))))))))"

definition mmcat_main :: "string list \<Rightarrow> prog" where
  "mmcat_main argv =
     (if length argv < 2 \<or> argv ! 1 = ''--help'' then eprintf (argv ! 0 @ '' file\<newline>'') (exit EXIT_FAILURE)
      else Call (Io (Open (argv ! 1) O_RDONLY 0)) (\<lambda>fd.
      if rv fd = -1 then perror ''open'' (exit EXIT_FAILURE)
      else Call (Io (Fstat (rv fd))) (\<lambda>sb.
      if rv sb = -1 then perror ''fstat'' (exit EXIT_FAILURE)
      else Call (Mem (Mmap (ints sb ! 0) PROT_READ MAP_PRIVATE (rv fd) 0)) (\<lambda>m.
      if rv m = -1 then perror ''mmap'' (exit EXIT_FAILURE)
      else Call (Mem (Mem_load (rv m) (ints sb ! 0))) (\<lambda>d.
      Call (Io (Write 1 (bytes d))) (\<lambda>w.
      if rv w \<noteq> ints sb ! 0 then perror ''partial/failed write'' (exit EXIT_FAILURE)
      else exit EXIT_SUCCESS))))))"

definition MEM_SIZE :: nat where "MEM_SIZE = 10"

text \<open>
  Nothing but messages follows the failed checks of t\_mmap.c; a too large value is reported and
  then stored all the same, cut to \<open>MEM_SIZE - 1\<close> bytes.
\<close>

definition t_mmap_main :: "string list \<Rightarrow> prog" where
  "t_mmap_main argv =
     (if length argv < 2 \<or> argv ! 1 = ''--help'' then Put Stderr (argv ! 0 @ '' file [new-value]\<newline>'') else (\<lambda>p. p))
     (with_arg argv 1 (\<lambda>file.
     Call (Io (Open file O_RDWR 0)) (\<lambda>fd.
     perror_when (rv fd = -1) ''open'' (
     Call (Mem (Mmap (int MEM_SIZE) (PROT_READ OR PROT_WRITE) MAP_SHARED (rv fd) 0)) (\<lambda>m.
     perror_when (rv m = -1) ''mmap'' (
     Call (Io (Close (rv fd))) (\<lambda>c.
     perror_when (rv c = -1) ''close'' (
     if rv m = -1 then Halt Undefined
     else Call (Mem (Mem_load (rv m) (int MEM_SIZE))) (\<lambda>v.
     printf (''Current string='' @ cstr (bytes v) @ [NL]) (
     if length argv > 2 then
       (if length (argv ! 2) \<ge> MEM_SIZE then Put Stderr ([CHR 0x27] @ ''new-value'' @ [CHR 0x27] @ '' too large\<newline>'') else (\<lambda>p. p))
       (Call (Mem (Mem_store (rv m) (replicate MEM_SIZE NUL))) (\<lambda>_.
        Call (Mem (Mem_store (rv m)
          (take (MEM_SIZE - 1) (argv ! 2) @ replicate (MEM_SIZE - 1 - length (argv ! 2)) NUL))) (\<lambda>_.
        Call (Mem (Msync (rv m) (int MEM_SIZE) 4)) (\<lambda>y.
        perror_when (rv y = -1) ''msync'' (
        printf (''Copied '' @ [CHR 0x22] @ argv ! 2 @ [CHR 0x22] @ '' to shared memory\<newline>'') (exit EXIT_SUCCESS))))))
     else exit EXIT_SUCCESS))))))))))"

section \<open>Properties of the shared memory programs\<close>

text \<open>A kernel with named objects; descriptors and addresses are positions in the lists of what was opened and mapped.\<close>

record shm_state =
  objects :: "string \<Rightarrow> string option"
  opened :: "string list"
  mapped :: "string list"

definition contents :: "shm_state \<Rightarrow> string \<Rightarrow> string" where
  "contents s nm = (case objects s nm of None \<Rightarrow> [] | Some b \<Rightarrow> b)"

definition shm_ipc :: "shm_state \<Rightarrow> ipc_call \<Rightarrow> ret \<times> shm_state" where
  "shm_ipc s c = (case c of
      Shm_open nm fl pm \<Rightarrow> (if objects s nm = None then (fail ENOENT, s)
        else (ok (int (length (opened s))), s\<lparr>opened := opened s @ [nm]\<rparr>))
    | Shm_unlink nm \<Rightarrow> (if objects s nm = None then (fail ENOENT, s) else (ok 0, s\<lparr>objects := (objects s)(nm := None)\<rparr>))
    | _ \<Rightarrow> (ok 0, s))"

definition shm_io :: "shm_state \<Rightarrow> io_call \<Rightarrow> ret \<times> shm_state" where
  "shm_io s c = (case c of
      Ftruncate fd n \<Rightarrow> (let nm = opened s ! nat fd; b = contents s nm in
        (ok 0, s\<lparr>objects := (objects s)(nm \<mapsto> take (nat n) b @ replicate (nat n - length b) NUL)\<rparr>))
    | Fstat fd \<Rightarrow> ((ok 0)\<lparr>ints := [int (length (contents s (opened s ! nat fd)))]\<rparr>, s)
    | Write fd d \<Rightarrow> (ok (int (length d)), s)
    | _ \<Rightarrow> (ok 0, s))"

definition shm_mem :: "shm_state \<Rightarrow> mem_call \<Rightarrow> ret \<times> shm_state" where
  "shm_mem s c = (case c of
      Mmap n prot fl fd off \<Rightarrow> (if n \<le> 0 then (fail EINVAL, s)
        else (ok (int (length (mapped s))), s\<lparr>mapped := mapped s @ [opened s ! nat fd]\<rparr>))
    | Mem_store a d \<Rightarrow> (let nm = mapped s ! nat a in
        (ok 0, s\<lparr>objects := (objects s)(nm \<mapsto> d @ drop (length d) (contents s nm))\<rparr>))
    | Mem_load a n \<Rightarrow> (got (take (nat n) (contents s (mapped s ! nat a))), s)
    | _ \<Rightarrow> (ok 0, s))"

definition shm_K :: "shm_state kernel" where
  "shm_K s c = (case c of Io i \<Rightarrow> shm_io s i | Ipc i \<Rightarrow> shm_ipc s i | Mem i \<Rightarrow> shm_mem s i | _ \<Rightarrow> (ok 0, s))"

lemmas shm_simps = shm_K_def shm_ipc_def shm_io_def shm_mem_def contents_def

lemma pshm_write_run:
  assumes "objects s name = Some old" and "msg \<noteq> []" and "name \<noteq> ''--help''"
  shows "outcome shm_K (pshm_write_main [self, name, msg]) s = Exited 0 \<and>
    objects (final shm_K (pshm_write_main [self, name, msg]) s) = (objects s)(name \<mapsto> msg)"
  using assms by (simp add: pshm_write_main_def Let_def shm_simps eval_nat_numeral)

lemma pshm_read_run:
  assumes "objects s name = Some d" and "d \<noteq> []" and "name \<noteq> ''--help''"
  shows "outcome shm_K (pshm_read_main [self, name]) s = Exited 0 \<and>
    [c \<leftarrow> calls (trace shm_K (pshm_read_main [self, name]) s). case c of Io (Write fd x) \<Rightarrow> True | _ \<Rightarrow> False] =
      [Io (Write 1 d)]"
  using assms by (simp add: pshm_read_main_def Let_def shm_simps eval_nat_numeral)

text \<open>
  What pshm\_write.c stores pshm\_read.c shows: on any existing object, whatever it held before
  and however long that was, a write of a non-empty string followed by a read in another process
  writes exactly that string on standard output, and both end with status 0.
\<close>

theorem pshm_round_trip:
  assumes "objects s name = Some old" and "msg \<noteq> []" and "name \<noteq> ''--help''"
  shows "outcome shm_K (pshm_write_main [writer, name, msg]) s = Exited 0 \<and>
    outcome shm_K (pshm_read_main [reader, name]) (final shm_K (pshm_write_main [writer, name, msg]) s) = Exited 0 \<and>
    [c \<leftarrow> calls (trace shm_K (pshm_read_main [reader, name]) (final shm_K (pshm_write_main [writer, name, msg]) s)).
      case c of Io (Write fd x) \<Rightarrow> True | _ \<Rightarrow> False] = [Io (Write 1 msg)]"
  using pshm_write_run [OF assms, of writer] pshm_read_run [OF _ assms(2,3), of _ reader] by simp

lemma pshm_round_trip_witness:
  "outcome shm_K (pshm_read_main [''r'', ''/x'']) (final shm_K (pshm_write_main [''w'', ''/x'', ''hello''])
     \<lparr>objects = [''/x'' \<mapsto> ''a much longer text''], opened = [], mapped = []\<rparr>) = Exited 0"
  using pshm_round_trip [of "\<lparr>objects = [''/x'' \<mapsto> ''a much longer text''], opened = [], mapped = []\<rparr>" "''/x''" _ "''hello''" "''w''" "''r''"]
  by simp

section \<open>Properties of the mappings\<close>

text \<open>A kernel with one mapped region.\<close>

definition cell_K :: "string kernel" where
  "cell_K b c = (case c of
      Mem i \<Rightarrow> (case i of
          Mem_store a d \<Rightarrow> (ok 0, d @ drop (length d) b)
        | Mem_load a n \<Rightarrow> (got (take (nat n) b), b)
        | _ \<Rightarrow> (ok 0, b))
    | _ \<Rightarrow> (ok 1, b))"

text \<open>
  Both variants of anony\_mmap.c have the same effect: in the process that is the parent after a
  successful fork the child's increment of the 1 it stored is what is printed, and the child
  reports the 1. (The region is the state of the kernel; \<open>fork_K\<close> answers fork with the given value,
  and the parent waits until the child, the same program with the answer 0, has run.)
\<close>

definition fork_K :: "int \<Rightarrow> string kernel" where
  "fork_K pid b c =
     (case c of
        Proc Fork \<Rightarrow> (ok pid, b)
      | Proc Wait \<Rightarrow> (ok 0, if pid = 0 then b else final cell_K (anony_child 1) b)
      | Mem (Mmap len prot fl fd off) \<Rightarrow> (ok 1, replicate (nat len) NUL)
      | _ \<Rightarrow> cell_K b c)"

theorem anony_mmap_both:
  "0 < pid \<Longrightarrow> emitted Stdout (trace (fork_K pid) (anony_mmap_main use_map_anon) []) = ''In parent, value = 2\<newline>''"
  "emitted Stdout (trace (fork_K 0) (anony_mmap_main use_map_anon) []) = ''Child started, value = 1\<newline>''"
proof -
  have n: "to_int 1 = 1" "to_int 2 = 2" "show_int 1 = ''1''" "show_int 2 = ''2''" by code_simp+
  show "0 < pid \<Longrightarrow> emitted Stdout (trace (fork_K pid) (anony_mmap_main use_map_anon) []) = ''In parent, value = 2\<newline>''"
    "emitted Stdout (trace (fork_K 0) (anony_mmap_main use_map_anon) []) = ''Child started, value = 1\<newline>''"
    by (simp_all add: anony_mmap_main_def anony_share_def anony_parent_def anony_child_def fork_K_def cell_K_def int_of_bytes_int_bytes int_limits n)
qed

text \<open>mmcat.c writes what it mapped; an empty file, which cannot be mapped, is an error.\<close>

lemma mmcat_writes_file:
  assumes "f \<noteq> ''--help''"
  shows "run script (mmcat_main [self, f])
      [ok 3, (ok 0)\<lparr>ints := [int (length d)]\<rparr>, ok 7, got d, ok (int (length d))] =
    ([Did (Io (Open f 0 0)) (ok 3), Did (Io (Fstat 3)) ((ok 0)\<lparr>ints := [int (length d)]\<rparr>),
      Did (Mem (Mmap (int (length d)) 1 2 3 0)) (ok 7), Did (Mem (Mem_load 7 (int (length d)))) (got d),
      Did (Io (Write 1 d)) (ok (int (length d)))], Exited 0, [])"
    and "outcome script (mmcat_main [self, f]) [ok 3, (ok 0)\<lparr>ints := [0]\<rparr>, fail EINVAL] = Exited 1"
  using assms by (simp_all add: mmcat_main_def)

text \<open>The value t\_mmap.c leaves in the region, for any length of the new value.\<close>

lemma t_mmap_stores:
  assumes "length b = MEM_SIZE"
  shows "final cell_K (t_mmap_main [self, file, v]) b =
    take 9 v @ replicate (9 - length v) NUL @ [NUL]"
  using assms
  by (simp add: t_mmap_main_def cell_K_def MEM_SIZE_def split: if_splits)

end
