(* ===== verification/Errors.thy ===== *)
theory Errors
  imports Syscalls
begin

text \<open>
  Error reporting: src/lib/error\_functions.c and .h with the table of src/lib/ename.c.inc. The
  message of a printf-style call is given as the formatted text. \<open>strerror\<close> is the C library's
  table. The functions errMsg, errExit and err\_exit of the file pass one argument too few to
  outputError, and fatal uses va\_start without having an ellipsis; they cannot be compiled and are not
  modelled. The programs that call them take them as parameters.

  The local arrays of outputError have their size and start with indeterminate contents. A store
  outside of an array and a string that runs into an indeterminate byte or over the end of an array
  are undefined behaviour.
\<close>

section \<open>The code\<close>

definition ename :: "string list" where
  "ename = [
     [], ''EPERM'', ''ENOENT'', ''ESRCH'', ''EINTR'', ''EIO'', ''ENXIO'', ''E2BIG'', ''ENOEXEC'',
     ''EBADF'', ''ECHILD'', ''EAGAIN/EWOULDBLOCK'', ''ENOMEM'', ''EACCES'', ''EFAULT'', ''ENOTBLK'',
     ''EBUSY'', ''EEXIST'', ''EXDEV'', ''ENODEV'', ''ENOTDIR'', ''EISDIR'', ''EINVAL'', ''ENFILE'',
     ''EMFILE'', ''ENOTTY'', ''ETXTBSY'', ''EFBIG'', ''ENOSPC'', ''ESPIPE'', ''EROFS'', ''EMLINK'',
     ''EPIPE'', ''EDOM'', ''ERANGE'', ''EDEADLK/EDEADLOCK'', ''ENAMETOOLONG'', ''ENOLCK'', ''ENOSYS'',
     ''ENOTEMPTY'', ''ELOOP'', [], ''ENOMSG'', ''EIDRM'', ''ECHRNG'', ''EL2NSYNC'', ''EL3HLT'', ''EL3RST'',
     ''ELNRNG'', ''EUNATCH'', ''ENOCSI'', ''EL2HLT'', ''EBADE'', ''EBADR'', ''EXFULL'', ''ENOANO'',
     ''EBADRQC'', ''EBADSLT'', [], ''EBFONT'', ''ENOSTR'', ''ENODATA'', ''ETIME'', ''ENOSR'', ''ENONET'',
     ''ENOPKG'', ''EREMOTE'', ''ENOLINK'', ''EADV'', ''ESRMNT'', ''ECOMM'', ''EPROTO'', ''EMULTIHOP'',
     ''EDOTDOT'', ''EBADMSG'', ''EOVERFLOW'', ''ENOTUNIQ'', ''EBADFD'', ''EREMCHG'', ''ELIBACC'',
     ''ELIBBAD'', ''ELIBSCN'', ''ELIBMAX'', ''ELIBEXEC'', ''EILSEQ'', ''ERESTART'', ''ESTRPIPE'',
     ''EUSERS'', ''ENOTSOCK'', ''EDESTADDRREQ'', ''EMSGSIZE'', ''EPROTOTYPE'', ''ENOPROTOOPT'',
     ''EPROTONOSUPPORT'', ''ESOCKTNOSUPPORT'', ''EOPNOTSUPP/ENOTSUP'', ''EPFNOSUPPORT'', ''EAFNOSUPPORT'',
     ''EADDRINUSE'', ''EADDRNOTAVAIL'', ''ENETDOWN'', ''ENETUNREACH'', ''ENETRESET'', ''ECONNABORTED'',
     ''ECONNRESET'', ''ENOBUFS'', ''EISCONN'', ''ENOTCONN'', ''ESHUTDOWN'', ''ETOOMANYREFS'',
     ''ETIMEDOUT'', ''ECONNREFUSED'', ''EHOSTDOWN'', ''EHOSTUNREACH'', ''EALREADY'', ''EINPROGRESS'',
     ''ESTALE'', ''EUCLEAN'', ''ENOTNAM'', ''ENAVAIL'', ''EISNAM'', ''EREMOTEIO'', ''EDQUOT'',
     ''ENOMEDIUM'', ''EMEDIUMTYPE'', ''ECANCELED'', ''ENOKEY'', ''EKEYEXPIRED'', ''EKEYREVOKED'',
     ''EKEYREJECTED'', ''EOWNERDEAD'', ''ENOTRECOVERABLE'', ''ERFKILL'']"

definition MAX_ENAME :: int where "MAX_ENAME = 132"
definition ERR_BUF_SIZE :: nat where "ERR_BUF_SIZE = 500"

text \<open>An element of the table; outside of it the access is undefined.\<close>

definition ename_at :: "int \<Rightarrow> string option" where
  "ename_at e = (if 0 \<le> e \<and> e < int (length ename) then Some (ename ! nat e) else None)"

definition terminate :: "bool \<Rightarrow> prog" where
  "terminate useExit3 =
     Call (Sys (Getenv ''EF_DUMPCORE'')) (\<lambda>s.
     if rv s \<noteq> 0 \<and> bytes s \<noteq> [] then Halt Aborted
     else if useExit3 then exit EXIT_FAILURE
     else exit_now EXIT_FAILURE)"

text \<open>
  Arrays of chars, where \<open>None\<close> is an indeterminate byte. \<open>snprintf_to\<close> is snprintf and vsnprintf: of the
  text it stores at most n - 1 bytes, and a NUL behind them. \<open>text_in\<close> is the string that starts an array.
\<close>

type_synonym array = "char option list"

definition local_array :: "nat \<Rightarrow> array" where
  "local_array n = replicate n None"

definition snprintf_to :: "array \<Rightarrow> nat \<Rightarrow> string \<Rightarrow> (array \<Rightarrow> prog) \<Rightarrow> prog" where
  "snprintf_to a n text p =
     (let d = (if n = 0 then [] else map Some (take (n - 1) text @ [NUL])) in
      if length d \<le> length a then p (d @ drop (length d) a) else Halt Undefined)"

fun text_in :: "array \<Rightarrow> string option" where
  "text_in [] = None"
| "text_in (None # a) = None"
| "text_in (Some c # a) = (if c = NUL then Some [] else map_option (Cons c) (text_in a))"

definition with_text :: "array \<Rightarrow> (string \<Rightarrow> prog) \<Rightarrow> prog" where
  "with_text a p = (case text_in a of None \<Rightarrow> Halt Undefined | Some s \<Rightarrow> p s)"

definition err_name :: "int \<Rightarrow> string option" where
  "err_name errnum = (if errnum > 0 \<and> errnum \<le> MAX_ENAME then ename_at errnum else Some ''?UNKNOWN?'')"

definition outputError :: "(int \<Rightarrow> string) \<Rightarrow> bool \<Rightarrow> int \<Rightarrow> bool \<Rightarrow> string \<Rightarrow> prog \<Rightarrow> prog" where
  "outputError strerror useErr errnum flushStdout msg p =
     (let buf = local_array ERR_BUF_SIZE; userMsg = local_array ERR_BUF_SIZE; errText = local_array ERR_BUF_SIZE in
      snprintf_to userMsg ERR_BUF_SIZE msg (\<lambda>userMsg.
      (if useErr then
         (\<lambda>finish. case err_name errnum of
            None \<Rightarrow> Halt Undefined
          | Some name \<Rightarrow> snprintf_to errText ERR_BUF_SIZE ('' ['' @ name @ '' '' @ strerror errnum @ '']'') finish)
       else snprintf_to errText ERR_BUF_SIZE '':'')
      (\<lambda>errText.
      with_text errText (\<lambda>e. with_text userMsg (\<lambda>u.
      snprintf_to buf ERR_BUF_SIZE (''ERROR'' @ e @ '' '' @ u @ [NL]) (\<lambda>buf.
      (if flushStdout then Put Flush [] else (\<lambda>p. p))
      (with_text buf (\<lambda>b. eprintf b p))))))))"

definition errExitEN :: "(int \<Rightarrow> string) \<Rightarrow> int \<Rightarrow> string \<Rightarrow> prog" where
  "errExitEN strerror errnum msg = outputError strerror True errnum True msg (terminate True)"

definition usageErr :: "string \<Rightarrow> prog" where
  "usageErr msg = fflush_stdout (eprintf ''Usage: '' (eprintf msg (exit EXIT_FAILURE)))"

definition cmdLineErr :: "string \<Rightarrow> prog" where
  "cmdLineErr msg = fflush_stdout (eprintf ''Command-line usage error: '' (eprintf msg (exit EXIT_FAILURE)))"

section \<open>Properties\<close>

lemma length_ename: "int (length ename) = MAX_ENAME + 1"
  by (simp add: ename_def MAX_ENAME_def)

lemma ename_at_range: "0 < e \<Longrightarrow> e \<le> MAX_ENAME \<Longrightarrow> ename_at e = Some (ename ! nat e)"
  using length_ename by (simp add: ename_at_def)

lemma ename_no_nul: "list_all no_nul ename"
  by code_simp

lemma err_name_some: "\<exists>name. err_name e = Some name \<and> no_nul name"
proof (cases "e > 0 \<and> e \<le> MAX_ENAME")
  case True
  then have "nat e < length ename" using length_ename by linarith
  then have "no_nul (ename ! nat e)" using ename_no_nul by (simp add: list_all_length)
  then show ?thesis using True by (simp add: err_name_def ename_at_range)
qed (auto simp: err_name_def)

lemma text_in_string: "no_nul s \<Longrightarrow> text_in (map Some (s @ [NUL]) @ a) = Some s"
  by (induction s) (auto simp: no_nul_def)

lemma text_in_bound: "text_in a = Some s \<Longrightarrow> length s < length a"
  by (induction a arbitrary: s rule: text_in.induct) (auto split: if_splits)

text \<open>Into an array that is as large as its size argument says, any text can be formatted.\<close>

definition filled :: "array \<Rightarrow> string \<Rightarrow> array" where
  "filled a text = map Some (take (length a - 1) text @ [NUL]) @ drop (length (take (length a - 1) text @ [NUL])) a"

lemma snprintf_to_fits: "0 < length a \<Longrightarrow> snprintf_to a (length a) text p = p (filled a text)"
proof -
  assume "0 < length a"
  then have "length (take (length a - 1) text @ [NUL]) \<le> length a" by (cases a) simp_all
  with \<open>0 < length a\<close> show ?thesis by (auto simp: snprintf_to_def filled_def Let_def)
qed

lemma text_in_filled: "no_nul text \<Longrightarrow> text_in (filled a text) = Some (take (length a - 1) text)"
  unfolding filled_def by (rule text_in_string) (auto simp: no_nul_def list_all_iff dest: in_set_takeD)

text \<open>The message is cut only once: what the two inner buffers lose would not fit the last one either.\<close>

lemma cut_once:
  "take n (x @ take n y @ z @ take n u @ v) = take n (x @ y @ z @ u @ v)" if "0 < length x" for x :: "'a list"
proof (cases "n \<le> length (x @ y)")
  case True
  then show ?thesis by (cases "n \<le> length y") (simp_all add: min_def)
next
  case False
  then have y: "take n y = y" by simp
  show ?thesis
  proof (cases "n \<le> length u")
    case True
    then show ?thesis unfolding y by (simp add: min_def)
  qed (simp add: y)
qed

text \<open>What outputError puts on standard error.\<close>

definition error_text :: "(int \<Rightarrow> string) \<Rightarrow> bool \<Rightarrow> int \<Rightarrow> string \<Rightarrow> string" where
  "error_text strerror useErr errnum msg =
     take 499 (''ERROR'' @
       (if useErr
        then '' ['' @ (if 1 \<le> errnum \<and> errnum \<le> 132 then ename ! nat errnum else ''?UNKNOWN?'') @ '' '' @ strerror errnum @ '']''
        else '':'') @
       '' '' @ msg @ [NL])"

lemma error_text_cut:
  "take 499 (''ERROR'' @ take 499 (if useErr then '' ['' @ name @ '' '' @ strerror e @ '']'' else '':'') @ '' '' @ take 499 msg @ [NL]) =
     error_text strerror useErr e msg" if "useErr \<Longrightarrow> err_name e = Some name"
proof -
  have "name = (if 1 \<le> e \<and> e \<le> 132 then ename ! nat e else ''?UNKNOWN?'')" if useErr
    using that \<open>useErr \<Longrightarrow> err_name e = Some name\<close> by (auto simp: err_name_def MAX_ENAME_def ename_at_range split: if_splits)
  then show ?thesis unfolding error_text_def by (subst cut_once) auto
qed

lemma length_error_text: "length (error_text strerror useErr errnum msg) \<le> 499"
  by (simp add: error_text_def)

text \<open>outputError stays inside its arrays and reads only what it has stored there.\<close>

lemma outputError_eq:
  assumes "no_nul msg" and "no_nul (strerror errnum)"
  shows "outputError strerror useErr errnum flush msg p =
    (if flush then Put Flush [] else (\<lambda>p. p)) (eprintf (error_text strerror useErr errnum msg) p)"
proof -
  obtain name where name: "err_name errnum = Some name" "no_nul name" using err_name_some by blast
  define et where "et = (if useErr then '' ['' @ name @ '' '' @ strerror errnum @ '']'' else '':'')"
  have nn: "no_nul et" using name(2) assms(2) by (simp add: et_def)
  have fits: "snprintf_to (local_array ERR_BUF_SIZE) ERR_BUF_SIZE x q = q (filled (local_array ERR_BUF_SIZE) x)" for x q
    using snprintf_to_fits [of "local_array ERR_BUF_SIZE"] by (simp add: local_array_def ERR_BUF_SIZE_def)
  have read: "with_text (filled (local_array ERR_BUF_SIZE) x) q = q (take 499 x)" if "no_nul x" for x q
    using that by (simp add: with_text_def text_in_filled local_array_def ERR_BUF_SIZE_def)
  let ?last = "''ERROR'' @ take 499 et @ '' '' @ take 499 msg @ [NL]"
  have "no_nul (take 499 et)" "no_nul (take 499 msg)" using nn assms(1)
    by (auto simp: no_nul_def list_all_iff dest: in_set_takeD)
  then have last: "no_nul ?last" by simp
  have cut: "take 499 ?last = error_text strerror useErr errnum msg"
    unfolding et_def using name(1) by (intro error_text_cut)
  have "outputError strerror useErr errnum flush msg p =
      with_text (filled (local_array ERR_BUF_SIZE) et) (\<lambda>e. with_text (filled (local_array ERR_BUF_SIZE) msg) (\<lambda>u.
        (if flush then Put Flush [] else (\<lambda>p. p))
        (with_text (filled (local_array ERR_BUF_SIZE) (''ERROR'' @ e @ '' '' @ u @ [NL])) (\<lambda>b. eprintf b p))))"
    by (simp add: outputError_def Let_def fits name(1) et_def)
  then show ?thesis by (simp only: read [OF nn] read [OF assms(1)] read [OF last] cut)
qed

text \<open>
  (C39) errExitEN is safe for every error number and every message: it never stores outside of the
  three arrays of outputError, reads no byte of them that it has not stored, and looks a name up
  only inside the table of names (any of these would be undefined behaviour). It flushes stdout and
  writes one message, \<open>ERROR [NAME text] message\<close> and a newline, cut to 499 bytes, where the name is
  \<open>?UNKNOWN?\<close> for numbers outside of 1 to 132. Then it ends the process with EXIT\_FAILURE, or by abort
  exactly when EF\_DUMPCORE is set and not empty. The message and the text of strerror are C strings,
  without NULs.
\<close>

theorem errExitEN_safe:
  assumes "no_nul msg" and "no_nul (strerror e)"
  shows "trace K (errExitEN strerror e msg) k =
     [Emit Flush [],
      Emit Stderr (take 499 (''ERROR ['' @ (if 1 \<le> e \<and> e \<le> 132 then ename ! nat e else ''?UNKNOWN?'') @ '' '' @ strerror e @ ''] '' @ msg @ [NL])),
      Did (Sys (Getenv ''EF_DUMPCORE'')) (fst (K k (Sys (Getenv ''EF_DUMPCORE''))))] \<and>
   outcome K (errExitEN strerror e msg) k =
     (if rv (fst (K k (Sys (Getenv ''EF_DUMPCORE'')))) \<noteq> 0 \<and> bytes (fst (K k (Sys (Getenv ''EF_DUMPCORE'')))) \<noteq> []
      then Aborted else Exited 1)"
proof -
  have "error_text strerror True e msg =
      take 499 (''ERROR ['' @ (if 1 \<le> e \<and> e \<le> 132 then ename ! nat e else ''?UNKNOWN?'') @ '' '' @ strerror e @ ''] '' @ msg @ [NL])"
    by (simp add: error_text_def)
  then show ?thesis by (simp add: errExitEN_def outputError_eq [where strerror = strerror and errnum = e, OF assms] terminate_def)
qed

lemma errExitEN_safe_witness:
  "outcome (\<lambda>k c. (ok 0, k)) (errExitEN (\<lambda>_. ''Permission denied'') 13 ''open'') () = Exited 1"
  using errExitEN_safe [of "''open''" "\<lambda>_. ''Permission denied''" 13 "\<lambda>k c. (ok 0, k)" "()"] by simp

text \<open>The newline that ends the message is lost when the message is too long.\<close>

lemma long_message_unterminated:
  "last (error_text strerror False 0 (replicate 499 (CHR ''x''))) = CHR ''x''"
proof -
  have "error_text strerror False 0 (replicate 499 (CHR ''x'')) = ''ERROR: '' @ replicate 492 (CHR ''x'')"
    by (simp add: error_text_def)
  then show ?thesis by simp
qed

end
