(* ===== verification/Files.thy ===== *)
theory Files
  imports Errors Getopt
begin

unbundle bit_operations_syntax

text \<open>
  Files and file systems: src/fileio/seek\_io.c, src/files/t\_stat.c,
  src/files/gnu\_libc\_version\_release.c and src/filesys/t\_mount.c.

  seek\_io.c calls \<open>getLong\<close>, which src/lib/get\_num.c declares but does not define, and \<open>errExit\<close>,
  whose definition in src/lib does not compile: both are parameters. \<open>getLong\<close> takes its three arguments and
  what to do with the number it returns, so that it may also report an invalid number and exit;
  \<open>errExit\<close> is the program that reports an error and ends.
\<close>

section \<open>seek\_io.c\<close>




text \<open>The loop over the bytes that were read, one printf for each.\<close>

fun show_bytes :: "(char \<Rightarrow> string) \<Rightarrow> string \<Rightarrow> prog \<Rightarrow> prog" where
  "show_bytes f [] p = p"
| "show_bytes f (c # cs) p = printf (f c) (show_bytes f cs p)"





section \<open>t\_stat.c\<close>

record stat =
  st_mode :: "32 word"
  st_ino :: int
  st_nlink :: int
  st_uid :: int
  st_gid :: int
  st_rdev :: int
  st_size :: int
  st_blksize :: int
  st_blocks :: int
  st_atim :: int
  st_mtim :: int
  st_ctim :: int

definition stat_of :: "ret \<Rightarrow> stat" where
  "stat_of r = \<lparr>st_mode = word_of_int (ints r ! 0), st_ino = ints r ! 1, st_nlink = ints r ! 2,
     st_uid = ints r ! 3, st_gid = ints r ! 4, st_rdev = ints r ! 5, st_size = ints r ! 6,
     st_blksize = ints r ! 7, st_blocks = ints r ! 8, st_atim = ints r ! 9, st_mtim = ints r ! 10,
     st_ctim = ints r ! 11\<rparr>"

abbreviation (input) S_IFMT :: "32 word" where "S_IFMT \<equiv> 0xf000"

text \<open>The switch is on \<open>sb->st_mode && S_IFMT\<close>, which is 0 or 1.\<close>

definition file_type_text :: "stat \<Rightarrow> string" where
  "file_type_text sb =
     (let v = (if st_mode sb \<noteq> 0 \<and> S_IFMT \<noteq> 0 then 1 else 0 :: 32 word) in
      if v = 0x8000 then ''regular file\<newline>''
      else if v = 0x4000 then ''directory\<newline>''
      else if v = 0x2000 then ''character device\<newline>''
      else if v = 0x6000 then ''block device\<newline>''
      else if v = 0xa000 then ''symbolic (soft) link\<newline>''
      else if v = 0x1000 then ''FIFO or pipe\<newline>''
      else if v = 0xc000 then ''socket\<newline>''
      else ''unknown file type?\<newline>'')"

definition ctime_line :: "string \<Rightarrow> int \<Rightarrow> prog \<Rightarrow> prog" where
  "ctime_line label t p =
     Call (Tm (Ctime t)) (\<lambda>c. if rv c = 0 then Halt Undefined else printf (label @ bytes c) p)"

definition displayStatInfo :: "stat \<Rightarrow> prog \<Rightarrow> prog" where
  "displayStatInfo sb p =
     printf ''File type:          '' (printf (file_type_text sb) (
     printf (''I-node number:          '' @ show_int (st_ino sb) @ [NL]) (
     (if st_mode sb \<noteq> 0 then
        Put Stdout (''    special bits set:    '' @
          (if st_mode sb AND 0x800 \<noteq> 0 then ''set-UID'' else []) @
          (if st_mode sb AND 0x400 \<noteq> 0 then ''set-GID'' else []) @
          (if st_mode sb AND 0x200 \<noteq> 0 then ''sticky'' else []) @ [NL])
      else (\<lambda>p. p)) (
     printf (''Number of (hard) links:     '' @ show_int (st_nlink sb) @ [NL]) (
     printf (''Ownership:                  UID='' @ show_int (st_uid sb) @ ''    GID='' @ show_int (st_gid sb) @ [NL]) (
     (if st_mode sb AND S_IFMT = 0x2000 \<or> st_mode sb AND S_IFMT = 0x6000 then
        Put Stdout (''Device number (st_rdev):   r_dev id = '' @ show_int (st_rdev sb) @ [NL])
      else (\<lambda>p. p)) (
     printf (''File size:                  '' @ show_int (st_size sb) @ '' bytes\<newline>'') (
     printf (''Optimal I/O block size:     '' @ show_int (st_blksize sb) @ '' bytes\<newline>'') (
     printf (''512B blocks allocated:      '' @ show_int (st_blocks sb) @ [NL]) (
     ctime_line ''Last file access:           '' (st_atim sb) (
     ctime_line ''Last file modification      '' (st_mtim sb) (
     ctime_line ''Last status change:         '' (st_ctim sb) p))))))))))))"

text \<open>\<open>junk\<close> is what the uninitialised \<open>sb\<close> holds.\<close>

definition t_stat_main :: "stat \<Rightarrow> string list \<Rightarrow> prog" where
  "t_stat_main junk argv =
     (let statLink = (length argv > 1 \<and> argv ! 1 = ''-l'');
          fname = (if statLink then 2 else 1) in
      if fname \<ge> length argv \<or> (length argv > 1 \<and> argv ! 1 = ''--help'') then
        printf (argv ! 0 @ '' [-l] file  -l = use lstat() instead of stat()\<newline>'') (exit (-1))
      else if statLink then
        Call (Path (Lstat (argv ! fname))) (\<lambda>l.
        if rv l = -1 then perror ''lstat system call'' (exit (-1))
        else Call (Path (Stat (argv ! fname))) (\<lambda>s.
          if rv s = -1 then perror ''stat system call'' (exit (-1))
          else displayStatInfo (stat_of s) (exit EXIT_SUCCESS)))
      else displayStatInfo junk (exit EXIT_SUCCESS))"

text \<open>The strings of the C library are parameters.\<close>

definition gnu_libc_main :: "string \<Rightarrow> string \<Rightarrow> prog" where
  "gnu_libc_main version release =
     printf (''GNU libc Version:      '' @ version @ [NL] @ ''GNU libc Release:     '' @ release @ [NL]) (exit 0)"

section \<open>t\_mount.c\<close>

abbreviation (input) APOS :: string where "APOS \<equiv> [CHR 0x27]"

definition mount_lines :: "string list" where
  "mount_lines = [
     ''-t fstype        [e.g., '' @ APOS @ ''ext2'' @ APOS @ '' or '' @ APOS @ ''reiserfs'' @ APOS @ '']\<newline>'',
     ''-o data        [file system-dependent options,\<newline>'',
     ''        e.g., '' @ APOS @ ''bsdgroups'' @ APOS @ '' for ext2]\<newline>'',
     ''-f mountflags    can include any of:\<newline>'',
     ''b - MS_BIND        create a bind mount\<newline>'',
     ''d - MS_DIRSYNC     synchronous directory updates\<newline>'',
     ''l - MS_MANDLOCK    permit mandatory locking\<newline>'',
     ''m - MS_MOVE        atomically move subtree\<newline>'',
     ''A - MS_NOATIME     don'' @ APOS @ ''t update atime(last access time)\<newline>'',
     ''V - MS_NODEV       don'' @ APOS @ ''t permit device access\<newline>'',
     ''D - MS_NODIRATIME  don'' @ APOS @ ''t update atime on directories\<newline>'',
     ''E - MS_NOEXEC      don'' @ APOS @ ''t allow executables\<newline>'',
     ''S - MS_NOSUID      disable set-user/group-ID programs\<newline>'',
     ''r - MS_RDONLY      read-only mount\<newline>'',
     ''c - MS_REC         recursive mount\<newline>'',
     ''R - MS_REMOUNT     remount\<newline>'',
     ''s - MS_SYNCHRONOUS make writes synchronous\<newline>'']"

definition mount_usageError :: "string \<Rightarrow> string option \<Rightarrow> prog" where
  "mount_usageError progName msg =
     (case msg of None \<Rightarrow> (\<lambda>p. p) | Some m \<Rightarrow> Put Stderr m) (
     eprintf (''Usage: '' @ progName @ '' [options] source target\<newline>\<newline>'') (
     eprintf ''Available options:\<newline>'' (
     foldr (\<lambda>l p. eprintf (''        '' @ l) p) mount_lines (exit EXIT_FAILURE))))"

definition mount_spec :: optspec where
  "mount_spec = [(CHR ''o'', True), (CHR ''t'', True), (CHR ''f'', True)]"

text \<open>
  The flags with their bits, in the order of the switch: without breaks, the case of a letter sets
  the bits of all that follow it and ends in the call of usageError.
\<close>

definition mount_flags :: "(char \<times> 64 word) list" where
  "mount_flags = [(CHR ''b'', 4096), (CHR ''d'', 128), (CHR ''l'', 64), (CHR ''m'', 8192), (CHR ''A'', 1024),
     (CHR ''V'', 4), (CHR ''D'', 2048), (CHR ''E'', 8), (CHR ''S'', 2), (CHR ''r'', 1), (CHR ''c'', 16384),
     (CHR ''R'', 32), (CHR ''s'', 16)]"

definition switch_flags :: "char \<Rightarrow> 64 word \<Rightarrow> 64 word" where
  "switch_flags c flags = foldl (OR) flags (map snd (dropWhile (\<lambda>(d, m). d \<noteq> c) mount_flags))"

fun mount_flag_loop :: "string \<Rightarrow> string \<Rightarrow> 64 word \<Rightarrow> (64 word \<Rightarrow> prog) \<Rightarrow> prog" where
  "mount_flag_loop self [] flags p = p flags"
| "mount_flag_loop self (c # cs) flags p =
     (let flags = switch_flags c flags in mount_usageError self None)"

fun mount_opts :: "string \<Rightarrow> (char \<times> string) list \<Rightarrow> string option \<Rightarrow> string option \<Rightarrow> 64 word \<Rightarrow>
    (string option \<Rightarrow> string option \<Rightarrow> 64 word \<Rightarrow> prog) \<Rightarrow> prog" where
  "mount_opts self [] data fstype flags p = p data fstype flags"
| "mount_opts self ((opt, optarg) # opts) data fstype flags p =
     (if opt = CHR ''o'' then mount_opts self opts (Some optarg) fstype flags p
      else if opt = CHR ''t'' then mount_opts self opts data (Some optarg) flags p
      else if opt = CHR ''f'' then mount_flag_loop self optarg flags (\<lambda>flags. mount_opts self opts data fstype flags p)
      else eprintf (getopt_message mount_spec self optarg) (mount_usageError self None))"

definition t_mount_main :: "string list \<Rightarrow> prog" where
  "t_mount_main argv =
     (let (opts, rest) = getopt mount_spec (drop 1 argv) in
      mount_opts (argv ! 0) opts None None 0 (\<lambda>data fstype flags.
      if length rest \<noteq> 2 then mount_usageError (argv ! 0) (Some ''Wrong number of arguments\<newline>'')
      else Call (Path (Mount (rest ! 0) (rest ! 1) fstype flags data)) (\<lambda>m.
        if rv m = -1 then perror ''mount'' (exit EXIT_FAILURE) else exit EXIT_SUCCESS)))"

section \<open>Properties\<close>




lemma show_bytes_run [simp]:
  "emitted Stdout (trace K (show_bytes f cs p) k) = concat (map f cs) @ emitted Stdout (trace K p k)"
  "outcome K (show_bytes f cs p) k = outcome K p k"
  "final K (show_bytes f cs p) k = final K p k"
  by (induction cs) simp_all



text \<open>
  t\_stat.c never knows a file type: for every file, of whatever kind, the type is reported as
  unknown, because the mode is combined with S\_IFMT by a logical instead of a bitwise and; and
  without -l neither stat nor lstat is called, so that the report shows uninitialised memory.
\<close>

theorem t_stat_unknown_type:
  "take 39 (emitted Stdout (trace K (displayStatInfo sb p) k)) = ''File type:          unknown file type?\<newline>'' \<and>
   (f \<noteq> ''-l'' \<and> f \<noteq> ''--help'' \<longrightarrow> t_stat_main junk [self, f] = displayStatInfo junk (exit EXIT_SUCCESS))"
  by (simp add: displayStatInfo_def file_type_text_def Let_def t_stat_main_def)

lemma t_stat_unknown_type_witness:
  "t_stat_main \<lparr>st_mode = 0x81a4, st_ino = 0, st_nlink = 0, st_uid = 0, st_gid = 0, st_rdev = 0, st_size = 0,
     st_blksize = 0, st_blocks = 0, st_atim = 0, st_mtim = 0, st_ctim = 0\<rparr> [''t_stat'', ''/etc/passwd''] =
   displayStatInfo \<lparr>st_mode = 0x81a4, st_ino = 0, st_nlink = 0, st_uid = 0, st_gid = 0, st_rdev = 0, st_size = 0,
     st_blksize = 0, st_blocks = 0, st_atim = 0, st_mtim = 0, st_ctim = 0\<rparr> (exit EXIT_SUCCESS)"
  by (rule t_stat_unknown_type [THEN conjunct2, rule_format]) simp

text \<open>usageError ends with EXIT\_FAILURE and makes no call.\<close>

lemma mount_usageError_run:
  "outcome K (mount_usageError self msg) k = Exited 1" "calls (trace K (mount_usageError self msg) k) = []"
proof -
  have "outcome K (foldr (\<lambda>l p. Put Stderr (''        '' @ l) p) ls (exit 1)) k = Exited 1"
    "calls (trace K (foldr (\<lambda>l p. Put Stderr (''        '' @ l) p) ls (exit 1)) k) = []" for ls
    by (induction ls) simp_all
  then show "outcome K (mount_usageError self msg) k = Exited 1" "calls (trace K (mount_usageError self msg) k) = []"
    by (simp_all add: mount_usageError_def split: option.splits)
qed

lemma mount_flag_loop_run:
  "outcome K (mount_flag_loop self cs fl p) k = (if cs = [] then outcome K (p fl) k else Exited 1)"
  "calls (trace K (mount_flag_loop self cs fl p) k) = (if cs = [] then calls (trace K (p fl) k) else [])"
  by (cases cs; simp add: mount_usageError_run Let_def)+

text \<open>
  No mount flag can be given to t\_mount.c: with a non-empty -f option, whatever its letters
  and whatever else is on the command line, the program ends with the usage message and
  EXIT\_FAILURE and never calls mount, because the cases of the switch fall through into the
  default case.
\<close>

theorem t_mount_flags_unusable:
  assumes "(CHR ''f'', c # cs) \<in> set (fst (getopt mount_spec (drop 1 argv)))"
  shows "outcome K (t_mount_main argv) k = Exited 1 \<and> calls (trace K (t_mount_main argv) k) = []"
proof -
  have bad: "outcome K (mount_opts self opts d t fl p) k = Exited 1 \<and> calls (trace K (mount_opts self opts d t fl p) k) = []"
    if "(CHR ''f'', c # cs) \<in> set opts" for self opts d t fl p
    using that by (induction self opts d t fl p rule: mount_opts.induct)
      (auto simp: mount_usageError_run mount_flag_loop_run)
  obtain opts rest where split: "getopt mount_spec (drop 1 argv) = (opts, rest)" by (cases "getopt mount_spec (drop 1 argv)")
  then have "(CHR ''f'', c # cs) \<in> set opts" using assms by simp
  then show ?thesis unfolding t_mount_main_def split Let_def prod.case by (rule bad)
qed

lemma t_mount_flags_unusable_witness:
  "outcome script (t_mount_main [''t_mount'', ''-f'', ''r'', ''/dev/sda'', ''/mnt'']) [] = Exited 1"
proof -
  have "(CHR ''f'', CHR ''r'' # []) \<in> set (fst (getopt mount_spec (drop 1 [''t_mount'', ''-f'', ''r'', ''/dev/sda'', ''/mnt''])))"
    by (simp add: mount_spec_def is_option_def)
  from t_mount_flags_unusable [OF this, of script "[]"] show ?thesis by (rule conjunct1)
qed

end
