(* ===== verification/Signals.thy ===== *)
theory Signals
  imports Syscalls
begin

text \<open>
  The signal programs: src/signals/signal\_functions.c, sig\_receiver.c, sig\_sender.c,
  t\_sigqueue.c, catch\_rtsigs.c, intquit.c and ouch.c.

  A signal handler runs between two steps of the main program. When one runs is the system's
  choice, so the answer of a call names the signals whose handlers have run by the time the call
  returned (in \<open>ints\<close>, five numbers for each, see \<open>siginfos\<close>), and the program text applies its
  handler to them. A loop that only tests a variable which a handler sets loads that variable by a
  call (\<open>Mem_load\<close>) in every iteration, for the same reason.

  \<open>sig_K\<close> is a system with one process, its signal mask, its pending signals and the signals it has
  handlers for: standard signals are a set, realtime signals a queue, SIGKILL and SIGSTOP can be
  neither blocked nor caught. The theorems connect the senders to the receivers over it.
\<close>

section \<open>signal\_functions.c\<close>

abbreviation (input) SIGINT :: int where "SIGINT \<equiv> 2"
abbreviation (input) SIGQUIT :: int where "SIGQUIT \<equiv> 3"
abbreviation (input) SIGTERM :: int where "SIGTERM \<equiv> 15"
abbreviation (input) SIGSTOP :: int where "SIGSTOP \<equiv> 19"
abbreviation (input) SIG_BLOCK :: int where "SIG_BLOCK \<equiv> 0"
abbreviation (input) SIG_SETMASK :: int where "SIG_SETMASK \<equiv> 2"
abbreviation (input) SA_SIGINFO :: flags where "SA_SIGINFO \<equiv> 4"

text \<open>
  The signals from 1 up to, and without, NSIG, which is 65 on Linux. The C library keeps 32 and 33 for
  itself: sigfillset leaves them out.
\<close>

definition all_signals :: "int list" where
  "all_signals = map int [1..<65]"

definition sigfillset :: "int set" where
  "sigfillset = set (filter (\<lambda>n. n \<noteq> 32 \<and> n \<noteq> 33) all_signals)"

fun sigset_loop :: "(int \<Rightarrow> string) \<Rightarrow> port \<Rightarrow> string \<Rightarrow> int set \<Rightarrow> int list \<Rightarrow> nat \<Rightarrow> prog \<Rightarrow> prog" where
  "sigset_loop strsignal out prefix sigset [] cnt p =
     (if cnt = 0 then Put out (prefix @ ''<empty signal set>\<newline>'') p else p)"
| "sigset_loop strsignal out prefix sigset (sig # sigs) cnt p =
     (if sig \<in> sigset then
        Put out (prefix @ show_int sig @ '' ('' @ strsignal sig @ '')\<newline>'')
          (sigset_loop strsignal out prefix sigset sigs (cnt + 1) p)
      else sigset_loop strsignal out prefix sigset sigs cnt p)"

definition printSigset :: "(int \<Rightarrow> string) \<Rightarrow> port \<Rightarrow> string \<Rightarrow> int set \<Rightarrow> prog \<Rightarrow> prog" where
  "printSigset strsignal out prefix sigset p = sigset_loop strsignal out prefix sigset all_signals 0 p"

text \<open>The set a call stored is in \<open>ints2\<close> of its answer.\<close>

definition print_msg :: "port \<Rightarrow> string option \<Rightarrow> prog \<Rightarrow> prog" where
  "print_msg out msg p = (case msg of None \<Rightarrow> p | Some m \<Rightarrow> Put out m p)"

definition printSigMask :: "(int \<Rightarrow> string) \<Rightarrow> port \<Rightarrow> string option \<Rightarrow> (int \<Rightarrow> prog) \<Rightarrow> prog" where
  "printSigMask strsignal out msg k =
     print_msg out msg (
     Call (Sig (Sigprocmask SIG_BLOCK None)) (\<lambda>r.
     if rv r = -1 then k (-1)
     else printSigset strsignal out [TAB, TAB] (set (ints2 r)) (k 0)))"

definition printPendingSigs :: "(int \<Rightarrow> string) \<Rightarrow> port \<Rightarrow> string option \<Rightarrow> (int \<Rightarrow> prog) \<Rightarrow> prog" where
  "printPendingSigs strsignal out msg k =
     print_msg out msg (
     Call (Sig Sigpending) (\<lambda>r.
     if rv r = -1 then k (-1)
     else printSigset strsignal out [TAB, TAB] (set (ints2 r)) (k 0)))"

section \<open>Delivered signals\<close>

record siginfo =
  si_signo :: int
  si_code :: int
  si_value :: int
  si_pid :: int
  si_uid :: int

fun siginfos :: "int list \<Rightarrow> siginfo list" where
  "siginfos (a # b # c # d # e # is) =
     \<lparr>si_signo = a, si_code = b, si_value = c, si_pid = d, si_uid = e\<rparr> # siginfos is"
| "siginfos _ = []"

definition arrived :: "ret \<Rightarrow> siginfo list" where
  "arrived r = siginfos (ints r)"

section \<open>sig\_receiver.c\<close>

text \<open>The static variables: gotSigint and the counters, one for each signal number.\<close>

record counters =
  gotSigint :: bool
  sigCnt :: "int \<Rightarrow> int"

definition sigHandler :: "int \<Rightarrow> counters \<Rightarrow> counters" where
  "sigHandler sig c =
     (if sig = SIGINT then c\<lparr>gotSigint := True\<rparr> else c\<lparr>sigCnt := (sigCnt c)(sig := sigCnt c sig + 1)\<rparr>)"

definition handle :: "ret \<Rightarrow> counters \<Rightarrow> counters" where
  "handle r c = fold (\<lambda>i. sigHandler (si_signo i)) (arrived r) c"

fun install :: "string \<Rightarrow> int list \<Rightarrow> counters \<Rightarrow> (counters \<Rightarrow> prog) \<Rightarrow> prog" where
  "install h [] c k = k c"
| "install h (n # ns) c k = Call (Sig (Signal n h)) (\<lambda>r. install h ns (handle r c) k)"

fun spin :: "nat \<Rightarrow> counters \<Rightarrow> (counters \<Rightarrow> prog) \<Rightarrow> prog" where
  "spin 0 c k = Halt Unfinished"
| "spin (Suc m) c k =
     Call (Mem (Mem_load 0 4)) (\<lambda>r.
     let c' = handle r c in if gotSigint c' then k c' else spin m c' k)"

fun show_counts :: "string \<Rightarrow> counters \<Rightarrow> int list \<Rightarrow> prog \<Rightarrow> prog" where
  "show_counts self c [] p = p"
| "show_counts self c (n # ns) p =
     (if sigCnt c n \<noteq> 0 then
        printf (self @ '' signal '' @ show_int n @ '' caught '' @ show_int (sigCnt c n) @ '' time'' @
                (if sigCnt c n = 1 then [] else ''s'') @ [NL]) (show_counts self c ns p)
      else show_counts self c ns p)"

definition sig_receiver_block :: "(int \<Rightarrow> string) \<Rightarrow> string list \<Rightarrow> counters \<Rightarrow> (counters \<Rightarrow> prog) \<Rightarrow> prog" where
  "sig_receiver_block strsignal argv c k =
     (let numSecs = atoi (argv ! 1) in
      Call (Sig (Sigprocmask SIG_BLOCK (Some sigfillset))) (\<lambda>b.
      let c = handle b c in
      if rv b = -1 then perror ''sigprocmask'' (exit EXIT_FAILURE)
      else printf (argv ! 0 @ '': sleeping for '' @ show_int numSecs @ '' seconds\<newline>'') (
      Call (Proc (Sleep numSecs)) (\<lambda>s.
      let c = handle s c in
      Call (Sig Sigpending) (\<lambda>q.
      let c = handle q c in
      if rv q = -1 then perror ''sigpending'' (exit EXIT_FAILURE)
      else printf (argv ! 0 @ '': pending signals are: \<newline>'') (
      printSigset strsignal Stdout [TAB, TAB] (set (ints2 q)) (
      Call (Sig (Sigprocmask SIG_SETMASK (Some {}))) (\<lambda>u.
      let c = handle u c in
      if rv u = -1 then perror ''sigprocmask'' (exit EXIT_FAILURE)
      else k c))))))))"

definition sig_receiver_main :: "(int \<Rightarrow> string) \<Rightarrow> nat \<Rightarrow> string list \<Rightarrow> prog" where
  "sig_receiver_main strsignal fuel argv =
     Call (Proc Getpid) (\<lambda>p.
     printf (argv ! 0 @ '': PID is '' @ show_int (rv p) @ [NL]) (
     install ''sigHandler'' all_signals \<lparr>gotSigint = False, sigCnt = (\<lambda>_. 0)\<rparr> (\<lambda>c.
     (if length argv > 1 then sig_receiver_block strsignal argv c else (\<lambda>k. k c)) (\<lambda>c.
     spin fuel c (\<lambda>c.
     show_counts (argv ! 0) c all_signals (exit EXIT_SUCCESS))))))"

section \<open>sig\_sender.c\<close>

fun kill_times :: "nat \<Rightarrow> int \<Rightarrow> int \<Rightarrow> prog \<Rightarrow> prog" where
  "kill_times 0 pid sig p = p"
| "kill_times (Suc j) pid sig p =
     Call (Sig (Kill pid sig)) (\<lambda>r.
     if rv r = -1 then perror ''kill-signal-sending'' (exit EXIT_FAILURE) else kill_times j pid sig p)"

text \<open>pid\_t is an int, so that the value of atol is converted.\<close>

definition sig_sender_main :: "string list \<Rightarrow> prog" where
  "sig_sender_main argv =
     (if length argv < 4 \<or> argv ! 1 = ''--help'' then
        eprintf (argv ! 0 @ '' pid num-sigs sig-num [sig-num-2]\<newline>'') (exit EXIT_FAILURE)
      else
        let pid = to_int (atol (argv ! 1)); numSigs = atoi (argv ! 2); sig = atoi (argv ! 3) in
        printf (argv ! 0 @ '': sending signal '' @ show_int sig @ '' to the receiver process '' @ show_int pid @
                '' '' @ show_int numSigs @ '' times\<newline>'') (
        kill_times (nat numSigs) pid sig (
        (if length argv > 4 then
           (\<lambda>p. Call (Sig (Kill pid (atoi (argv ! 4)))) (\<lambda>r.
             if rv r = -1 then perror ''kill-signal-sending-2'' (exit EXIT_FAILURE) else p))
         else id)
        (printf (argv ! 0 @ '': exiting\<newline>'') (exit EXIT_SUCCESS)))))"

section \<open>t\_sigqueue.c\<close>

text \<open>The addition \<open>sigData + j\<close> is one of ints: undefined where it overflows.\<close>

fun queue_loop :: "int \<Rightarrow> int \<Rightarrow> int \<Rightarrow> nat \<Rightarrow> int \<Rightarrow> prog" where
  "queue_loop pid sig sigData 0 j = exit EXIT_SUCCESS"
| "queue_loop pid sig sigData (Suc n) j =
     (if sigData + j > INT_MAX then Halt Undefined
      else Call (Sig (Sigqueue pid sig (sigData + j))) (\<lambda>r.
        if rv r = -1 then perror ''sigqueue'' (exit EXIT_FAILURE)
        else queue_loop pid sig sigData n (j + 1)))"

definition t_sigqueue_main :: "string list \<Rightarrow> prog" where
  "t_sigqueue_main argv =
     (if length argv < 4 \<or> argv ! 1 = ''--help'' then
        eprintf (argv ! 0 @ '' pid sig-num data [num-sigs]\<newline>'') (exit EXIT_FAILURE)
      else
        Call (Proc Getpid) (\<lambda>p. Call (Ev Getuid) (\<lambda>u.
        printf (argv ! 0 @ '': PID is '' @ show_int (rv p) @ '', UID is '' @ show_int (rv u) @ [NL]) (
        let sig = atoi (argv ! 2); sigData = atoi (argv ! 3);
            numSigs = (if length argv > 4 then atoi (argv ! 4) else 1) in
        queue_loop (atoi (argv ! 1)) sig sigData (nat numSigs) 0))))"

section \<open>catch\_rtsigs.c\<close>

text \<open>The static variables sigCnt and allDone; handlerSleepTime is an argument of the handler.\<close>

record rt_state =
  rt_cnt :: int
  allDone :: bool

definition si_code_name :: "int \<Rightarrow> string" where
  "si_code_name c = (if c = 0 then ''SI_USER'' else if c = -1 then ''SI_QUEUE'' else ''other'')"

definition siginfo_text :: "siginfo \<Rightarrow> string" where
  "siginfo_text si =
     ''    si_signo='' @ show_int (si_signo si) @ '', si_code='' @ show_int (si_code si) @
     '' ('' @ si_code_name (si_code si) @ ''), ''"

text \<open>The continuation of the handler also takes the signals that were held back while it slept.\<close>

definition siginfoHandler :: "int \<Rightarrow> siginfo \<Rightarrow> rt_state \<Rightarrow> (siginfo list \<Rightarrow> rt_state \<Rightarrow> prog) \<Rightarrow> prog" where
  "siginfoHandler sleepTime si st k =
     (let sig = si_signo si in
      if sig = SIGINT \<or> sig = SIGTERM then k [] (st\<lparr>allDone := True\<rparr>)
      else
        let st = st\<lparr>rt_cnt := rt_cnt st + 1\<rparr> in
        printf (''caught a signal '' @ show_int sig @ [NL]) (
        printf (siginfo_text si) (
        printf (''si_value='' @ show_int (si_value si) @ [NL]) (
        printf (''    si_pid='' @ show_int (si_pid si) @ '', si_uid='' @ show_int (si_uid si) @ [NL]) (
        Call (Proc (Sleep sleepTime)) (\<lambda>r. k (arrived r) st))))))"

text \<open>
  The handlers for the signals arrived at a call. They run one after the other, because sa\_mask
  blocks every signal while a handler runs; signals that arrive in a handler's sleep are handled
  when it has returned. Since each of these may bring further ones, the number of handlers run in
  a row is bounded by \<open>n\<close>.
\<close>

fun handle_rt :: "int \<Rightarrow> nat \<Rightarrow> siginfo list \<Rightarrow> rt_state \<Rightarrow> (rt_state \<Rightarrow> prog) \<Rightarrow> prog" where
  "handle_rt t n [] st k = k st"
| "handle_rt t 0 (si # sis) st k = Halt Unfinished"
| "handle_rt t (Suc n) (si # sis) st k =
     siginfoHandler t si st (\<lambda>more st. handle_rt t n (sis @ more) st k)"

fun install_rt :: "int \<Rightarrow> nat \<Rightarrow> int list \<Rightarrow> rt_state \<Rightarrow> (rt_state \<Rightarrow> prog) \<Rightarrow> prog" where
  "install_rt t n [] st k = k st"
| "install_rt t n (sig # sigs) st k =
     (if sig \<noteq> SIGSTOP \<and> sig \<noteq> SIGQUIT then
        Call (Sig (Sigaction sig ''siginfoHandler'' SA_SIGINFO sigfillset)) (\<lambda>r.
        handle_rt t n (arrived r) st (\<lambda>st. install_rt t n sigs st k))
      else install_rt t n sigs st k)"

fun pause_until_done :: "int \<Rightarrow> nat \<Rightarrow> nat \<Rightarrow> rt_state \<Rightarrow> (rt_state \<Rightarrow> prog) \<Rightarrow> prog" where
  "pause_until_done t n 0 st k = Halt Unfinished"
| "pause_until_done t n (Suc m) st k =
     (if allDone st then k st
      else Call (Sig Pause) (\<lambda>r. handle_rt t n (arrived r) st (\<lambda>st. pause_until_done t n m st k)))"

text \<open>The block of the source that is run with signals blocked, for argc > 1.\<close>

definition rt_block :: "int \<Rightarrow> nat \<Rightarrow> string list \<Rightarrow> rt_state \<Rightarrow> (rt_state \<Rightarrow> prog) \<Rightarrow> prog" where
  "rt_block t n argv st k =
     Call (Sig (Sigprocmask SIG_SETMASK (Some (sigfillset - {SIGINT, SIGTERM})))) (\<lambda>b.
     handle_rt t n (arrived b) st (\<lambda>st.
     if rv b = -1 then perror ''sigprocmask'' (exit EXIT_FAILURE)
     else printf (argv ! 0 @ '': signals blocked - sleeping '' @ argv ! 1 @ '' seconds\<newline>'') (
     Call (Proc (Sleep (atoi (argv ! 1)))) (\<lambda>s.
     handle_rt t n (arrived s) st (\<lambda>st.
     printf (argv ! 0 @ '': sleep complete\<newline>'') (
     Call (Sig (Sigprocmask SIG_SETMASK (Some (set (ints2 b))))) (\<lambda>u.
     handle_rt t n (arrived u) st (\<lambda>st.
     if rv u = -1 then perror ''sigprocmask'' (exit EXIT_FAILURE) else k st))))))))"

text \<open>
  The body of the if statement of main: the brace that should close the usage branch is missing,
  and all the rest of main is inside of it.
\<close>

definition catch_rtsigs_body :: "nat \<Rightarrow> string list \<Rightarrow> prog" where
  "catch_rtsigs_body fuel argv =
     eprintf (argv ! 0 @ '' [block-time [handler-sleep-time]]\<newline>'') (
     Call (Proc Getpid) (\<lambda>p.
     printf (argv ! 0 @ '': PID is '' @ show_int (rv p) @ [NL]) (
     let t = (if length argv > 2 then atoi (argv ! 2) else 1) in
     install_rt t fuel all_signals \<lparr>rt_cnt = 0, allDone = False\<rparr> (\<lambda>st.
     (if length argv > 1 then rt_block t fuel argv st else (\<lambda>k. k st)) (\<lambda>st.
     pause_until_done t fuel fuel st (\<lambda>st.
     printf (''Caught '' @ show_int (rt_cnt st) @ '' signals\<newline>'') (exit EXIT_SUCCESS)))))))"

definition catch_rtsigs_main :: "nat \<Rightarrow> string list \<Rightarrow> prog" where
  "catch_rtsigs_main fuel argv =
     (if length argv > 1 then catch_rtsigs_body fuel argv
      else with_arg argv 1 (\<lambda>a. if a = ''--help'' then catch_rtsigs_body fuel argv else exit 0))"

section \<open>intquit.c and ouch.c\<close>

text \<open>The handler of intquit.c with its static counter; on SIGQUIT it ends the process.\<close>

definition intquit_handler :: "int \<Rightarrow> int \<Rightarrow> (int \<Rightarrow> prog) \<Rightarrow> prog" where
  "intquit_handler sig count k =
     (if sig = SIGINT then
        let count = count + 1 in printf (''Caught SIGINT ('' @ show_int count @ '')\<newline>'') (k count)
      else printf ''Caught SIGQUIT - that's all\<newline>'' (exit EXIT_SUCCESS))"

fun intquit_handle :: "siginfo list \<Rightarrow> int \<Rightarrow> (int \<Rightarrow> prog) \<Rightarrow> prog" where
  "intquit_handle [] count k = k count"
| "intquit_handle (si # sis) count k =
     intquit_handler (si_signo si) count (\<lambda>count. intquit_handle sis count k)"

fun intquit_loop :: "nat \<Rightarrow> int \<Rightarrow> prog" where
  "intquit_loop 0 count = Halt Unfinished"
| "intquit_loop (Suc m) count =
     Call (Sig Pause) (\<lambda>r. intquit_handle (arrived r) count (intquit_loop m))"

definition intquit_main :: "nat \<Rightarrow> prog" where
  "intquit_main fuel =
     Call (Sig (Signal SIGINT ''signalHandler'')) (\<lambda>a.
     intquit_handle (arrived a) 0 (\<lambda>count.
     if rv a = -1 then perror ''signal-SIGINT'' (exit EXIT_FAILURE)
     else Call (Sig (Signal SIGQUIT ''signalHandler'')) (\<lambda>b.
     intquit_handle (arrived b) count (\<lambda>count.
     if rv b = -1 then perror ''signal-SIGQUIT'' (exit EXIT_FAILURE)
     else intquit_loop fuel count))))"

fun ouches :: "siginfo list \<Rightarrow> prog \<Rightarrow> prog" where
  "ouches [] p = p"
| "ouches (si # sis) p = printf ''Ouch\<newline>'' (ouches sis p)"

fun ouch_loop :: "nat \<Rightarrow> int \<Rightarrow> prog" where
  "ouch_loop 0 j = Halt Unfinished"
| "ouch_loop (Suc m) j =
     printf (show_int j @ [NL]) (Call (Proc (Sleep 3)) (\<lambda>r. ouches (arrived r) (ouch_loop m (j + 1))))"

definition ouch_main :: "nat \<Rightarrow> prog" where
  "ouch_main fuel =
     Call (Sig (Signal SIGINT ''signalHandler'')) (\<lambda>a.
     ouches (arrived a) (
     if rv a = -1 then perror ''signal'' (exit (-1)) else ouch_loop fuel 0))"

section \<open>A system that delivers signals\<close>

text \<open>
  The signal state of one process: its mask, what is pending in the order of arrival, the batches
  of signals that other processes are going to send, one batch for each call that takes time (a
  sleep, a pause, a turn of a busy loop), and the signals it has installed a handler for. A signal
  that is delivered without a handler gets its default action, which ends the process for most
  signals: it is recorded in \<open>sig_default\<close>, and a run describes the process only as long as nothing is
  recorded there.
\<close>

record sig_state =
  sig_blocked :: "int set"
  sig_pending :: "siginfo list"
  sig_arrivals :: "siginfo list list"
  sig_caught :: "int set"
  sig_default :: "siginfo list"

definition sig_start :: "siginfo list list \<Rightarrow> sig_state" where
  "sig_start arr = \<lparr>sig_blocked = {}, sig_pending = [], sig_arrivals = arr, sig_caught = {}, sig_default = []\<rparr>"

text \<open>
  SIGKILL (9) and SIGSTOP have no handlers, and the C library refuses to install one for its own
  signals. A mask never holds these.
\<close>

definition catchable :: "int \<Rightarrow> bool" where
  "catchable n = (1 \<le> n \<and> n \<le> 64 \<and> n \<noteq> 9 \<and> n \<noteq> SIGSTOP \<and> n \<noteq> 32 \<and> n \<noteq> 33)"

text \<open>Standard signals are pending or not, realtime signals are queued.\<close>

definition post :: "siginfo \<Rightarrow> siginfo list \<Rightarrow> siginfo list" where
  "post si q = (if si_signo si < 32 \<and> si_signo si \<in> si_signo ` set q then q else q @ [si])"

definition siginfo_ints :: "siginfo \<Rightarrow> int list" where
  "siginfo_ints si = [si_signo si, si_code si, si_value si, si_pid si, si_uid si]"

text \<open>Delivery of what is pending and not blocked. The set in \<open>ints2\<close> is \<open>stored\<close>.\<close>

definition sig_deliver :: "int list \<Rightarrow> sig_state \<Rightarrow> ret \<times> sig_state" where
  "sig_deliver stored s =
     (let due = filter (\<lambda>i. si_signo i \<notin> sig_blocked s) (sig_pending s) in
     (\<lparr>rv = 0, err = 0, bytes = [],
        ints = concat (map siginfo_ints (filter (\<lambda>i. si_signo i \<in> sig_caught s) due)),
        ints2 = stored, strs = [], ais = []\<rparr>,
      s\<lparr>sig_pending := filter (\<lambda>i. si_signo i \<in> sig_blocked s) (sig_pending s),
        sig_default := sig_default s @ filter (\<lambda>i. si_signo i \<notin> sig_caught s) due\<rparr>))"

definition sig_install :: "int \<Rightarrow> sig_state \<Rightarrow> ret \<times> sig_state" where
  "sig_install n s =
     (if catchable n then sig_deliver [] (s\<lparr>sig_caught := insert n (sig_caught s)\<rparr>) else (fail EINVAL, s))"

definition sig_arrive :: "sig_state \<Rightarrow> sig_state" where
  "sig_arrive s = (case sig_arrivals s of [] \<Rightarrow> s
     | b # bs \<Rightarrow> s\<lparr>sig_pending := fold post b (sig_pending s), sig_arrivals := bs\<rparr>)"

definition sig_K :: "sig_state kernel" where
  "sig_K s c = (case c of
      Sig (Sigprocmask how m) \<Rightarrow>
        (case m of None \<Rightarrow> sig_deliver (filter (\<lambda>n. n \<in> sig_blocked s) all_signals) s
         | Some m \<Rightarrow> sig_deliver (filter (\<lambda>n. n \<in> sig_blocked s) all_signals)
            (s\<lparr>sig_blocked := Set.filter catchable (if how = SIG_SETMASK then m else sig_blocked s \<union> m)\<rparr>))
    | Sig (Signal n h) \<Rightarrow> sig_install n s
    | Sig (Sigaction n h f m) \<Rightarrow> sig_install n s
    | Sig Sigpending \<Rightarrow> sig_deliver (map si_signo (sig_pending s)) s
    | Sig Pause \<Rightarrow> sig_deliver [] (sig_arrive s)
    | Proc (Sleep n) \<Rightarrow> sig_deliver [] (sig_arrive s)
    | Mem (Mem_load a n) \<Rightarrow> sig_deliver [] (sig_arrive s)
    | _ \<Rightarrow> sig_deliver [] s)"

section \<open>Lemmas\<close>

lemma siginfos_ints [simp]: "siginfos (concat (map siginfo_ints is)) = is"
  by (induction "is") (simp_all add: siginfo_ints_def)

lemma sig_deliver_simps [simp]:
  "arrived (fst (sig_deliver st s)) =
     filter (\<lambda>i. si_signo i \<in> sig_caught s) (filter (\<lambda>i. si_signo i \<notin> sig_blocked s) (sig_pending s))"
  "rv (fst (sig_deliver st s)) = 0" "ints2 (fst (sig_deliver st s)) = st"
  "snd (sig_deliver st s) = s\<lparr>sig_pending := filter (\<lambda>i. si_signo i \<in> sig_blocked s) (sig_pending s),
     sig_default := sig_default s @ filter (\<lambda>i. si_signo i \<notin> sig_caught s) (filter (\<lambda>i. si_signo i \<notin> sig_blocked s) (sig_pending s))\<rparr>"
  by (simp_all add: sig_deliver_def arrived_def Let_def del: filter_filter)

lemma sig_K_simps [simp]:
  "sig_K s (Sig Pause) = sig_deliver [] (sig_arrive s)" "sig_K s (Proc (Sleep n)) = sig_deliver [] (sig_arrive s)"
  "sig_K s (Mem (Mem_load a n)) = sig_deliver [] (sig_arrive s)" "sig_K s (Proc Getpid) = sig_deliver [] s"
  "sig_K s (Sig (Signal n h)) = sig_install n s" "sig_K s (Sig (Sigaction n h f m)) = sig_install n s"
  "sig_K s (Sig Sigpending) = sig_deliver (map si_signo (sig_pending s)) s"
  "sig_K s (Sig (Sigprocmask how (Some m))) = sig_deliver (filter (\<lambda>n. n \<in> sig_blocked s) all_signals)
     (s\<lparr>sig_blocked := Set.filter catchable (if how = SIG_SETMASK then m else sig_blocked s \<union> m)\<rparr>)"
  by (simp_all add: sig_K_def)

lemma no_signals [simp]: "sig_pending s = [] \<Longrightarrow> s\<lparr>sig_pending := [], sig_default := sig_default s\<rparr> = s" by simp

lemma sig_start_simps [simp]:
  "sig_pending (sig_start arr) = []" "sig_blocked (sig_start arr) = {}" "sig_arrivals (sig_start arr) = arr"
  "sig_default (sig_start arr) = []" "(sig_start arr)\<lparr>sig_pending := [], sig_default := []\<rparr> = sig_start arr"
  by (simp_all add: sig_start_def)

lemma arrived_fail [simp]: "arrived (fail e) = []"
  by (simp add: arrived_def)

lemma in_all_signals [simp]: "n \<in> set all_signals \<longleftrightarrow> 1 \<le> n \<and> n \<le> 64"
proof
  assume "1 \<le> n \<and> n \<le> 64"
  then show "n \<in> set all_signals" by (auto simp: all_signals_def image_iff intro!: bexI [of _ "nat n"])
qed (auto simp: all_signals_def)

lemma distinct_all_signals: "distinct all_signals"
  by (simp add: all_signals_def distinct_map)

lemma show_nat_0: "show_nat 0 = ''0''"
  by code_simp

lemma in_sigfillset [simp]: "n \<in> sigfillset \<longleftrightarrow> 1 \<le> n \<and> n \<le> 64 \<and> n \<noteq> 32 \<and> n \<noteq> 33"
  by (auto simp: sigfillset_def)

text \<open>A process that has installed its handlers.\<close>

definition with_handlers :: "int set \<Rightarrow> sig_state \<Rightarrow> sig_state" where
  "with_handlers A s = s\<lparr>sig_caught := sig_caught s \<union> {n \<in> A. catchable n}\<rparr>"

lemma with_handlers_simps [simp]:
  "with_handlers {} s = s" "sig_pending (with_handlers A s) = sig_pending s" "sig_blocked (with_handlers A s) = sig_blocked s"
  "sig_arrivals (with_handlers A s) = sig_arrivals s" "sig_default (with_handlers A s) = sig_default s"
  "sig_caught (with_handlers A s) = sig_caught s \<union> {n \<in> A. catchable n}"
  by (simp_all add: with_handlers_def)

lemma with_handlers_Un: "with_handlers A (with_handlers B s) = with_handlers (A \<union> B) s"
proof -
  have "{n \<in> B. catchable n} \<union> {n \<in> A. catchable n} = {n \<in> A \<union> B. catchable n}" by blast
  then show ?thesis by (simp add: with_handlers_def Un_assoc)
qed

lemma sig_install_quiet [simp]:
  assumes "sig_pending s = []"
  shows "arrived (fst (sig_install n s)) = []" "snd (sig_install n s) = with_handlers {n} s"
    "catchable n \<Longrightarrow> rv (fst (sig_install n s)) = 0"
proof -
  have "{m. m = n \<and> catchable m} = (if catchable n then {n} else {})" by auto
  then show "snd (sig_install n s) = with_handlers {n} s" using assms
    by (cases s) (simp add: sig_install_def with_handlers_def)
qed (use assms in \<open>simp_all add: sig_install_def\<close>)

lemma install_run:
  assumes "sig_pending s = []"
  shows "emitted p (trace sig_K (install h ns c k) s) = emitted p (trace sig_K (k c) (with_handlers (set ns) s))"
    "outcome sig_K (install h ns c k) s = outcome sig_K (k c) (with_handlers (set ns) s)"
    "final sig_K (install h ns c k) s = final sig_K (k c) (with_handlers (set ns) s)"
  using assms by (induction ns arbitrary: s) (simp_all add: handle_def with_handlers_Un)

lemma install_rt_run:
  assumes "sig_pending s = []"
  shows "emitted p (trace sig_K (install_rt t n ns st k) s) = emitted p (trace sig_K (k st) (with_handlers (set ns - {SIGSTOP, SIGQUIT}) s))"
    "outcome sig_K (install_rt t n ns st k) s = outcome sig_K (k st) (with_handlers (set ns - {SIGSTOP, SIGQUIT}) s)"
    "final sig_K (install_rt t n ns st k) s = final sig_K (k st) (with_handlers (set ns - {SIGSTOP, SIGQUIT}) s)"
  using assms by (induction ns arbitrary: s) (simp_all add: with_handlers_Un insert_Diff_if)

text \<open>printSigset prints the members of the set in increasing order, one line for each.\<close>

lemma sigset_loop_run:
  "emitted q (trace K (sigset_loop strsignal out prefix A sigs cnt p) k) =
     (if q = out then concat (map (\<lambda>n. prefix @ show_int n @ '' ('' @ strsignal n @ '')\<newline>'') (filter (\<lambda>n. n \<in> A) sigs)) @
        (if cnt = 0 \<and> filter (\<lambda>n. n \<in> A) sigs = [] then prefix @ ''<empty signal set>\<newline>'' else []) else []) @
     emitted q (trace K p k)"
proof (induction sigs arbitrary: cnt)
  case (Cons sig sigs)
  show ?case using Cons.IH [of cnt] Cons.IH [of "cnt + 1"] by (cases "q = out"; cases "sig \<in> A"; cases cnt) simp_all
qed simp

lemma sigset_loop_outcome:
  "outcome K (sigset_loop strsignal out prefix A sigs cnt p) k = outcome K p k"
  "final K (sigset_loop strsignal out prefix A sigs cnt p) k = final K p k"
  by (induction sigs arbitrary: cnt) simp_all

lemmas printSigset_run = sigset_loop_run [where sigs = all_signals and cnt = 0, folded printSigset_def]
  sigset_loop_outcome [where sigs = all_signals and cnt = 0, folded printSigset_def]

lemma show_counts_run:
  "emitted Stdout (trace K (show_counts self c ns p) k) =
     concat (map (\<lambda>n. self @ '' signal '' @ show_int n @ '' caught '' @ show_int (sigCnt c n) @
        '' time'' @ (if sigCnt c n = 1 then [] else ''s'') @ [NL]) (filter (\<lambda>n. sigCnt c n \<noteq> 0) ns)) @
     emitted Stdout (trace K p k)"
  "outcome K (show_counts self c ns p) k = outcome K p k"
  "final K (show_counts self c ns p) k = final K p k"
  by (induction ns) simp_all

lemma fold_sigHandler:
  "gotSigint (fold (\<lambda>i. sigHandler (si_signo i)) is c) = (gotSigint c \<or> SIGINT \<in> si_signo ` set is)"
  "n \<noteq> SIGINT \<Longrightarrow> sigCnt (fold (\<lambda>i. sigHandler (si_signo i)) is c) n = sigCnt c n + int (count_list (map si_signo is) n)"
  "sigCnt (fold (\<lambda>i. sigHandler (si_signo i)) is c) SIGINT = sigCnt c SIGINT"
  by (induction "is" arbitrary: c) (auto simp: sigHandler_def)

text \<open>What is pending after a batch of signals arrived.\<close>

lemma signos_fold_post: "si_signo ` set (fold post b q) = si_signo ` set b \<union> si_signo ` set q"
  by (induction b arbitrary: q) (auto simp: post_def)

lemma count_fold_post:
  "count_list (map si_signo (fold post b q)) n =
     (if n < 32 \<and> 0 < count_list (map si_signo q) n + count_list (map si_signo b) n
      then max 1 (count_list (map si_signo q) n) else count_list (map si_signo q) n + count_list (map si_signo b) n)"
proof (induction b arbitrary: q)
  case (Cons i b)
  have "i' \<in> si_signo ` set q \<longleftrightarrow> 0 < count_list (map si_signo q) i'" for i'
    by (metis count_list_0_iff image_set neq0_conv)
  then have "count_list (map si_signo (post i q)) n = (if si_signo i = n \<and> n < 32 then max 1 (count_list (map si_signo q) n)
    else count_list (map si_signo q) n + (if si_signo i = n then 1 else 0))"
    by (auto simp: post_def)
  then show ?case by (simp add: Cons.IH)
qed simp

section \<open>Properties\<close>

lemma count_replicate_list: "count_list (replicate m x) y = (if x = y then m else 0)"
  by (induction m) auto

text \<open>The signals that the kills of a run send.\<close>

fun killed :: "syscall list \<Rightarrow> siginfo list" where
  "killed [] = []"
| "killed (Sig (Kill pid sig) # cs) = \<lparr>si_signo = sig, si_code = 0, si_value = 0, si_pid = 0, si_uid = 0\<rparr> # killed cs"
| "killed (_ # cs) = killed cs"

lemma killed_append [simp]: "killed (cs @ ds) = killed cs @ killed ds"
  by (induction cs rule: killed.induct) simp_all

lemma kill_times_killed:
  assumes "\<And>k c. rv (fst (K k c)) \<noteq> -1"
  shows "\<exists>k'. map si_signo (killed (calls (trace K (kill_times n pid sig p) k))) =
    replicate n sig @ map si_signo (killed (calls (trace K p k')))"
  using assms by (induction n arbitrary: k) auto

lemma sig_sender_kills:
  assumes "\<And>k c. rv (fst (K k c)) \<noteq> -1" and "N \<le> 2 ^ 31 - 1" and "1 \<le> sig" "sig \<le> 64" and "pid \<noteq> ''--help''"
  shows "map si_signo (killed (calls (trace K (sig_sender_main [self, pid, show_nat N, show_nat sig, show_nat 2]) k))) =
    replicate N (int sig) @ [SIGINT]"
proof -
  have num: "atoi (show_nat m) = int m" if "m \<le> 2 ^ 31 - 1" for m
    using atoi_show_int [of "int m" "[]"] that by (simp add: show_int_def int_limits)
  show ?thesis using assms num [of N] num [of sig] num [of 2]
    kill_times_killed [of K N "to_int (atol pid)" "int sig"
      "Call (Sig (Kill (to_int (atol pid)) SIGINT)) (\<lambda>r.
             if rv r = -1 then perror ''kill-signal-sending-2'' (exit EXIT_FAILURE) else
       (printf (self @ '': exiting\<newline>'') (exit EXIT_SUCCESS)))" k]
    by (auto simp: sig_sender_main_def Let_def)
qed

text \<open>
  The receiver with a block time: the signals of the batch \<open>b\<close> arrive in its sleep, SIGINT among
  them. \<open>caught b n\<close> says how often the handler counts the signal \<open>n\<close>.
\<close>

definition caught :: "int list \<Rightarrow> int \<Rightarrow> nat" where
  "caught b n = (if n = SIGINT then 0 else if n < 32 then min 1 (count_list b n) else count_list b n)"

lemma sig_receiver_counts:
  assumes "SIGINT \<in> si_signo ` set b" and "\<forall>i\<in>set b. catchable (si_signo i)" and "0 < fuel"
  shows "emitted Stdout (trace sig_K (sig_receiver_main strsignal fuel [self, secs]) (sig_start [b])) =
      self @ '': PID is 0\<newline>'' @ self @ '': sleeping for '' @ show_int (atoi secs) @ '' seconds\<newline>'' @
      self @ '': pending signals are: \<newline>'' @
      concat (map (\<lambda>n. [TAB, TAB] @ show_int n @ '' ('' @ strsignal n @ '')\<newline>'')
        (filter (\<lambda>n. n \<in> si_signo ` set b) all_signals)) @
      concat (map (\<lambda>n. self @ '' signal '' @ show_int n @ '' caught '' @ show_nat (caught (map si_signo b) n) @ '' time'' @
        (if caught (map si_signo b) n = 1 then [] else ''s'') @ [NL])
        (filter (\<lambda>n. caught (map si_signo b) n \<noteq> 0) all_signals))" (is ?text)
    "outcome sig_K (sig_receiver_main strsignal fuel [self, secs]) (sig_start [b]) = Exited 0" (is ?exit)
    "sig_default (final sig_K (sig_receiver_main strsignal fuel [self, secs]) (sig_start [b])) = []" (is ?default)
proof -
  let ?q = "fold post b []"
  define c where "c = fold (\<lambda>i. sigHandler (si_signo i)) ?q \<lparr>gotSigint = False, sigCnt = (\<lambda>_. 0)\<rparr>"
  have signos: "si_signo ` set ?q = si_signo ` set b" by (simp add: signos_fold_post)
  have q: "catchable (si_signo i)" if "i \<in> set ?q" for i
    using assms(2) that signos by (metis (no_types, lifting) imageE imageI)
  have held: "filter (\<lambda>i. catchable (si_signo i)) ?q = ?q" "filter (\<lambda>i. \<not> catchable (si_signo i)) ?q = []"
    using q by (auto simp: filter_id_conv filter_empty_conv)
  have counts: "sigCnt c n = int (caught (map si_signo b) n)" for n
    using fold_sigHandler(3) [of ?q] fold_sigHandler(2) [of n ?q]
    by (cases "n = SIGINT") (simp_all add: c_def caught_def count_fold_post)
  have int: "gotSigint c" using assms(1) signos by (simp add: c_def fold_sigHandler)
  obtain m where m: "fuel = Suc m" using assms(3) by (cases fuel) auto
  have empty: "filter (\<lambda>n. n \<in> si_signo ` set b) all_signals \<noteq> []"
    using assms(1) by (auto simp: filter_empty_conv)
  have mask: "{a \<in> sigfillset. catchable a} = Collect catchable" "{a \<in> set all_signals. catchable a} = Collect catchable"
    by (auto simp: catchable_def)
  note defs = sig_receiver_main_def m install_run show_nat_0 sig_receiver_block_def Let_def handle_def sig_arrive_def sig_start_def
    with_handlers_def printSigset_run signos show_counts_run c_def [symmetric] show_int_def mask
  show ?text using int counts held empty by (simp add: defs del: in_sigfillset in_all_signals)
  show ?exit using int counts held empty by (simp add: defs del: in_sigfillset in_all_signals)
  show ?default using int counts held empty by (simp add: defs del: in_sigfillset in_all_signals)
qed

text \<open>
  (C25) Standard signals are not queued, realtime signals are: when sig\_sender sends any number of
  a signal and then SIGINT to a sig\_receiver that sleeps with all signals blocked, the receiver
  reports both as pending, then reports the signal as caught once if it is a standard one and as
  often as it was sent if it is a realtime one, and exits with 0; no signal takes its default
  action. The signal may be any that can be caught: not SIGKILL, SIGSTOP, or 32 and 33, which the C
  library keeps for itself.
\<close>

theorem signals_not_queued:
  assumes "\<And>k c. rv (fst (K k c)) \<noteq> -1" and "0 < N" "N \<le> 2 ^ 31 - 1" and "1 \<le> sig" "sig \<le> 64" "sig \<noteq> 2"
    and "sig \<noteq> 9" "sig \<noteq> 19" "sig \<noteq> 32" "sig \<noteq> 33" and "pid \<noteq> ''--help''" and "0 < fuel"
  shows "let s = sig_start [killed (calls (trace K (sig_sender_main [sender, pid, show_nat N, show_nat sig, show_nat 2]) k))];
      times = (if sig < 32 then 1 else N) in
    emitted Stdout (trace sig_K (sig_receiver_main strsignal fuel [self, secs]) s) =
      self @ '': PID is 0\<newline>'' @ self @ '': sleeping for '' @ show_int (atoi secs) @ '' seconds\<newline>'' @
      self @ '': pending signals are: \<newline>'' @
      concat (map (\<lambda>n. [TAB, TAB] @ show_int n @ '' ('' @ strsignal n @ '')\<newline>'')
        (if sig = 1 then [1, 2] else [2, int sig])) @
      self @ '' signal '' @ show_nat sig @ '' caught '' @ show_nat times @ '' time'' @
      (if times = 1 then [] else ''s'') @ [NL] \<and>
    outcome sig_K (sig_receiver_main strsignal fuel [self, secs]) s = Exited 0 \<and>
    sig_default (final sig_K (sig_receiver_main strsignal fuel [self, secs]) s) = []"
proof -
  let ?b = "killed (calls (trace K (sig_sender_main [sender, pid, show_nat N, show_nat sig, show_nat 2]) k))"
  have b: "map si_signo ?b = replicate N (int sig) @ [SIGINT]" by (rule sig_sender_kills) (use assms in auto)
  then have set_b: "si_signo ` set ?b = {int sig, 2}" using assms(2) by (metis image_set set_append set_replicate list.simps(15) list.set(1) Un_insert_left Un_empty_left neq0_conv not_gr_zero set_replicate_conv_if)
  have one: "filter (\<lambda>n. n \<in> {int sig, 2}) all_signals = (if sig = 1 then [1, 2] else [2, int sig])"
    using assms(4-6) by (intro sorted_distinct_set_unique) (auto simp: sorted_wrt_filter all_signals_def distinct_map sorted_map)
  have c: "caught (map si_signo ?b) n = (if n = int sig then (if sig < 32 then 1 else N) else 0)" for n
    using assms(2,6) by (auto simp: b caught_def count_replicate_list)
  have two: "filter (\<lambda>n. caught (map si_signo ?b) n \<noteq> 0) all_signals = [int sig]"
    using assms(2,4,5) by (intro sorted_distinct_set_unique) (auto simp: c sorted_wrt_filter all_signals_def distinct_map sorted_map)
  have "\<forall>n\<in>si_signo ` set ?b. catchable n" unfolding set_b using assms(4-10) by (simp add: catchable_def)
  then have "\<forall>i\<in>set ?b. catchable (si_signo i)" by blast
  from sig_receiver_counts [OF _ this assms(12), of strsignal self secs] show ?thesis
    unfolding set_b one two Let_def unfolding c by (simp add: show_int_def)
qed

lemma signals_not_queued_witness:
  "outcome sig_K (sig_receiver_main (\<lambda>_. ''User defined signal 1'') 1 [''sig_receiver'', ''15''])
     (sig_start [killed (calls (trace (\<lambda>k c. (ok 0, k)) (sig_sender_main [''sig_sender'', ''77'', show_nat 3, show_nat 10, show_nat 2]) ()))]) =
   Exited 0"
  using signals_not_queued [of "\<lambda>k c. (ok 0, k)" 3 10 "''77''" 1 "''sig_sender''" "()" "\<lambda>_. ''User defined signal 1''" "''sig_receiver''" "''15''"]
  by (simp only: Let_def) simp

text \<open>The realtime signals, with their data, that the calls of a run queue.\<close>

fun queued :: "int \<Rightarrow> int \<Rightarrow> syscall list \<Rightarrow> siginfo list" where
  "queued pid uid [] = []"
| "queued pid uid (Sig (Sigqueue to sig v) # cs) =
     \<lparr>si_signo = sig, si_code = -1, si_value = v, si_pid = pid, si_uid = uid\<rparr> # queued pid uid cs"
| "queued pid uid (_ # cs) = queued pid uid cs"

abbreviation queued_info :: "int \<Rightarrow> int \<Rightarrow> int \<Rightarrow> int \<Rightarrow> siginfo" where
  "queued_info pid uid sig v \<equiv> \<lparr>si_signo = sig, si_code = -1, si_value = v, si_pid = pid, si_uid = uid\<rparr>"

lemma queue_loop_queues:
  assumes "\<And>k c. rv (fst (K k c)) \<noteq> -1" and "data + j + int n - 1 \<le> INT_MAX"
  shows "queued p u (calls (trace K (queue_loop to sig data n j) k)) =
    map (\<lambda>i. queued_info p u sig (data + j + int i)) [0..<n]"
  using assms(2)
proof (induction n arbitrary: j k)
  case (Suc n)
  have "map (\<lambda>i. queued_info p u sig (data + j + int i)) [0..<Suc n] =
    queued_info p u sig (data + j) # map (\<lambda>i. queued_info p u sig (data + (j + 1) + int i)) [0..<n]"
    by (simp add: upt_conv_Cons map_Suc_upt [symmetric] ac_simps del: upt_Suc)
  then show ?case using Suc.IH [of "j + 1"] Suc.prems assms(1) by simp
qed simp

lemma fold_post_realtime: "\<forall>i\<in>set b. 32 \<le> si_signo i \<Longrightarrow> fold post b q = q @ b"
  by (induction b arbitrary: q) (simp_all add: post_def)

definition rt_text :: "siginfo \<Rightarrow> string" where
  "rt_text si = ''caught a signal '' @ show_int (si_signo si) @ [NL] @ siginfo_text si @
     ''si_value='' @ show_int (si_value si) @ [NL] @
     ''    si_pid='' @ show_int (si_pid si) @ '', si_uid='' @ show_int (si_uid si) @ [NL]"

text \<open>Handlers that are not disturbed print one text for each signal, in order, and count it.\<close>

lemma sig_quiet:
  "sig_pending s = [] \<Longrightarrow> sig_arrivals s = [] # bs \<Longrightarrow> sig_deliver [] (sig_arrive s) = (ok 0, s\<lparr>sig_arrivals := bs\<rparr>)"
  by (cases s) (simp add: sig_deliver_def sig_arrive_def)

lemma handle_rt_run:
  assumes "\<forall>i\<in>set is. si_signo i \<noteq> SIGINT \<and> si_signo i \<noteq> SIGTERM" and "length is \<le> n"
    and "sig_pending s = []" and "sig_arrivals s = replicate (length is) [] @ bs"
  shows "emitted Stdout (trace sig_K (handle_rt t n is st k) s) = concat (map rt_text is) @
      emitted Stdout (trace sig_K (k (st\<lparr>rt_cnt := rt_cnt st + int (length is)\<rparr>)) (s\<lparr>sig_arrivals := bs\<rparr>))"
    "outcome sig_K (handle_rt t n is st k) s = outcome sig_K (k (st\<lparr>rt_cnt := rt_cnt st + int (length is)\<rparr>)) (s\<lparr>sig_arrivals := bs\<rparr>)"
    "final sig_K (handle_rt t n is st k) s = final sig_K (k (st\<lparr>rt_cnt := rt_cnt st + int (length is)\<rparr>)) (s\<lparr>sig_arrivals := bs\<rparr>)"
  using assms
proof (induction "is" arbitrary: n st s)
  case (Cons i "is")
  { case (1 n st s)
    let ?s = "s\<lparr>sig_arrivals := replicate (length is) [] @ bs\<rparr>" and ?st = "st\<lparr>rt_cnt := rt_cnt st + 1\<rparr>"
    from 1 obtain m where m: "n = Suc m" "length is \<le> m" by (cases n) auto
    have "sig_pending ?s = []" "sig_arrivals ?s = replicate (length is) [] @ bs" using 1 by simp_all
    note ih = Cons.IH(1) [OF _ m(2) this, of ?st]
    show ?case using 1 m(1) ih by (simp add: siginfoHandler_def Let_def sig_quiet arrived_def rt_text_def [of i] ac_simps) }
  { case (2 n st s)
    let ?s = "s\<lparr>sig_arrivals := replicate (length is) [] @ bs\<rparr>" and ?st = "st\<lparr>rt_cnt := rt_cnt st + 1\<rparr>"
    from 2 obtain m where m: "n = Suc m" "length is \<le> m" by (cases n) auto
    have "sig_pending ?s = []" "sig_arrivals ?s = replicate (length is) [] @ bs" using 2 by simp_all
    note ih = Cons.IH(2) [OF _ m(2) this, of ?st]
    show ?case using 2 m(1) ih by (simp add: siginfoHandler_def Let_def sig_quiet arrived_def ac_simps) }
  { case (3 n st s)
    let ?s = "s\<lparr>sig_arrivals := replicate (length is) [] @ bs\<rparr>" and ?st = "st\<lparr>rt_cnt := rt_cnt st + 1\<rparr>"
    from 3 obtain m where m: "n = Suc m" "length is \<le> m" by (cases n) auto
    have "sig_pending ?s = []" "sig_arrivals ?s = replicate (length is) [] @ bs" using 3 by simp_all
    note ih = Cons.IH(3) [OF _ m(2) this, of ?st]
    show ?case using 3 m(1) ih by (simp add: siginfoHandler_def Let_def sig_quiet arrived_def ac_simps) }
qed auto

text \<open>
  (C26) Data sent by sigqueue arrive complete and in order: when t\_sigqueue queues \<open>n\<close> instances of
  a realtime signal with the values data, data + 1, ... to a catch\_rtsigs that sleeps with its
  signals blocked, catch\_rtsigs prints one record for each, in the order of sending and with the
  sender's value, and after a SIGINT reports \<open>n\<close> caught signals and exits with 0; no signal takes its
  default action. The realtime signals that programs can use are 34 to 64.
\<close>

theorem realtime_data_in_order:
  assumes "\<And>k c. rv (fst (K k c)) \<noteq> -1" and "34 \<le> sig" "sig \<le> 64" and "0 \<le> data" "data + int n \<le> 2 ^ 31"
    and "n \<le> 2 ^ 31 - 1" and "pid \<noteq> ''--help''" and "n + 2 \<le> fuel"
  shows "let sent = queued spid suid (calls (trace K (t_sigqueue_main [sender, pid, show_nat sig, show_int data, show_nat n]) k));
      s = sig_start ([sent] @ replicate n [] @ [[queued_info 0 0 SIGINT 0]]) in
    emitted Stdout (trace sig_K (catch_rtsigs_main fuel [self, secs]) s) =
      self @ '': PID is 0\<newline>'' @ self @ '': signals blocked - sleeping '' @ secs @ '' seconds\<newline>'' @
      self @ '': sleep complete\<newline>'' @
      concat (map (\<lambda>i. rt_text (queued_info spid suid (int sig) (data + int i))) [0..<n]) @
      ''Caught '' @ show_nat n @ '' signals\<newline>'' \<and>
    outcome sig_K (catch_rtsigs_main fuel [self, secs]) s = Exited 0 \<and>
    sig_default (final sig_K (catch_rtsigs_main fuel [self, secs]) s) = []"
proof -
  let ?sent = "queued spid suid (calls (trace K (t_sigqueue_main [sender, pid, show_nat sig, show_int data, show_nat n]) k))"
  define infos where "infos = map (\<lambda>i. queued_info spid suid (int sig) (data + int i)) [0..<n]"
  have num: "atoi (show_nat m) = int m" if "m \<le> 2 ^ 31 - 1" for m
    using atoi_show_int [of "int m" "[]"] that by (simp add: show_int_def int_limits)
  have dat: "atoi (show_int data) = data \<or> n = 0"
    using atoi_show_int [of data "[]"] assms(4,5) by (auto simp: int_limits)
  have sent: "?sent = infos"
  proof (cases "n = 0")
    case True
    then show ?thesis using assms(7) num [of 0] by (simp add: t_sigqueue_main_def Let_def infos_def)
  next
    case False
    then show ?thesis
      using assms(3,5,6,7) dat num [of n] num [of sig] queue_loop_queues [OF assms(1), of data 0 n spid suid]
      by (simp add: t_sigqueue_main_def Let_def int_limits infos_def)
  qed
  have rt: "\<forall>i\<in>set infos. si_signo i \<noteq> SIGINT \<and> si_signo i \<noteq> SIGTERM" using assms(2) by (auto simp: infos_def)
  have posted: "fold post infos [] = infos" using assms(2) by (subst fold_post_realtime) (auto simp: infos_def)
  have f: "fuel = Suc (Suc (fuel - 2))" using assms(8) by simp
  define B where "B = {a \<in> sigfillset - {SIGINT, SIGTERM}. catchable a}"
  define H where "H = {a \<in> set all_signals - {SIGSTOP, SIGQUIT}. catchable a}"
  have sets: "int sig \<in> B" "int sig \<in> H" "SIGINT \<in> H" using assms(2,3) by (auto simp: B_def H_def catchable_def)
  have held: "filter (\<lambda>i. si_signo i \<in> B) infos = infos" "filter (\<lambda>i. si_signo i \<notin> B) infos = []"
    "filter (\<lambda>i. si_signo i \<in> H) infos = infos" "filter (\<lambda>i. si_signo i \<notin> H) infos = []"
    "filter (\<lambda>i. si_signo i \<notin> B \<and> si_signo i \<in> H) infos = []" "filter (\<lambda>i. si_signo i \<notin> B \<and> si_signo i \<notin> H) infos = []"
    using sets by (auto simp: infos_def filter_id_conv filter_empty_conv)
  have len: "length infos = n" by (simp add: infos_def)
  define quiet where "quiet = \<lparr>sig_blocked = {}, sig_pending = [], sig_arrivals = replicate n [] @ [[queued_info 0 0 SIGINT 0]],
    sig_caught = H, sig_default = []\<rparr>"
  have handled: "emitted Stdout (trace sig_K (handle_rt t fuel infos st k) quiet) = concat (map rt_text infos) @
      emitted Stdout (trace sig_K (k (st\<lparr>rt_cnt := rt_cnt st + int n\<rparr>)) (quiet\<lparr>sig_arrivals := [[queued_info 0 0 SIGINT 0]]\<rparr>))"
    "outcome sig_K (handle_rt t fuel infos st k) quiet =
      outcome sig_K (k (st\<lparr>rt_cnt := rt_cnt st + int n\<rparr>)) (quiet\<lparr>sig_arrivals := [[queued_info 0 0 SIGINT 0]]\<rparr>)"
    "final sig_K (handle_rt t fuel infos st k) quiet =
      final sig_K (k (st\<lparr>rt_cnt := rt_cnt st + int n\<rparr>)) (quiet\<lparr>sig_arrivals := [[queued_info 0 0 SIGINT 0]]\<rparr>)" for t st k
    by (rule handle_rt_run [OF rt, unfolded len]; use assms(8) in \<open>simp add: quiet_def len\<close>)+
  have paused: "pause_until_done t fuel fuel st k = Call (Sig Pause) (\<lambda>r. handle_rt t fuel (arrived r) st (\<lambda>st. pause_until_done t fuel (Suc (fuel - 2)) st k))"
    if "\<not> allDone st" for t st k using that by (subst f) simp
  have parts: "sig_blocked quiet = {}" "sig_pending quiet = []" "sig_caught quiet = H" "sig_default quiet = []" "quiet\<lparr>sig_default := []\<rparr> = quiet" by (simp_all add: quiet_def)
  have stop: "handle_rt t fuel [queued_info 0 0 SIGINT 0] st k = k (st\<lparr>allDone := True\<rparr>)" for t st k
    by (subst f) (simp add: siginfoHandler_def)
  have texts: "map (\<lambda>i. rt_text (queued_info spid suid (int sig) (data + int i))) [0..<n] = map rt_text infos"
    by (simp add: infos_def comp_def)
  have blocked: "Set.filter catchable (sigfillset - {SIGINT, SIGTERM}) = B" by (auto simp: B_def)
  have none: "Set.filter catchable {} = {}" by simp
  have hand: "with_handlers (set all_signals - {SIGSTOP, SIGQUIT}) (sig_start arr) =
      \<lparr>sig_blocked = {}, sig_pending = [], sig_arrivals = arr, sig_caught = H, sig_default = []\<rparr>" for arr
    by (simp add: with_handlers_def sig_start_def H_def)
  note defs = catch_rtsigs_main_def catch_rtsigs_body_def Let_def install_rt_run rt_block_def sig_arrive_def posted held
      quiet_def [symmetric] handled paused parts post_def stop show_int_def show_nat_0 blocked hand sets none
  show ?thesis unfolding Let_def sent texts
    by (simp add: defs del: in_sigfillset in_all_signals Set.filter_eq)
qed

lemma realtime_data_in_order_witness:
  "outcome sig_K (catch_rtsigs_main 4 [''catch_rtsigs'', ''10''])
     (sig_start ([queued 5 6 (calls (trace (\<lambda>k c. (ok 0, k)) (t_sigqueue_main [''t_sigqueue'', ''77'', show_nat 40, show_int 7, show_nat 2]) ()))] @
        replicate 2 [] @ [[queued_info 0 0 SIGINT 0]])) =
   Exited 0"
  using realtime_data_in_order [of "\<lambda>k c. (ok 0, k)" 40 7 2 "''77''" 4 5 6 "''t_sigqueue''" "()" "''catch_rtsigs''" "''10''"]
  by (simp only: Let_def) simp

text \<open>
  catch\_rtsigs.c without arguments compares a NULL pointer with a string, and with arguments it
  prints its usage message before it does its work: the condition of the usage branch is true for
  every argument, and its closing brace is missing.
\<close>

theorem catch_rtsigs_usage:
  "outcome K (catch_rtsigs_main fuel [self]) k = Undefined \<and>
   (\<exists>rest. emitted Stderr (trace K (catch_rtsigs_main fuel (self # secs # args)) k) =
      self @ '' [block-time [handler-sleep-time]]\<newline>'' @ rest)"
  by (simp add: catch_rtsigs_main_def catch_rtsigs_body_def)

text \<open>
  intquit.c numbers the interrupts it catches and ends at the first SIGQUIT with exit status 0.
\<close>

abbreviation sent_info :: "int \<Rightarrow> siginfo" where
  "sent_info sig \<equiv> \<lparr>si_signo = sig, si_code = 0, si_value = 0, si_pid = 0, si_uid = 0\<rparr>"

lemma intquit_loop_counts:
  assumes "n < fuel"
  shows "emitted Stdout (trace sig_K (intquit_loop fuel count)
        (with_handlers {SIGINT, SIGQUIT} (sig_start (replicate n [sent_info SIGINT] @ [[sent_info SIGQUIT]])))) =
      concat (map (\<lambda>i. ''Caught SIGINT ('' @ show_int (count + int i) @ '')\<newline>'') [1..<Suc n]) @
      ''Caught SIGQUIT - that's all\<newline>'' \<and>
    outcome sig_K (intquit_loop fuel count)
        (with_handlers {SIGINT, SIGQUIT} (sig_start (replicate n [sent_info SIGINT] @ [[sent_info SIGQUIT]]))) = Exited 0"
  using assms
proof (induction n arbitrary: fuel count)
  case 0
  then obtain m where "fuel = Suc m" by (cases fuel) auto
  then show ?case by (simp add: with_handlers_def sig_start_def sig_arrive_def post_def intquit_handler_def catchable_def)
next
  case (Suc n)
  then obtain m where m: "fuel = Suc m" "n < m" by (cases fuel) auto
  have "[1..<Suc (Suc n)] = 1 # map Suc [1..<Suc n]" by (simp add: upt_conv_Cons map_Suc_upt del: upt_Suc)
  then show ?case using Suc.IH [OF m(2), of "count + 1"]
    by (simp add: m(1) with_handlers_def sig_start_def sig_arrive_def post_def intquit_handler_def Let_def comp_def ac_simps catchable_def del: upt_Suc)
qed

theorem intquit_counts_interrupts:
  assumes "n < fuel"
  shows "emitted Stdout (trace sig_K (intquit_main fuel) (sig_start (replicate n [sent_info SIGINT] @ [[sent_info SIGQUIT]]))) =
      concat (map (\<lambda>i. ''Caught SIGINT ('' @ show_nat i @ '')\<newline>'') [1..<Suc n]) @
      ''Caught SIGQUIT - that's all\<newline>'' \<and>
    outcome sig_K (intquit_main fuel) (sig_start (replicate n [sent_info SIGINT] @ [[sent_info SIGQUIT]])) = Exited 0"
  using intquit_loop_counts [OF assms, of 0]
  by (simp add: intquit_main_def show_int_def with_handlers_Un catchable_def insert_commute del: upt_Suc intquit_loop.simps)

lemma intquit_counts_interrupts_witness:
  "outcome sig_K (intquit_main 3) (sig_start (replicate 2 [sent_info SIGINT] @ [[sent_info SIGQUIT]])) = Exited 0"
  by (rule intquit_counts_interrupts [of 2 3, THEN conjunct2]) simp

text \<open>printSigset names exactly the members of the set, whatever the set; printSigMask and printPendingSigs do so for the set the system stored.\<close>

theorem printSigset_exact:
  "emitted out (trace K (printSigset strsignal out prefix A (exit 0)) k) =
     (if A \<inter> {1..64} = {} then prefix @ ''<empty signal set>\<newline>''
      else concat (map (\<lambda>n. prefix @ show_int n @ '' ('' @ strsignal n @ '')\<newline>'') (filter (\<lambda>n. n \<in> A) all_signals)))"
proof -
  have "filter (\<lambda>n. n \<in> A) all_signals = [] \<longleftrightarrow> A \<inter> {1..64} = {}" by (auto simp: filter_empty_conv)
  then show ?thesis by (auto simp: printSigset_run)
qed

end
