(* ===== verification/Users.thy ===== *)
theory Users
  imports Errors
begin

text \<open>
  Users, groups and passwords: src/users\_and\_groups/ugid\_functions.c and check\_password.c.

  userIdFromName calls \<open>strol\<close>, a function that neither the repository nor the C library defines
  (strtol is meant): it is a parameter, and the theorems say where they take it to be strtol.
  errExit and fatal are parameters as their definitions in src/lib do not compile. A user id is a 32-bit word.

  A lookup in the password or group database answers NULL (\<open>rv = 0\<close>), or the record's name and
  password in \<open>strs\<close> and its id in \<open>ints\<close>.
\<close>

section \<open>ugid\_functions.c\<close>

type_synonym uid_t = "32 word"

definition pw_name :: "ret \<Rightarrow> string" where "pw_name r = (case strs r of [] \<Rightarrow> [] | n # _ \<Rightarrow> n)"
definition pw_passwd :: "ret \<Rightarrow> string" where "pw_passwd r = (case strs r of _ # p # _ \<Rightarrow> p | _ \<Rightarrow> [])"
definition pw_uid :: "ret \<Rightarrow> uid_t" where "pw_uid r = (case ints r of [] \<Rightarrow> 0 | u # _ \<Rightarrow> word_of_int u)"

definition userNameFromId :: "uid_t \<Rightarrow> (string option \<Rightarrow> prog) \<Rightarrow> prog" where
  "userNameFromId uid k =
     Call (Sys (Getpwuid (uint uid))) (\<lambda>pwd. k (if rv pwd = 0 then None else Some (pw_name pwd)))"

text \<open>strol is called without a declaration, so its value is an int.\<close>

definition userIdFromName :: "(string \<Rightarrow> int \<times> string) \<Rightarrow> string option \<Rightarrow> (uid_t \<Rightarrow> prog) \<Rightarrow> prog" where
  "userIdFromName strol name k =
     (case name of
        None \<Rightarrow> k (-1)
      | Some name \<Rightarrow>
          if name = [] then k (-1)
          else
            let (u, endptr) = strol name in
            if endptr = [] then k (word_of_int (to_int u))
            else Call (Sys (Getpwnam name)) (\<lambda>pwd.
              if rv pwd = 0 then k (-1) else k (pw_uid pwd)))"

definition groupNameFromId :: "uid_t \<Rightarrow> (string option \<Rightarrow> prog) \<Rightarrow> prog" where
  "groupNameFromId gid k =
     Call (Sys (Getgrgid (uint gid))) (\<lambda>grp. k (if rv grp = 0 then None else Some (pw_name grp)))"

definition groupIdFromName :: "string option \<Rightarrow> (uid_t \<Rightarrow> prog) \<Rightarrow> prog" where
  "groupIdFromName name k =
     (case name of
        None \<Rightarrow> k (-1)
      | Some name \<Rightarrow>
          if name = [] then k (-1)
          else
            let (g, endptr) = strtol name in
            if endptr = [] then k (word_of_int g)
            else Call (Sys (Getgrnam name)) (\<lambda>grp.
              if rv grp = 0 then k (-1) else k (pw_uid grp)))"

section \<open>check\_password.c\<close>

text \<open>The loop that overwrites the password up to its terminating NUL.\<close>

fun erase :: "string \<Rightarrow> string" where
  "erase [] = []"
| "erase (c # cs) = (if c = NUL then c # cs else NUL # erase cs)"

text \<open>
  The username without its newline. fgets may return a line that starts with a NUL byte; then
  \<open>username[len-1]\<close> is in front of the array.
\<close>

definition chomp :: "string \<Rightarrow> string option" where
  "chomp username =
     (let len = length username in
      if len = 0 then None
      else Some (if username ! (len - 1) = NL then take (len - 1) username else username))"

text \<open>
  What follows the two database lookups: \<open>stored\<close> is pwd->pw\_passwd. The buffer of getpass belongs
  to the C library, and what is stored there by the erasing loop is visible outside of the program.
\<close>

definition check_login :: "(string \<Rightarrow> prog) \<Rightarrow> uid_t \<Rightarrow> string \<Rightarrow> prog" where
  "check_login errExit uid stored =
     Call (Sys (Getpass ''Password: '')) (\<lambda>password.
     if rv password = 0 then Halt Undefined
     else Call (Sys (Crypt (cstr (bytes password)) stored)) (\<lambda>encrypted.
     Call (Mem (Mem_store (rv password) (erase (bytes password)))) (\<lambda>_.
     if rv encrypted = 0 then errExit ''crypt''
     else if bytes encrypted \<noteq> stored then printf ''Incorrect password\<newline>'' (exit EXIT_FAILURE)
     else printf (''Successfully authenticated: UID='' @ show_int (uint uid) @ [NL]) (exit EXIT_SUCCESS))))"

definition check_password_main :: "(string \<Rightarrow> prog) \<Rightarrow> (string \<Rightarrow> prog) \<Rightarrow> prog" where
  "check_password_main fatal errExit =
     Call (Sys (Sysconf ''_SC_LOGIN_NAME_MAX'')) (\<lambda>c.
     let lnmax = (if rv c = -1 then 256 else rv c) in
     Call (Sys (Malloc (to_size lnmax))) (\<lambda>m.
     if rv m = 0 then errExit ''malloc''
     else printf ''Username: '' (fflush_stdout (
     Call (Proc (Fgets 0 (to_int lnmax))) (\<lambda>g.
     if rv g = 0 then exit EXIT_FAILURE
     else case chomp (cstr (bytes g)) of
       None \<Rightarrow> Halt Undefined
     | Some username \<Rightarrow>
       Call (Sys (Getpwnam username)) (\<lambda>pwd.
       if rv pwd = 0 then fatal ''couldn't get password record''
       else Call (Sys (Getspnam username)) (\<lambda>spwd.
       if rv spwd = 0 \<and> err spwd = EACCES then fatal ''no permission to read shadow password file''
       else check_login errExit (pw_uid pwd)
              (if rv spwd \<noteq> 0 then pw_passwd spwd else pw_passwd pwd))))))))"

section \<open>A system with a password database\<close>

record account =
  ac_name :: string
  ac_uid :: uid_t
  ac_hash :: string

text \<open>
  \<open>crypt\<close> is the C library's; a line of input and the typed password are in the state, and the
  bytes of the password buffer after the last store to it.
\<close>

record login_state =
  accounts :: "account list"
  shadowed :: bool
  login_line :: string
  typed :: string
  pass_buf :: string

definition ac_ret :: "account option \<Rightarrow> ret" where
  "ac_ret a = (case a of None \<Rightarrow> ok 0
     | Some a \<Rightarrow> (ok 1)\<lparr>strs := [ac_name a, ac_hash a], ints := [uint (ac_uid a)]\<rparr>)"

definition login_sys :: "(string \<Rightarrow> string \<Rightarrow> string) \<Rightarrow> login_state \<Rightarrow> sys_call \<Rightarrow> ret \<times> login_state" where
  "login_sys crypt s c = (case c of
      Getpwnam n \<Rightarrow> (ac_ret (map_option (\<lambda>a. if shadowed s then a\<lparr>ac_hash := ''x''\<rparr> else a)
        (find (\<lambda>a. ac_name a = n) (accounts s))), s)
    | Getpwuid u \<Rightarrow> (ac_ret (find (\<lambda>a. uint (ac_uid a) = u) (accounts s)), s)
    | Getgrnam n \<Rightarrow> (ac_ret (find (\<lambda>a. ac_name a = n) (accounts s)), s)
    | Getgrgid u \<Rightarrow> (ac_ret (find (\<lambda>a. uint (ac_uid a) = u) (accounts s)), s)
    | Getspnam n \<Rightarrow> (ac_ret (if shadowed s then find (\<lambda>a. ac_name a = n) (accounts s) else None), s)
    | Getpass p \<Rightarrow> ((ok 1)\<lparr>bytes := typed s\<rparr>, s\<lparr>pass_buf := typed s\<rparr>)
    | Crypt k salt \<Rightarrow> ((ok 1)\<lparr>bytes := crypt k salt\<rparr>, s)
    | _ \<Rightarrow> (ok 256, s))"

definition login_K :: "(string \<Rightarrow> string \<Rightarrow> string) \<Rightarrow> login_state kernel" where
  "login_K crypt s c = (case c of
      Sys y \<Rightarrow> login_sys crypt s y
    | Proc (Fgets fd n) \<Rightarrow> ((ok 1)\<lparr>bytes := login_line s\<rparr>, s)
    | Mem (Mem_store a d) \<Rightarrow> (ok 0, s\<lparr>pass_buf := d\<rparr>)
    | _ \<Rightarrow> (ok 1, s))"

section \<open>Properties\<close>

lemma word_of_int_to_int: "word_of_int (to_int i) = (word_of_int i :: 32 word)"
proof -
  have "to_int i mod 2 ^ 32 = i mod 2 ^ 32" by (simp add: to_int_def mod_diff_left_eq)
  then show ?thesis by (simp add: word_of_int_eq_iff take_bit_eq_mod)
qed

lemma erase_all: "erase s = replicate (length (cstr s)) NUL @ drop (length (cstr s)) s"
  by (induction s) (simp_all add: cstr_def)

lemma find_unique:
  "distinct (map f xs) \<Longrightarrow> x \<in> set xs \<Longrightarrow> find (\<lambda>y. f y = f x) xs = Some x"
  by (induction xs) (auto simp: rev_image_eqI)

text \<open>
  Names and ids are inverse to each other: with distinct names and ids in the database, the id
  of the name of a user's id is that id, for users and for groups, whenever the name is not itself
  a number; a name that is a number is that id, without a lookup, and an empty or missing name gives the
  id -1. strol is taken to be strtol.
\<close>

theorem ugid_round_trip:
  assumes "a \<in> set (accounts s)" and "distinct (map ac_name (accounts s))" "distinct (map ac_uid (accounts s))"
    and "snd (strtol (ac_name a)) \<noteq> []" "ac_name a \<noteq> []"
  shows "reaches (login_K crypt) (userNameFromId (ac_uid a) (\<lambda>name. userIdFromName strtol name k)) s (k (ac_uid a)) s \<and>
    reaches (login_K crypt) (groupNameFromId (ac_uid a) (\<lambda>name. groupIdFromName name k)) s (k (ac_uid a)) s \<and>
    userIdFromName strtol (Some (show_int (uint u))) k = k u \<and> groupIdFromName (Some (show_int (uint u))) k = k u \<and>
    userIdFromName strtol None k = k (-1) \<and> groupIdFromName None k = k (-1)"
proof -
  have "find (\<lambda>b. uint (ac_uid b) = uint (ac_uid a)) (accounts s) = Some a"
    using find_unique [OF assms(3,1)] by (simp only: word_uint_eq_iff)
  moreover have "find (\<lambda>b. ac_name b = ac_name a) (accounts s) = Some a"
    by (rule find_unique [OF assms(2,1)])
  moreover have "strtol (show_int (uint u)) = (uint u, [])" "show_int (uint u) \<noteq> []"
    using strtol_show_int [of "uint u" "[]"] uint_bounded [of u] uint_ge_0 [of u] by (auto simp: int_limits show_int_def)
  moreover have "word_of_int (to_int (uint u)) = u" by (simp add: word_of_int_to_int)
  ultimately show ?thesis using assms(4,5)
    by (auto simp: userNameFromId_def userIdFromName_def groupNameFromId_def groupIdFromName_def login_K_def login_sys_def
        ac_ret_def pw_name_def pw_uid_def split: prod.splits intro!: reaches_Call)
qed

lemma ugid_round_trip_witness:
  "groupIdFromName (Some (show_int (uint (7 :: 32 word)))) (\<lambda>g. exit (uint g)) = exit 7 \<and>
   outcome (login_K (\<lambda>_ _. [])) (userNameFromId 1000 (\<lambda>name. userIdFromName strtol name (\<lambda>u. exit (uint u))))
     \<lparr>accounts = [\<lparr>ac_name = ''root'', ac_uid = 0, ac_hash = []\<rparr>, \<lparr>ac_name = ''ann'', ac_uid = 1000, ac_hash = []\<rparr>],
      shadowed = False, login_line = [], typed = [], pass_buf = []\<rparr> = Exited 1000"
proof -
  let ?s = "\<lparr>accounts = [\<lparr>ac_name = ''root'', ac_uid = 0, ac_hash = []\<rparr>, \<lparr>ac_name = ''ann'', ac_uid = 1000, ac_hash = []\<rparr>],
      shadowed = False, login_line = [], typed = [], pass_buf = []\<rparr>"
  have "snd (strtol ''ann'') \<noteq> []" by code_simp
  then have "reaches (login_K (\<lambda>_ _. [])) (userNameFromId 1000 (\<lambda>name. userIdFromName strtol name (\<lambda>u. exit (uint u)))) ?s (exit (uint (1000 :: 32 word))) ?s \<and>
    groupIdFromName (Some (show_int (uint (7 :: 32 word)))) (\<lambda>g. exit (uint g)) = exit (uint (7 :: 32 word))"
    using ugid_round_trip [of "\<lparr>ac_name = ''ann'', ac_uid = 1000, ac_hash = []\<rparr>" ?s "\<lambda>_ _. []" "\<lambda>u. exit (uint u)" 7] by simp
  then show ?thesis using reaches_outcome by fastforce
qed

text \<open>
  (C36) check\_password accepts exactly the right password: for a known user it exits with 0, naming
  the user's id, if and only if crypt of the typed password under the stored hash is the stored
  hash, with shadow passwords or without; and in either case the buffer with the typed password
  has been overwritten by NULs.
\<close>

theorem check_password_correct:
  assumes "find (\<lambda>a. ac_name a = user) (accounts s) = Some a" and "login_line s = user @ [NL]"
    and "no_nul user" "no_nul (typed s)"
  shows "(outcome (login_K crypt) (check_password_main fatal errExit) s = Exited 0 \<longleftrightarrow>
      crypt (typed s) (ac_hash a) = ac_hash a) \<and>
    (outcome (login_K crypt) (check_password_main fatal errExit) s \<noteq> Exited 0 \<longrightarrow>
      outcome (login_K crypt) (check_password_main fatal errExit) s = Exited 1 \<and>
      emitted Stdout (trace (login_K crypt) (check_password_main fatal errExit) s) = ''Username: Incorrect password\<newline>'') \<and>
    pass_buf (final (login_K crypt) (check_password_main fatal errExit) s) = replicate (length (typed s)) NUL"
proof -
  have "chomp (cstr (login_line s)) = Some user"
    using assms(2,3) by (simp add: chomp_def)
  then show ?thesis using assms(1,4)
    by (auto simp: check_password_main_def check_login_def login_K_def login_sys_def ac_ret_def pw_passwd_def Let_def erase_all)
qed

lemma check_password_correct_witness:
  "outcome (login_K (\<lambda>key salt. if key = ''secret'' then salt else ''*'')) (check_password_main (\<lambda>_. exit 1) (\<lambda>_. exit 1))
     \<lparr>accounts = [\<lparr>ac_name = ''ann'', ac_uid = 1000, ac_hash = ''$1$ab''\<rparr>], shadowed = True, login_line = ''ann\<newline>'',
      typed = ''secret'', pass_buf = []\<rparr> = Exited 0"
  using check_password_correct [of "''ann''"
    "\<lparr>accounts = [\<lparr>ac_name = ''ann'', ac_uid = 1000, ac_hash = ''$1$ab''\<rparr>], shadowed = True, login_line = ''ann\<newline>'',
      typed = ''secret'', pass_buf = []\<rparr>" "\<lparr>ac_name = ''ann'', ac_uid = 1000, ac_hash = ''$1$ab''\<rparr>"
    "\<lambda>key salt. if key = ''secret'' then salt else ''*''" "\<lambda>_. exit 1" "\<lambda>_. exit 1"]
  by simp

end
