(* ===== verification/Sys_Info.thy ===== *)
theory Sys_Info
  imports Errors
begin

text \<open>
  System information, limits and times: src/sysinfo/t\_uname.c and procfs\_pidmax.c,
  src/syslim/t\_sysconf.c and t\_fpathconf.c, src/time/process\_time.c, calendar\_time.c and
  strtime.c. Numbers that the source prints from doubles are formatted by parameters (\<open>secs\<close> and
  \<open>years\<close>): the development has no model of floating-point arithmetic.
\<close>

section \<open>t\_uname.c and procfs\_pidmax.c\<close>

text \<open>The fields of struct utsname are in \<open>strs\<close>, in the order of its declaration.\<close>

definition uts :: "ret \<Rightarrow> nat \<Rightarrow> string" where
  "uts r i = (if i < length (strs r) then strs r ! i else [])"

abbreviation (input) "sysname r \<equiv> uts r 0"
abbreviation (input) "nodename r \<equiv> uts r 1"
abbreviation (input) "release r \<equiv> uts r 2"
abbreviation (input) "version r \<equiv> uts r 3"
abbreviation (input) "machine r \<equiv> uts r 4"
abbreviation (input) "domainname r \<equiv> uts r 5"

definition t_uname_main :: prog where
  "t_uname_main =
     Call (Ev Uname) (\<lambda>u.
     if rv u = -1 then perror ''uname'' (exit (-1))
     else printf (''Node name:    '' @ nodename u @ [NL]) (
     printf (''System name:  '' @ sysname u @ [NL]) (
     printf (''Release:      '' @ release u @ [NL]) (
     printf (''Version:      '' @ release u @ [NL]) (
     printf (''Machine:      '' @ machine u @ [NL]) (
     printf (''Domain name:'' @ domainname u @ [NL]) (exit EXIT_SUCCESS)))))))"

definition MAX_LINE :: int where "MAX_LINE = 100"

abbreviation (input) pid_max_path :: string where "pid_max_path \<equiv> ''/proc/sys/kernel/pid_max''"

text \<open>The precision in \<open>%.*s\<close> limits the string to the bytes read; a NUL among them ends it.\<close>

definition procfs_pidmax_main :: "string list \<Rightarrow> prog" where
  "procfs_pidmax_main argv =
     Call (Io (Open pid_max_path (if length argv > 1 then 2 else 0) 0)) (\<lambda>fd.
     if rv fd = -1 then perror ''file-open'' (exit (-1))
     else Call (Io (Read (rv fd) MAX_LINE)) (\<lambda>n.
     if rv n = -1 then perror ''file-read'' (exit (-1))
     else
       (if length argv > 1 then Put Stdout ''Old Value: '' else (\<lambda>p. p)) (
       printf (cstr (take (nat (rv n)) (bytes n)) @ [NL]) (
       if length argv > 1 then
         Call (Io (Write (rv fd) (argv ! 1))) (\<lambda>w.
         if rv w \<noteq> int (length (argv ! 1)) then perror ''write-failed'' (exit (-1))
         else Call (Proc (System (''echo /proc/sys/kernel/pid_max now contains '' @ ''`cat /proc/sys/kernel/pid_max`''))) (\<lambda>_.
           exit EXIT_SUCCESS))
       else exit EXIT_SUCCESS))))"

section \<open>t\_sysconf.c and t\_fpathconf.c\<close>

text \<open>
  errno is cleared before the call, so that after it \<open>err\<close> of the answer is 0 unless the call
  failed.
\<close>

definition report_limit :: "syscall \<Rightarrow> string \<Rightarrow> string \<Rightarrow> prog \<Rightarrow> prog" where
  "report_limit call msg failed p =
     Call call (\<lambda>lim.
     if rv lim \<noteq> -1 then printf (msg @ '' '' @ show_int (rv lim) @ [NL]) p
     else if err lim = 0 then printf (msg @ '' (indeterminate)\<newline>'') p
     else perror failed (exit (-1)))"

definition sysconfPrint :: "string \<Rightarrow> string \<Rightarrow> prog \<Rightarrow> prog" where
  "sysconfPrint msg name p = report_limit (Sys (Sysconf name)) msg ''sysconf'' p"

definition fpathconfPrint :: "string \<Rightarrow> int \<Rightarrow> string \<Rightarrow> prog \<Rightarrow> prog" where
  "fpathconfPrint msg fd name p = report_limit (Sys (Fpathconf fd name)) msg ''fpathconf\<newline>'' p"

definition t_sysconf_main :: prog where
  "t_sysconf_main =
     sysconfPrint ''_SC_ARG_MAX:          '' ''_SC_ARG_MAX'' (
     sysconfPrint ''_SC_LOGIN_NAME_MAX:   '' ''_SC_LOGIN_NAME_MAX'' (
     sysconfPrint ''_SC_OPEN_MAX:         '' ''_SC_OPEN_MAX'' (
     sysconfPrint ''_SC_NGROUPS_MAX:      '' ''_SC_NGROUPS_MAX'' (
     sysconfPrint ''_SC_PAGESIZE:         '' ''_SC_PAGESIZE'' (
     sysconfPrint ''_SC_RTSIG_MAX         '' ''_SC_RTSIG_MAX'' (
     sysconfPrint ''_SC_SEMAPHORES:       '' ''_SC_SEMAPHORES'' (
     sysconfPrint ''_SC_THREADS:          '' ''_SC_THREADS'' (
     exit EXIT_SUCCESS))))))))"

definition t_fpathconf_main :: prog where
  "t_fpathconf_main =
     fpathconfPrint ''_PC_NAME_MAX:         '' 0 ''_PC_NAME_MAX'' (
     fpathconfPrint ''_PC_PATH_MAX:         '' 0 ''_PC_PATH_MAX'' (
     fpathconfPrint ''_PC_PIPE_BUF:         '' 0 ''_PC_PIPE_BUF'' (
     exit EXIT_SUCCESS)))"

section \<open>process\_time.c\<close>

abbreviation (input) CLOCKS_PER_SEC :: int where "CLOCKS_PER_SEC \<equiv> 1000000"

text \<open>
  The static variable clockTicks is passed from one call to the next. \<open>secs n d\<close> is the text of
  the quotient printed with two decimals; times stores the user and system times in \<open>ints\<close>.
\<close>

definition tms :: "ret \<Rightarrow> nat \<Rightarrow> int" where
  "tms r i = (if i < length (ints r) then ints r ! i else 0)"

definition displayProcessTimes ::
  "(int \<Rightarrow> int \<Rightarrow> string) \<Rightarrow> string option \<Rightarrow> int \<Rightarrow> (int \<Rightarrow> prog) \<Rightarrow> prog" where
  "displayProcessTimes secs msg clockTicks k =
     (let show = (\<lambda>clockTicks.
        Call (Tm Clock) (\<lambda>c.
        if rv c = -1 then perror ''clock'' (exit (-1))
        else printf (''clock() returns: '' @ show_int (rv c) @ '' clocks-per-sec ('' @ secs (rv c) CLOCKS_PER_SEC @ '' secs)\<newline>'') (
        Call (Tm Times) (\<lambda>t.
        if rv t = -1 then perror ''times'' (exit (-1))
        else printf (''times() yields: user CPU='' @ secs (tms t 0) clockTicks @ ''; system CPU='' @
               secs (tms t 1) clockTicks @ [NL]) (k clockTicks)))))
      in
      (case msg of None \<Rightarrow> (\<lambda>p. p) | Some m \<Rightarrow> Put Stdout m) (
      if clockTicks = 0 then
        Call (Sys (Sysconf ''_SC_CLK_TCK'')) (\<lambda>s.
        if rv s = -1 then perror ''sysconf'' (exit (-1)) else show (rv s))
      else show clockTicks))"

fun getppid_calls :: "nat \<Rightarrow> prog \<Rightarrow> prog" where
  "getppid_calls 0 p = p"
| "getppid_calls (Suc n) p = Call (Proc Getppid) (\<lambda>_. getppid_calls n p)"

definition process_time_main :: "(int \<Rightarrow> int \<Rightarrow> string) \<Rightarrow> string list \<Rightarrow> prog" where
  "process_time_main secs argv =
     Call (Sys (Sysconf ''_SC_CLK_TCK'')) (\<lambda>s.
     printf (''CLOCKS_PER_SEC='' @ show_int CLOCKS_PER_SEC @ '' sysconf(_SC_CLK_TCK)='' @ show_int (rv s) @ ''\<newline>\<newline>'') (
     displayProcessTimes secs (Some ''At program start: \<newline>'') 0 (\<lambda>clockTicks.
     let numCalls = (if length argv > 1 then atoi (argv ! 1) else 10000000) in
     getppid_calls (nat numCalls) (
     displayProcessTimes secs (Some ''After the getppid() calls:\<newline>'') clockTicks (\<lambda>_.
     exit EXIT_SUCCESS)))))"

section \<open>calendar\_time.c and strtime.c\<close>

text \<open>
  A broken-down time is the list of the fields of struct tm in the order sec, min, hour, mday, mon,
  year, wday, yday, isdst.
\<close>

definition tm_text :: "int list \<Rightarrow> string" where
  "tm_text tm =
     ''year='' @ show_int (tm ! 5) @ '' mon='' @ show_int (tm ! 4) @ '' mday='' @ show_int (tm ! 3) @
     '' hour='' @ show_int (tm ! 2) @ '' min='' @ show_int (tm ! 1) @ '' sec='' @ show_int (tm ! 0) @ '' ''"

definition tm_text2 :: "int list \<Rightarrow> string" where
  "tm_text2 tm =
     ''wday='' @ show_int (tm ! 6) @ '' yday='' @ show_int (tm ! 7) @ '' isdst='' @ show_int (tm ! 8) @ [NL]"

text \<open>\<open>years\<close> is the text of the number of tropical years in a number of seconds.\<close>

definition calendar_time_main :: "(int \<Rightarrow> string) \<Rightarrow> prog" where
  "calendar_time_main years =
     Call (Tm Time) (\<lambda>t.
     printf (''Seconds since EPOCH (1st Jan 1970): '' @ show_int (rv t) @ [NL]) (
     printf ('' (about '' @ years (rv t) @ '' years)\<newline>'') (
     Call (Tm Gettimeofday) (\<lambda>tv.
     if rv tv = -1 then perror ''get-time-of-day'' (exit (-1))
     else printf (''gettimeofday() returned '' @ show_int (tms tv 0) @ '' secs, '' @ show_int (tms tv 1) @ '' microsecs \<newline>'') (
     Call (Tm (Gmtime (rv t))) (\<lambda>gm.
     if rv gm = 0 then perror ''gmt-time'' (exit (-1))
     else printf ''Time broken down by gmtime():\<newline>'' (
     printf (tm_text (ints gm)) (
     printf (tm_text2 (ints gm)) (
     Call (Tm (Localtime (rv t))) (\<lambda>loc.
     if rv loc = 0 then perror ''local-time'' (exit (-1))
     else printf ''Broken down by localtime():\<newline>'' (
     printf (tm_text (ints loc)) (
     printf (tm_text2 (ints loc)) (
     Call (Tm (Asctime (ints gm))) (\<lambda>a.
     printf (''asctime() formats the gmtime() value as: '' @ bytes a @ [NL]) (
     Call (Tm (Ctime (rv t))) (\<lambda>c.
     printf (''ctime() formats the time() value as: '' @ bytes c @ [NL]) (
     Call (Tm (Mktime (ints gm))) (\<lambda>m.
     printf (''mktime() of gmtime() value: '' @ show_int (rv m) @ '' secs\<newline>'') (
     Call (Tm (Mktime (ints loc))) (\<lambda>l.
     printf (''mktime() of localtime() value: '' @ show_int (rv l) @ '' secs\<newline>'') (
     exit EXIT_SUCCESS)))))))))))))))))))))"

definition SBUF_SIZE :: nat where "SBUF_SIZE = 1000"

text \<open>
  The times are converted by calls: strptime fills the fields of a zeroed struct tm (in \<open>ints\<close>),
  mktime normalises its argument, and strftime answers 0 when the text does not fit the buffer.
\<close>

definition strtime_main :: "(string \<Rightarrow> prog) \<Rightarrow> (string \<Rightarrow> prog) \<Rightarrow> string list \<Rightarrow> prog" where
  "strtime_main fatal errExit argv =
     (if length argv < 3 \<or> argv ! 1 = ''--help'' then
        usageErr (argv ! 0 @ '' input-date-time in-format [out-format]\<newline>'')
      else Call (Tm (Setlocale [])) (\<lambda>l.
      if rv l = 0 then errExit ''setlocale''
      else Call (Tm (Strptime (argv ! 1) (argv ! 2))) (\<lambda>s.
      if rv s = 0 then fatal ''strptime''
      else
        let tm = (ints s)[8 := -1] in
        Call (Tm (Mktime tm)) (\<lambda>m.
        printf (''calendar time - in seconds since Epoch: '' @ show_int (rv m) @ [NL]) (
        let ofmt = (if length argv > 3 then argv ! 3 else ''%H:%M:%S %A, %d %B %Y %Z'') in
        Call (Tm (Strftime ofmt (ints m))) (\<lambda>f.
        if rv f = 0 then fatal ''strftime returned 0''
        else printf (''strftime() yields: '' @ take (SBUF_SIZE - 1) (bytes f) @ [NL]) (exit EXIT_SUCCESS)))))))"

section \<open>Properties\<close>

text \<open>
  A system whose limits are given by a function: a number, indeterminate (\<open>None\<close>), or an error.
\<close>

datatype limit = Limit int | Indeterminate | Invalid

definition limit_ret :: "limit \<Rightarrow> ret" where
  "limit_ret l = (case l of Limit n \<Rightarrow> ok n | Indeterminate \<Rightarrow> fail 0 | Invalid \<Rightarrow> fail EINVAL)"

definition limit_K :: "(string \<Rightarrow> limit) \<Rightarrow> unit kernel" where
  "limit_K L s c = (case c of
      Sys (Sysconf n) \<Rightarrow> (limit_ret (L n), s)
    | Sys (Fpathconf fd n) \<Rightarrow> (limit_ret (L n), s)
    | _ \<Rightarrow> (ok 1, s))"

definition limit_line :: "(string \<Rightarrow> limit) \<Rightarrow> string \<times> string \<Rightarrow> string" where
  "limit_line L e = fst e @ (case L (snd e) of Limit n \<Rightarrow> '' '' @ show_int n @ [NL] | _ \<Rightarrow> '' (indeterminate)\<newline>'')"

definition sysconf_entries :: "(string \<times> string) list" where
  "sysconf_entries =
    [(''_SC_ARG_MAX:          '', ''_SC_ARG_MAX''), (''_SC_LOGIN_NAME_MAX:   '', ''_SC_LOGIN_NAME_MAX''),
     (''_SC_OPEN_MAX:         '', ''_SC_OPEN_MAX''), (''_SC_NGROUPS_MAX:      '', ''_SC_NGROUPS_MAX''),
     (''_SC_PAGESIZE:         '', ''_SC_PAGESIZE''), (''_SC_RTSIG_MAX         '', ''_SC_RTSIG_MAX''),
     (''_SC_SEMAPHORES:       '', ''_SC_SEMAPHORES''), (''_SC_THREADS:          '', ''_SC_THREADS'')]"

lemma t_sysconf_main_eq:
  "t_sysconf_main = foldr (\<lambda>e. sysconfPrint (fst e) (snd e)) sysconf_entries (exit EXIT_SUCCESS)"
  by (simp add: t_sysconf_main_def sysconf_entries_def)

text \<open>The entries up to the first invalid one are reported.\<close>

lemma sysconf_fold:
  assumes "\<forall>n. L n \<noteq> Limit (-1)"
  shows "emitted Stdout (trace (limit_K L) (foldr (\<lambda>e. sysconfPrint (fst e) (snd e)) es (exit 0)) ()) =
      concat (map (limit_line L) (takeWhile (\<lambda>e. L (snd e) \<noteq> Invalid) es))"
    "calls (trace (limit_K L) (foldr (\<lambda>e. sysconfPrint (fst e) (snd e)) es (exit 0)) ()) =
      map (\<lambda>e. Sys (Sysconf (snd e))) (take (Suc (length (takeWhile (\<lambda>e. L (snd e) \<noteq> Invalid) es))) es)"
    "outcome (limit_K L) (foldr (\<lambda>e. sysconfPrint (fst e) (snd e)) es (exit 0)) () =
      (if \<forall>e\<in>set es. L (snd e) \<noteq> Invalid then Exited 0 else Exited (-1))"
  using assms
  by (induction es) (auto simp: sysconfPrint_def report_limit_def limit_K_def limit_ret_def limit_line_def split: limit.splits)

text \<open>
  t\_sysconf tells a limit from an indeterminate one and from an error: it prints the number
  or (indeterminate) for each entry in order, and at the first invalid name stops, asks for
  nothing more and ends with -1; without invalid names it exits with 0. A limit of -1 is the one
  value that sysconf cannot return.
\<close>

theorem t_sysconf_reports:
  assumes "\<forall>n. L n \<noteq> Limit (-1)"
  shows "emitted Stdout (trace (limit_K L) t_sysconf_main ()) =
      concat (map (limit_line L) (takeWhile (\<lambda>e. L (snd e) \<noteq> Invalid) sysconf_entries)) \<and>
    calls (trace (limit_K L) t_sysconf_main ()) = map (\<lambda>e. Sys (Sysconf (snd e)))
      (take (Suc (length (takeWhile (\<lambda>e. L (snd e) \<noteq> Invalid) sysconf_entries))) sysconf_entries) \<and>
    outcome (limit_K L) t_sysconf_main () =
      (if \<forall>e\<in>set sysconf_entries. L (snd e) \<noteq> Invalid then Exited 0 else Exited (-1))"
  by (simp add: t_sysconf_main_eq sysconf_fold [OF assms])

lemma t_sysconf_reports_witness:
  "outcome (limit_K (\<lambda>n. if n = ''_SC_RTSIG_MAX'' then Invalid else Indeterminate)) t_sysconf_main () = Exited (-1)"
  using t_sysconf_reports [of "\<lambda>n. if n = ''_SC_RTSIG_MAX'' then Invalid else Indeterminate"]
  by (simp add: sysconf_entries_def)

text \<open>
  t\_uname.c prints the release of the system twice, the second time as its version: what uname
  stored as version has no influence on the output.
\<close>

theorem t_uname_version_unused:
  assumes "strs u = [sys, node, rel, vers, mach, domn]" and "rv u = 0"
  shows "emitted Stdout (trace script t_uname_main [u]) =
    ''Node name:    '' @ node @ [NL] @ ''System name:  '' @ sys @ [NL] @ ''Release:      '' @ rel @ [NL] @
    ''Version:      '' @ rel @ [NL] @ ''Machine:      '' @ mach @ [NL] @ ''Domain name:'' @ domn @ [NL]"
  using assms by (simp add: t_uname_main_def uts_def)

text \<open>
  procfs\_pidmax.c never changes anything without an argument; with one it writes exactly the
  argument, once, and reports success only when all of it was written.
\<close>

theorem procfs_pidmax_read_only:
  "calls_only (\<lambda>c. case c of Io (Open p fl m) \<Rightarrow> fl = 0 | Io (Read fd n) \<Rightarrow> n = 100 | _ \<Rightarrow> False) (procfs_pidmax_main [self]) \<and>
   (outcome K (procfs_pidmax_main [self, v]) k = Exited 0 \<longrightarrow>
    (\<exists>fd r. Did (Io (Write fd v)) r \<in> set (trace K (procfs_pidmax_main [self, v]) k) \<and> rv r = int (length v)))"
  by (auto simp: procfs_pidmax_main_def MAX_LINE_def split: if_splits)

text \<open>
  process\_time asks for the clock ticks only in its first report, and makes exactly the requested
  number of getppid calls between the two.
\<close>

lemma getppid_calls_run:
  "calls (trace K (getppid_calls n p) k) =
     replicate n (Proc Getppid) @ calls (trace K p (((\<lambda>k. snd (K k (Proc Getppid))) ^^ n) k))"
  by (induction n arbitrary: k) (simp_all add: funpow_Suc_right del: funpow.simps(2))

theorem process_time_calls:
  assumes "\<And>k c. 0 < rv (fst (K k c))"
  shows "calls (trace K (process_time_main secs [self, n]) k) =
    [Sys (Sysconf ''_SC_CLK_TCK''), Sys (Sysconf ''_SC_CLK_TCK''), Tm Clock, Tm Times] @
    replicate (nat (atoi n)) (Proc Getppid) @ [Tm Clock, Tm Times]"
proof -
  have "rv (fst (K k c)) \<noteq> -1" "rv (fst (K k c)) \<noteq> 0" for k c using assms [of k c] by auto
  then show ?thesis by (simp add: process_time_main_def displayProcessTimes_def Let_def getppid_calls_run)
qed

end
