(* ===== verification/Runtime.thy ===== *)
theory Runtime
  imports Signals
begin

text \<open>
  Programs about the run-time environment of C: the heap (src/mem\_alloc/free\_and\_sbrk.c), the
  stack (src/signals/t\_sigaltstack.c), non-local jumps (src/proc/longjmp.c), int arithmetic
  (src/proc/mem\_segments.c), the buffers of stdio (src/filebuff/mix\_write\_printf.c), the argument
  vector (src/filebuff/direct\_read.c) and threads (src/threads/thread\_cancel.c).
\<close>

text \<open>A pointer printed with \<open>%10p\<close> and with \<open>%p\<close>.\<close>

definition show_ptr :: "int \<Rightarrow> string" where
  "show_ptr a = (if a = 0 then ''(nil)'' else ''0x'' @ show_hex (nat a))"

definition show_ptr10 :: "int \<Rightarrow> string" where
  "show_ptr10 a = pad_left (CHR '' '') 10 (show_ptr a)"

section \<open>free\_and\_sbrk.c\<close>

definition MAX_ALLOCS :: int where "MAX_ALLOCS = 1000000"

definition show_break :: "string \<Rightarrow> prog \<Rightarrow> prog" where
  "show_break text p = Call (Mem (Sbrk 0)) (\<lambda>b. printf (text @ show_ptr10 (rv b) @ [NL]) p)"

text \<open>\<open>ptr\<close> holds the blocks allocated so far; the size is converted to size\_t.\<close>

fun alloc_loop :: "nat \<Rightarrow> int \<Rightarrow> int list \<Rightarrow> (int list \<Rightarrow> prog) \<Rightarrow> prog" where
  "alloc_loop 0 blockSize ptr k = k ptr"
| "alloc_loop (Suc n) blockSize ptr k =
     Call (Sys (Malloc (to_size blockSize))) (\<lambda>m.
     if rv m = 0 then printf ''malloc'' (exit (-1)) else alloc_loop n blockSize (ptr @ [rv m]) k)"

text \<open>
  The loop that frees blocks. An element of \<open>ptr\<close> is None once its block was freed: freeing it
  again is undefined, as are an index outside of the allocated elements and an overflow of \<open>j\<close>.
  Every turn frees a block, so that the loop ends whatever the step.
\<close>

function free_loop :: "int option list \<Rightarrow> int \<Rightarrow> int \<Rightarrow> int \<Rightarrow> prog \<Rightarrow> prog" where
  "free_loop ptr j freeMax freeStep p =
     (if j < freeMax then
        if j < 0 \<or> int (length ptr) \<le> j then Halt Undefined
        else case ptr ! nat j of
          None \<Rightarrow> Halt Undefined
        | Some b \<Rightarrow> Call (Mem (Free b)) (\<lambda>_.
            if j + freeStep > INT_MAX then Halt Undefined
            else free_loop (ptr[nat j := None]) (j + freeStep) freeMax freeStep p)
      else p)"
  by pat_completeness auto

definition live :: "int option list \<Rightarrow> nat set" where
  "live ptr = {i. i < length ptr \<and> ptr ! i \<noteq> None}"

lemma finite_live [simp]: "finite (live ptr)"
  by (simp add: live_def)

lemma live_update: "live (ptr[i := None]) = live ptr - {i}"
  by (cases "i < length ptr") (auto simp: live_def nth_list_update)

lemma live_less: "i < length ptr \<Longrightarrow> ptr ! i \<noteq> None \<Longrightarrow> card (live (ptr[i := None])) < card (live ptr)"
  unfolding live_update by (rule card_Diff1_less) (simp_all add: live_def)

termination free_loop
  by (relation "measure (\<lambda>(ptr, _). card (live ptr))") (auto intro: live_less)

declare free_loop.simps [simp del]

definition free_and_sbrk_main :: "string list \<Rightarrow> prog" where
  "free_and_sbrk_main argv =
     printf [NL] (
     if length argv < 3 \<or> argv ! 1 = ''--help'' then
       printf (argv ! 0 @ '' num-allocs block-size [step [min [max]]]\<newline>'') (exit (-1))
     else show_break ''Initial Program Break:    '' (
     let numAllocs = atoi (argv ! 1) in
     if numAllocs > MAX_ALLOCS then printf (''num-allocs > '' @ show_int MAX_ALLOCS @ [NL]) (exit (-1))
     else
     let blockSize = atoi (argv ! 2);
         freeStep = (if length argv > 3 then atoi (argv ! 3) else 1);
         freeMin = (if length argv > 4 then atoi (argv ! 4) else 1);
         freeMax = (if length argv > 5 then atoi (argv ! 5) else numAllocs) in
     if freeMax > numAllocs then printf ''free-max > num-allocs\<newline>'' (exit (-1))
     else show_break ''Initial Program Break:    '' (
     printf (''Allocating '' @ show_int numAllocs @ ''*'' @ show_int blockSize @ '' bytes\<newline>'') (
     alloc_loop (nat numAllocs) blockSize [] (\<lambda>ptr.
     show_break ''Program Break is now:    '' (
     printf (''Freeing blocks from '' @ show_int freeMin @ '' to '' @ show_int freeMax @ '' in steps of '' @
             show_int freeStep @ [NL]) (
     if freeMin = INT_MIN then Halt Undefined
     else free_loop (map Some ptr) (freeMin - 1) freeMax freeStep (
     show_break ''Program Break after free() is    '' (exit EXIT_SUCCESS)))))))))"

section \<open>t\_sigaltstack.c\<close>

abbreviation (input) SIGSEGV :: int where "SIGSEGV \<equiv> 11"
abbreviation (input) SA_ONSTACK :: flags where "SA_ONSTACK \<equiv> 0x08000000"
abbreviation (input) SIGSTKSZ :: int where "SIGSTKSZ \<equiv> 8192"

text \<open>\<open>x\<close> is the address of the handler's local variable.\<close>

definition sigsegvHandler :: "(int \<Rightarrow> string) \<Rightarrow> int \<Rightarrow> int \<Rightarrow> prog" where
  "sigsegvHandler strsignal x sig =
     printf (''Caught signal '' @ show_int sig @ '' ('' @ strsignal sig @ '')\<newline>'') (
     printf (''Top of handler stack near    '' @ show_ptr10 x @ [NL]) (
     fflush_stdout (exit_now EXIT_FAILURE)))"

text \<open>
  \<open>frame n\<close> is the address of the array in the stack frame of the call number \<open>n\<close>, or None when
  the frame does not fit on the stack any more: then the system sends SIGSEGV, whose handler runs
  (\<open>segv\<close>). \<open>n\<close> bounds the depth of the recursion.
\<close>

fun overflowStack :: "(int \<Rightarrow> int option) \<Rightarrow> prog \<Rightarrow> nat \<Rightarrow> int \<Rightarrow> prog" where
  "overflowStack frame segv 0 callNum = Halt Unfinished"
| "overflowStack frame segv (Suc n) callNum =
     (case frame callNum of
        None \<Rightarrow> segv
      | Some a \<Rightarrow> printf (''Call '' @ pad_left (CHR '' '') 4 (show_int callNum) @ '' - top of stack near '' @ show_ptr10 a @ [NL])
          (overflowStack frame segv n (callNum + 1)))"

definition t_sigaltstack_main ::
  "(int \<Rightarrow> string) \<Rightarrow> (int \<Rightarrow> int option) \<Rightarrow> int \<Rightarrow> int \<Rightarrow> nat \<Rightarrow> prog" where
  "t_sigaltstack_main strsignal frame jaddr x n =
     printf (''Top of standard stack is near '' @ show_ptr10 jaddr @ [NL]) (
     Call (Sys (Malloc SIGSTKSZ)) (\<lambda>ss.
     if rv ss = 0 then perror ''malloc'' (exit EXIT_FAILURE)
     else Call (Mem (Sigaltstack (rv ss) SIGSTKSZ)) (\<lambda>a.
     if rv a = -1 then perror ''sigaltstack'' (exit EXIT_FAILURE)
     else Call (Mem (Sbrk 0)) (\<lambda>b.
     printf (''Alternate stack is at '' @ show_ptr10 (rv ss) @ ''-'' @ show_ptr (rv b - 1) @ [NL]) (
     Call (Sig (Sigaction SIGSEGV ''sigsegvHandler'' SA_ONSTACK {})) (\<lambda>s.
     if rv s = -1 then perror ''sigaction'' (exit EXIT_FAILURE)
     else overflowStack frame (sigsegvHandler strsignal x SIGSEGV) n 1))))))"

section \<open>longjmp.c\<close>

text \<open>\<open>jump v\<close> is what follows \<open>longjmp(env, v)\<close>.\<close>

definition function2 :: "(int \<Rightarrow> prog) \<Rightarrow> prog" where
  "function2 jump = jump 2"

definition function1 :: "(int \<Rightarrow> prog) \<Rightarrow> int \<Rightarrow> prog" where
  "function1 jump argc = (if argc = 1 then jump 1 else function2 jump)"

text \<open>The switch of main, entered with the value that setjmp returned.\<close>

definition jump_switch :: "(int \<Rightarrow> prog) \<Rightarrow> int \<Rightarrow> int \<Rightarrow> prog" where
  "jump_switch jump argc v =
     (if v = 0 then printf ''Calling function1 after initial setjmp()\<newline>'' (function1 jump argc)
      else if v = 1 then printf ''We jumped back from function1()\<newline>'' (exit EXIT_SUCCESS)
      else if v = 2 then printf ''We jumped back from function2()\<newline>'' (exit EXIT_SUCCESS)
      else exit EXIT_SUCCESS)"

text \<open>setjmp returns a first time with 0 and again at every jump; \<open>n\<close> bounds the jumps.\<close>

fun setjmp_main :: "nat \<Rightarrow> int \<Rightarrow> int \<Rightarrow> prog" where
  "setjmp_main 0 argc v = Halt Unfinished"
| "setjmp_main (Suc n) argc v = jump_switch (setjmp_main n argc) argc v"

definition longjmp_main :: "nat \<Rightarrow> int \<Rightarrow> prog" where
  "longjmp_main n argc = setjmp_main n argc 0"

section \<open>mem\_segments.c\<close>

text \<open>A product of ints, undefined where it overflows.\<close>

definition mul_int :: "int \<Rightarrow> int \<Rightarrow> (int \<Rightarrow> prog) \<Rightarrow> prog" where
  "mul_int a b k = (if INT_MIN \<le> a * b \<and> a * b \<le> INT_MAX then k (a * b) else Halt Undefined)"

definition square :: "int \<Rightarrow> (int \<Rightarrow> prog) \<Rightarrow> prog" where
  "square x k = mul_int x x k"

definition doCalc :: "int \<Rightarrow> prog \<Rightarrow> prog" where
  "doCalc val p =
     square val (\<lambda>s.
     printf (''The square of '' @ show_int val @ '' is '' @ show_int s @ [NL]) (
     if val < 1000 then
       mul_int val val (\<lambda>v. mul_int v val (\<lambda>t.
       printf (''The cube of '' @ show_int val @ '' is '' @ show_int t @ [NL]) p))
     else p))"

definition mem_segments_main :: prog where
  "mem_segments_main = Call (Sys (Malloc 1024)) (\<lambda>_. doCalc 9973 (exit EXIT_SUCCESS))"

section \<open>mix\_write\_printf.c and direct\_read.c\<close>

definition mix_write_printf_main :: prog where
  "mix_write_printf_main =
     printf ''To man the world is twofold, '' (
     Call (Io (Write 1 ''in accordance with his twofold attitude.\<newline>'')) (\<lambda>_.
     printf (NL # ''To man the world is twofold, '') (
     fflush_stdout (
     Call (Io (Write 1 ''in accordance with his twofold attitude.\<newline>'')) (\<lambda>_.
     exit EXIT_SUCCESS)))))"

text \<open>
  The conditions \<open>argv > 3\<close> and \<open>argv > 4\<close> compare a pointer with a number and are true for every
  address that a program can have; argc was meant.
\<close>

definition direct_read_main :: "string list \<Rightarrow> prog" where
  "direct_read_main argv =
     (if length argv < 3 \<or> argv ! 1 = ''--help'' then
        printf (argv ! 0 @ '' file length [offset [alignment]]\<newline>'') (exit EXIT_FAILURE)
      else
        with_arg argv 3 (\<lambda>offset. with_arg argv 4 (\<lambda>alignment. exit 0)))"

section \<open>thread\_cancel.c\<close>

text \<open>The new thread; \<open>n\<close> turns of its endless loop.\<close>

fun thread_loop :: "nat \<Rightarrow> int \<Rightarrow> prog" where
  "thread_loop 0 j = Halt Unfinished"
| "thread_loop (Suc n) j =
     printf (''Loop '' @ show_int j @ [NL]) (Call (Proc (Sleep 1)) (\<lambda>_. thread_loop n (j + 1)))"

definition thread_func :: "nat \<Rightarrow> prog" where
  "thread_func n = printf ''New thread started\<newline>'' (thread_loop n 1)"

text \<open>PTHREAD\_CANCELED is the pointer -1; pthread\_join stores the thread's result.\<close>

definition thread_cancel_main :: prog where
  "thread_cancel_main =
     Call (Ev (Pthread_create ''threadFunc'' 0)) (\<lambda>s.
     if rv s \<noteq> 0 then perror ''pthread_create'' (exit EXIT_FAILURE)
     else let thr = (case ints s of [] \<Rightarrow> 0 | t # _ \<Rightarrow> t) in
     Call (Proc (Sleep 3)) (\<lambda>_.
     Call (Ev (Pthread_cancel thr)) (\<lambda>c.
     if rv c \<noteq> 0 then perror ''pthread_cancel'' (exit EXIT_FAILURE)
     else Call (Ev (Pthread_join thr)) (\<lambda>j.
     if rv j \<noteq> 0 then perror ''pthread_join'' (exit EXIT_FAILURE)
     else if (case ints j of [] \<Rightarrow> 0 | res # _ \<Rightarrow> res) = -1 then
       printf ''Thread was cancelled\<newline>'' (exit EXIT_SUCCESS)
     else printf ''Thread was not cancelled(shouldnot have happened)\<newline>'' (exit EXIT_SUCCESS)))))"

section \<open>A heap\<close>

text \<open>Blocks are numbered in the order of their allocation.\<close>

record heap =
  fresh :: int
  blocks :: "int set"

definition heap_K :: "heap kernel" where
  "heap_K h c = (case c of
      Sys (Malloc n) \<Rightarrow> (ok (fresh h), h\<lparr>fresh := fresh h + 1, blocks := insert (fresh h) (blocks h)\<rparr>)
    | Mem (Free b) \<Rightarrow> (ok 0, h\<lparr>blocks := blocks h - {b}\<rparr>)
    | _ \<Rightarrow> (ok 1, h))"

lemma heap_K_simps [simp]:
  "heap_K h (Sys (Malloc n)) = (ok (fresh h), h\<lparr>fresh := fresh h + 1, blocks := insert (fresh h) (blocks h)\<rparr>)"
  "heap_K h (Mem (Free b)) = (ok 0, h\<lparr>blocks := blocks h - {b}\<rparr>)"
  "heap_K h (Mem (Sbrk n)) = (ok 1, h)"
  by (simp_all add: heap_K_def)

lemma alloc_loop_allocates:
  assumes "0 < fresh h"
  shows "reaches heap_K (alloc_loop n sz ptr k) h (k (ptr @ map (\<lambda>i. fresh h + int i) [0..<n]))
    (h\<lparr>fresh := fresh h + int n, blocks := blocks h \<union> {fresh h..<fresh h + int n}\<rparr>)"
  using assms
proof (induction n arbitrary: ptr h)
  case (Suc n)
  have "map (\<lambda>i. fresh h + int i) [0..<Suc n] = fresh h # map (\<lambda>i. fresh h + 1 + int i) [0..<n]"
    by (simp add: upt_conv_Cons map_Suc_upt [symmetric] ac_simps del: upt_Suc)
  moreover have "insert (fresh h) (blocks h) \<union> {fresh h + 1..<fresh h + 1 + int n} = blocks h \<union> {fresh h..<fresh h + int (Suc n)}"
    by auto
  ultimately show ?case
    using Suc.prems Suc.IH [of "h\<lparr>fresh := fresh h + 1, blocks := insert (fresh h) (blocks h)\<rparr>" "ptr @ [fresh h]"]
    by (auto intro!: reaches_Call simp: ac_simps simp del: upt_Suc)
qed simp

text \<open>The indices that a loop from \<open>j\<close> below \<open>m\<close> with a positive step visits.\<close>

definition visited :: "int \<Rightarrow> int \<Rightarrow> int \<Rightarrow> int set" where
  "visited j m step = {i. j \<le> i \<and> i < m \<and> step dvd i - j}"

lemma visited_step: "j < m \<Longrightarrow> 0 < step \<Longrightarrow> visited j m step = insert j (visited (j + step) m step)"
proof -
  assume "j < m" "0 < step"
  have "j + step \<le> i" if "j \<le> i" "i \<noteq> j" "step dvd i - j" for i
    using that zdvd_imp_le [of step "i - j"] by simp
  moreover have "step dvd i - j \<longleftrightarrow> step dvd i - (j + step)" for i
    using dvd_diff_left_iff [of step step "i - j"] by (simp add: diff_diff_eq)
  ultimately show ?thesis using \<open>j < m\<close> \<open>0 < step\<close> by (auto simp: visited_def)
qed

text \<open>The value of the loop variable behind the last index visited, when there is one.\<close>

definition beyond :: "int \<Rightarrow> int \<Rightarrow> int \<Rightarrow> int" where
  "beyond j m step = j + step * ((m - 1 - j) div step + 1)"

lemma beyond_next: "0 < step \<Longrightarrow> beyond (j + step) m step = beyond j m step"
proof -
  assume "0 < step"
  have "(m - 1 - j) div step = (m - 1 - (j + step) + 1 * step) div step" by (simp add: algebra_simps)
  also have "\<dots> = (m - 1 - (j + step)) div step + 1" using \<open>0 < step\<close> by (subst div_mult_self1) auto
  finally show ?thesis by (simp add: beyond_def algebra_simps)
qed

lemma beyond_last: "0 < step \<Longrightarrow> j < m \<Longrightarrow> m \<le> j + step \<Longrightarrow> beyond j m step = j + step"
  by (simp add: beyond_def div_pos_pos_trivial)

lemma beyond_ge: "0 < step \<Longrightarrow> j < m \<Longrightarrow> j + step \<le> beyond j m step"
  using pos_imp_zdiv_nonneg_iff [of step "m - 1 - j"] by (simp add: beyond_def algebra_simps)

lemma free_loop_frees:
  assumes "0 < step" "j < m \<longrightarrow> beyond j m step \<le> INT_MAX" and "0 \<le> j" "m \<le> int (length ptr)"
    and "\<forall>i. j \<le> int i \<and> i < length ptr \<longrightarrow> ptr ! i = Some (b + int i)"
  shows "reaches heap_K (free_loop ptr j m step p) h p (h\<lparr>blocks := blocks h - (\<lambda>i. b + i) ` visited j m step\<rparr>)"
  using assms
proof (induction ptr j m step p arbitrary: h rule: free_loop.induct)
  case (1 ptr j m step p)
  show ?case
  proof (cases "j < m")
    case False
    then have "visited j m step = {}" by (auto simp: visited_def)
    then show ?thesis using False by (simp add: free_loop.simps)
  next
    case True
    have at: "ptr ! nat j = Some (b + j)" "nat j < length ptr" using 1(2-) True by auto
    have in_range: "j + step \<le> INT_MAX" using beyond_ge [OF 1(2) True] 1(3) True by linarith
    have "reaches heap_K (free_loop (ptr[nat j := None]) (j + step) m step p) (h\<lparr>blocks := blocks h - {b + j}\<rparr>) p
      (h\<lparr>blocks := blocks h - {b + j} - (\<lambda>i. b + i) ` visited (j + step) m step\<rparr>)"
      using 1(1) [OF True _ at(1), of "h\<lparr>blocks := blocks h - {b + j}\<rparr>"] 1(2-) True in_range
      by (auto simp: nth_list_update beyond_next)
    moreover have "blocks h - {b + j} - (\<lambda>i. b + i) ` visited (j + step) m step = blocks h - (\<lambda>i. b + i) ` visited j m step"
      using visited_step [OF True 1(2)] by auto
    ultimately show ?thesis using True at 1(2-) in_range
      by (subst free_loop.simps) (auto intro!: reaches_Call)
  qed
qed

text \<open>With a step so large that \<open>j += freeStep\<close> overflows, the loop is undefined.\<close>

lemma free_loop_overflow:
  "0 < step \<Longrightarrow> j < m \<Longrightarrow> INT_MAX < beyond j m step \<Longrightarrow> outcome K (free_loop ptr j m step p) k = Undefined"
proof (induction ptr j m step p arbitrary: k rule: free_loop.induct)
  case (1 ptr j m step p)
  have "j + step < m" if "\<not> INT_MAX < j + step"
    using beyond_last [OF 1(2,3)] 1(4) that by linarith
  then show ?case using 1 by (subst free_loop.simps) (auto simp: beyond_next split: option.splits)
qed

text \<open>Without a positive step the loop runs into a freed block or in front of the array.\<close>

lemma free_loop_undefined:
  "step \<le> 0 \<or> j < 0 \<Longrightarrow> j < m \<Longrightarrow> outcome K (free_loop ptr j m step p) k = Undefined"
proof (induction ptr j m step p arbitrary: k rule: free_loop.induct)
  case (1 ptr j m step p)
  then show ?case by (subst free_loop.simps) (auto split: option.splits)
qed

section \<open>Properties\<close>

lemma atoi_int: "INT_MIN \<le> i \<Longrightarrow> i \<le> INT_MAX \<Longrightarrow> atoi (show_int i) = i"
  using atoi_show_int [of i "[]"] by simp

lemma show_break_reaches: "reaches heap_K (show_break t p) h p h"
  by (auto simp: show_break_def intro!: reaches_intros)

lemma show_int_not_help: "0 \<le> i \<Longrightarrow> show_int i \<noteq> ''--help''"
  using show_nat_hd [of "nat i"] isdigit_not_special by (fastforce simp: show_int_def)

lemma free_and_sbrk_start:
  assumes "0 < fresh h" and "0 \<le> num" "num \<le> 1000000" and "hi \<le> num" "INT_MIN \<le> hi"
    and "INT_MIN \<le> step" "step \<le> INT_MAX" and "INT_MIN < lo" "lo \<le> INT_MAX" and "0 \<le> sz" "sz \<le> INT_MAX"
  shows "reaches heap_K (free_and_sbrk_main [self, show_int num, show_int sz, show_int step, show_int lo, show_int hi]) h
    (free_loop (map Some (map (\<lambda>i. fresh h + int i) [0..<nat num])) (lo - 1) hi step
      (show_break ''Program Break after free() is    '' (exit 0)))
    (h\<lparr>fresh := fresh h + num, blocks := blocks h \<union> {fresh h..<fresh h + num}\<rparr>)"
proof -
  have nums: "atoi (show_int num) = num" "atoi (show_int sz) = sz" "atoi (show_int step) = step" "atoi (show_int lo) = lo"
    "atoi (show_int hi) = hi"
    using assms by (intro atoi_int; simp add: int_limits)+
  have args: "[self, a, b, c, d, e] ! 3 = c" "[self, a, b, c, d, e] ! 4 = d" "[self, a, b, c, d, e] ! 5 = e" for a b c d e
    by (simp_all add: eval_nat_numeral)
  show ?thesis
    using assms nums args show_int_not_help [of num]
    by (auto simp: free_and_sbrk_main_def MAX_ALLOCS_def Let_def intro!: reaches_Put reaches_trans [OF show_break_reaches]
        reaches_trans [OF alloc_loop_allocates [OF assms(1)]])
qed

lemma reaches_end: "reaches K p k (Halt out) k' \<Longrightarrow> outcome K p k = out \<and> final K p k = k'"
  using reaches_outcome reaches_final by fastforce

lemma free_and_sbrk_run:
  assumes "0 < fresh h" and "0 \<le> num" "num \<le> 1000000" and "hi \<le> num" "INT_MIN \<le> hi"
    and "INT_MIN \<le> step" "step \<le> INT_MAX" and "INT_MIN < lo" "lo \<le> INT_MAX" and "0 \<le> sz" "sz \<le> INT_MAX"
  shows "let p = free_and_sbrk_main [self, show_int num, show_int sz, show_int step, show_int lo, show_int hi] in
    (if lo \<le> hi \<and> (lo < 1 \<or> step \<le> 0 \<or> INT_MAX < beyond (lo - 1) hi step) then outcome heap_K p h = Undefined
     else outcome heap_K p h = Exited 0 \<and>
       blocks (final heap_K p h) = (blocks h \<union> {fresh h..<fresh h + num}) -
         {fresh h + i | i. lo - 1 \<le> i \<and> i < hi \<and> step dvd i - (lo - 1)})"
proof -
  let ?ptr = "map Some (map (\<lambda>i. fresh h + int i) [0..<nat num])"
  let ?finish = "show_break ''Program Break after free() is    '' (exit 0)"
  let ?h = "h\<lparr>fresh := fresh h + num, blocks := blocks h \<union> {fresh h..<fresh h + num}\<rparr>"
  let ?set = "{fresh h + i | i. lo - 1 \<le> i \<and> i < hi \<and> step dvd i - (lo - 1)}"
  note start = free_and_sbrk_start [OF assms, of self]
  consider "lo \<le> hi \<and> (lo < 1 \<or> step \<le> 0 \<or> INT_MAX < beyond (lo - 1) hi step)" | "hi < lo"
    | "1 \<le> lo" "0 < step" "lo \<le> hi" "beyond (lo - 1) hi step \<le> INT_MAX" by linarith
  then show ?thesis
  proof cases
    case 1
    then have "outcome heap_K (free_loop ?ptr (lo - 1) hi step ?finish) ?h = Undefined"
      using free_loop_undefined [of step "lo - 1" hi] free_loop_overflow [of step "lo - 1" hi] by (cases "0 < step") auto
    then show ?thesis using 1 reaches_outcome [OF start] by (simp add: Let_def)
  next
    case 2
    then have "reaches heap_K (free_loop ?ptr (lo - 1) hi step ?finish) ?h (exit 0) ?h"
      by (subst free_loop.simps) (simp add: show_break_reaches)
    moreover have empty: "?set = {}" using 2 by auto
    ultimately show ?thesis using 2 reaches_end [OF reaches_trans [OF start]] unfolding Let_def empty by simp
  next
    case 3
    then have "reaches heap_K (free_loop ?ptr (lo - 1) hi step ?finish) ?h (exit 0)
        (?h\<lparr>blocks := blocks ?h - (\<lambda>i. fresh h + i) ` visited (lo - 1) hi step\<rparr>)"
      using assms by (intro reaches_trans [OF free_loop_frees show_break_reaches]) auto
    moreover have image: "(\<lambda>i. fresh h + i) ` visited (lo - 1) hi step = ?set"
      by (auto simp: visited_def)
    ultimately show ?thesis using 3 reaches_end [OF reaches_trans [OF start]] unfolding Let_def image by simp
  qed
qed

text \<open>
  (C38) free\_and\_sbrk with five numbers of type int, of which num is from 0 to 1000000, max is at most
  num, the size is not negative, and min - 1 is an int, on a heap that has memory left. Of the \<open>num\<close>
  allocated blocks it frees exactly those it announces, with the numbers from min to max in steps of
  step, each once, the others stay allocated, and it exits with 0. When there is a block to free (min
  is at most max), its behaviour is undefined in exactly these cases: min is below 1 (the array is
  read in front of its first element), step is not positive (a block is freed twice, or the array is
  read in front of its first element), or adding step to the last index visited overflows.
\<close>

theorem free_and_sbrk_frees:
  assumes "0 < fresh h" and "0 \<le> num" "num \<le> 1000000" and "hi \<le> num" "INT_MIN \<le> hi"
    and "INT_MIN \<le> step" "step \<le> INT_MAX" and "INT_MIN < lo" "lo \<le> INT_MAX" and "0 \<le> sz" "sz \<le> INT_MAX"
  shows "let p = free_and_sbrk_main [self, show_int num, show_int sz, show_int step, show_int lo, show_int hi] in
    (if lo \<le> hi \<and> (lo < 1 \<or> step \<le> 0 \<or> INT_MAX < lo - 1 + step * ((hi - lo) div step + 1)) then outcome heap_K p h = Undefined
     else outcome heap_K p h = Exited 0 \<and>
       blocks (final heap_K p h) = (blocks h \<union> {fresh h..<fresh h + num}) -
         {fresh h + i | i. lo - 1 \<le> i \<and> i < hi \<and> step dvd i - (lo - 1)})"
  using free_and_sbrk_run [OF assms, of self] by (simp add: beyond_def)

lemma free_and_sbrk_frees_witness:
  "outcome heap_K (free_and_sbrk_main [''f'', show_int 10, show_int 64, show_int 3, show_int 2, show_int 9])
     \<lparr>fresh = 100, blocks = {}\<rparr> = Exited 0"
  using free_and_sbrk_frees [of "\<lparr>fresh = 100, blocks = {}\<rparr>" 10 9 3 2 64 "''f''"]
  by (simp only: Let_def int_limits) simp

lemma square_in_range: "INT_MIN \<le> v * v \<and> v * v \<le> INT_MAX \<longleftrightarrow> -46340 \<le> v \<and> v \<le> 46340"
proof -
  have "v * v \<le> INT_MAX \<longleftrightarrow> \<bar>v\<bar> \<le> 46340"
  proof
    assume "v * v \<le> INT_MAX"
    then have "\<not> 46341 * 46341 \<le> \<bar>v\<bar> * \<bar>v\<bar>" by (simp add: INT_MAX_def abs_mult_self_eq)
    then show "\<bar>v\<bar> \<le> 46340" using mult_mono [of 46341 "\<bar>v\<bar>" 46341 "\<bar>v\<bar>"] by force
  next
    assume "\<bar>v\<bar> \<le> 46340"
    then have "\<bar>v\<bar> * \<bar>v\<bar> \<le> 46340 * 46340" by (intro mult_mono) auto
    then show "v * v \<le> INT_MAX" by (simp add: INT_MAX_def abs_mult_self_eq)
  qed
  then show ?thesis by (auto simp: INT_MIN_def intro: order_trans [of _ 0])
qed

lemma cube_in_range:
  assumes "v < 1000"
  shows "INT_MIN \<le> v * v * v \<and> v * v * v \<le> INT_MAX \<longleftrightarrow> -1290 \<le> v"
proof -
  have cube: "v * v * v = v ^ 3" by (simp add: power3_eq_cube)
  have "v ^ 3 \<le> 1000 ^ 3" using assms by (intro power_mono_odd) auto
  moreover have "(-1290) ^ 3 \<le> v ^ 3" if "-1290 \<le> v" using that by (intro power_mono_odd) auto
  moreover have "v ^ 3 \<le> (-1291) ^ 3" if "v \<le> -1291" using that by (intro power_mono_odd) auto
  ultimately show ?thesis unfolding cube by (cases "v \<le> -1291") (auto simp: int_limits)
qed

text \<open>
  The arithmetic of mem\_segments.c is defined for exactly the numbers from -1290 to 46340: doCalc
  prints the square, and below 1000 also the cube, and outside of that range overflows. The number
  the program uses, 9973, is inside.
\<close>

theorem doCalc_defined:
  "outcome K (doCalc v (exit 0)) k = (if -1290 \<le> v \<and> v \<le> 46340 then Exited 0 else Undefined) \<and>
   (-1290 \<le> v \<and> v \<le> 46340 \<longrightarrow> emitted Stdout (trace K (doCalc v (exit 0)) k) =
      ''The square of '' @ show_int v @ '' is '' @ show_int (v ^ 2) @ [NL] @
      (if v < 1000 then ''The cube of '' @ show_int v @ '' is '' @ show_int (v ^ 3) @ [NL] else [])) \<and>
   outcome K mem_segments_main k = Exited 0"
proof -
  have "outcome K mem_segments_main k = Exited 0"
    by (simp add: mem_segments_main_def doCalc_def square_def mul_int_def int_limits)
  then show ?thesis
    by (auto simp: doCalc_def square_def mul_int_def square_in_range cube_in_range power2_eq_square power3_eq_cube)
qed

lemma doCalc_defined_witness:
  "outcome script (doCalc (- 7) (exit 0)) [] = Exited 0 \<and>
   emitted Stdout (trace script (doCalc (- 7) (exit 0)) []) =
     ''The square of -7 is 49'' @ [NL] @ ''The cube of -7 is -343'' @ [NL] \<and>
   outcome script (doCalc 46341 (exit 0)) [] = Undefined"
proof -
  have "show_int (- 7) = ''-7''" "show_int 49 = ''49''" "show_int (- 343) = ''-343''" by code_simp+
  then show ?thesis
    using doCalc_defined [of script "- 7" "[]"] doCalc_defined [of script 46341 "[]"] by simp
qed

text \<open>
  What reaches the file behind standard output: stdio collects what is printed and passes it on at
  a flush and at the end of the process, on a terminal (\<open>line\<close>) also up to the last newline
  printed; write goes past that buffer.
\<close>

fun appears :: "bool \<Rightarrow> string \<Rightarrow> event list \<Rightarrow> string" where
  "appears line buf [] = buf"
| "appears line buf (Emit q s # es) =
     (if q = Stdout then
        let b = buf @ s in
        if line then rev (dropWhile (\<lambda>c. c \<noteq> NL) (rev b)) @ appears line (rev (takeWhile (\<lambda>c. c \<noteq> NL) (rev b))) es
        else appears line b es
      else if q = Flush then buf @ appears line [] es
      else appears line buf es)"
| "appears line buf (Did c r # es) =
     (case c of Io (Write fd d) \<Rightarrow> (if fd = 1 then take (nat (rv r)) d else []) | _ \<Rightarrow> []) @ appears line buf es"

text \<open>
  Mixing printf and write changes the order of the output: what mix\_write\_printf.c prints
  first by printf appears behind what it then writes by write, and only the second pair, with a
  flush in between, appears in program order. The result is the same on a terminal and in a file.
\<close>

theorem mix_write_printf_order:
  "appears line [] (trace script mix_write_printf_main [ok 41, ok 41]) =
     ''in accordance with his twofold attitude.\<newline>'' @
     ''To man the world is twofold, \<newline>'' @
     ''To man the world is twofold, in accordance with his twofold attitude.\<newline>''"
  by (cases line) (simp_all add: mix_write_printf_main_def)

text \<open>
  longjmp.c comes back from function1 when it has no arguments and from function2 otherwise; two
  returns of setjmp are enough.
\<close>

theorem longjmp_returns:
  "2 \<le> n \<Longrightarrow> emitted Stdout (trace K (longjmp_main n argc) k) =
     ''Calling function1 after initial setjmp()\<newline>We jumped back from function'' @
     (if argc = 1 then ''1'' else ''2'') @ ''()\<newline>'' \<and> outcome K (longjmp_main n argc) k = Exited 0"
  by (cases n; cases "n - 1") (auto simp: longjmp_main_def jump_switch_def function1_def function2_def)

text \<open>
  t\_sigaltstack.c: when the stack has room for \<open>d\<close> frames, the recursion reports the calls 1 to d, and
  the handler that then runs on the alternate stack ends the process by \_exit with EXIT\_FAILURE.
\<close>

lemma overflowStack_run:
  assumes "\<forall>i. c \<le> i \<and> i < c + int d \<longrightarrow> frame i = Some (addr i)" and "frame (c + int d) = None" and "d < n"
  shows "emitted Stdout (trace K (overflowStack frame segv n c) k) =
      concat (map (\<lambda>i. ''Call '' @ pad_left (CHR '' '') 4 (show_int (c + int i)) @ '' - top of stack near '' @
        show_ptr10 (addr (c + int i)) @ [NL]) [0..<d]) @ emitted Stdout (trace K segv k)"
    "outcome K (overflowStack frame segv n c) k = outcome K segv k"
  using assms
proof (induction d arbitrary: c n)
  case 0
  { case 1 then show ?case by (cases n) auto }
  { case 2 then show ?case by (cases n) auto }
next
  case (Suc d)
  have upt: "[0..<Suc d] = 0 # map Suc [0..<d]" by (simp add: upt_conv_Cons map_Suc_upt del: upt_Suc)
  { case (1 c n)
    then obtain m where "n = Suc m" "d < m" "frame c = Some (addr c)" by (cases n) auto
    then show ?case using 1 Suc.IH(1) [of "c + 1" m] unfolding upt by (simp add: comp_def ac_simps) }
  { case (2 c n)
    then obtain m where "n = Suc m" "d < m" "frame c = Some (addr c)" by (cases n) auto
    then show ?case using 2 Suc.IH(2) [of "c + 1" m] by (simp add: ac_simps) }
qed

theorem t_sigaltstack_handles:
  assumes "\<And>k c. 0 < rv (fst (K k c))"
    and "\<forall>i. 1 \<le> i \<and> i < 1 + int d \<longrightarrow> frame i = Some (addr i)" and "frame (1 + int d) = None" and "d < n"
  shows "outcome K (t_sigaltstack_main strsignal frame j x n) k = Exited_now 1 \<and>
    emitted Stdout (trace K (overflowStack frame (sigsegvHandler strsignal x SIGSEGV) n 1) k) =
      concat (map (\<lambda>i. ''Call '' @ pad_left (CHR '' '') 4 (show_int (1 + int i)) @ '' - top of stack near '' @
        show_ptr10 (addr (1 + int i)) @ [NL]) [0..<d]) @
      ''Caught signal '' @ show_int 11 @ '' ('' @ strsignal 11 @ '')\<newline>Top of handler stack near    '' @ show_ptr10 x @ [NL]"
proof -
  have "rv (fst (K k c)) \<noteq> 0" "rv (fst (K k c)) \<noteq> -1" for k c using assms(1) [of k c] by auto
  then show ?thesis
    by (simp add: t_sigaltstack_main_def sigsegvHandler_def overflowStack_run [OF assms(2-4)])
qed

text \<open>
  direct\_read.c is undefined for every command line with a file and a length but without both of
  the optional arguments.
\<close>

theorem direct_read_undefined:
  "file \<noteq> ''--help'' \<Longrightarrow> direct_read_main [self, file, len] = Halt Undefined \<and>
   direct_read_main [self, file, len, offset] = Halt Undefined \<and>
   direct_read_main [self, file, len, offset, alignment] = exit 0"
  by (simp add: direct_read_main_def with_arg_def)

text \<open>
  thread\_cancel.c reports the cancellation exactly when the joined thread's result says so, and
  joins the thread that it created and cancelled; the thread itself never ends on its own.
\<close>

theorem thread_cancel_reports:
  "outcome script thread_cancel_main [(ok 0)\<lparr>ints := [t]\<rparr>, ok 0, ok 0, (ok 0)\<lparr>ints := [res]\<rparr>] = Exited 0 \<and>
   calls (trace script thread_cancel_main [(ok 0)\<lparr>ints := [t]\<rparr>, ok 0, ok 0, (ok 0)\<lparr>ints := [res]\<rparr>]) =
     [Ev (Pthread_create ''threadFunc'' 0), Proc (Sleep 3), Ev (Pthread_cancel t), Ev (Pthread_join t)] \<and>
   emitted Stdout (trace script thread_cancel_main [(ok 0)\<lparr>ints := [t]\<rparr>, ok 0, ok 0, (ok 0)\<lparr>ints := [res]\<rparr>]) =
     (if res = -1 then ''Thread was cancelled\<newline>'' else ''Thread was not cancelled(shouldnot have happened)\<newline>'') \<and>
   outcome K (thread_func n) k = Unfinished"
proof -
  have "outcome K (thread_loop n j) k = Unfinished" for j k
    by (induction n arbitrary: j k) simp_all
  then show ?thesis by (simp add: thread_cancel_main_def thread_func_def Let_def)
qed

end
