(* ===== verification/Seqnum_Fifo.thy ===== *)
theory Seqnum_Fifo
  imports Syscalls Seq_Alloc
begin

text \<open>
  The FIFO sequence-number service: src/pipes_and_fifo/fifo_seqnum.h, fifo_seqnum_server.c and
  fifo_seqnum_client.c. Requests and responses are C structs sent through FIFOs as the bytes of
  their \<open>int\<close> members; the server's counter is an \<open>int\<close>, whose overflow is undefined behaviour.
  \<open>fifo_server_loop n\<close> is the first \<open>n\<close> iterations of the server's endless loop.
\<close>

section \<open>The code\<close>

definition SERVER_FIFO :: string where "SERVER_FIFO = ''/tmp/seqnum_server''"

text \<open>\<open>snprintf\<close> with CLIENT_FIFO_TEMPLATE, whose size is 19 with its NUL.\<close>

definition client_fifo :: "int \<Rightarrow> string" where
  "client_fifo pid = ''/tmp/seqnum_cl.'' @ show_int pid"

definition CLIENT_FIFO_NAME_LEN :: nat where
  "CLIENT_FIFO_NAME_LEN = length ''/tmp/seqnum_cl.%ld'' + 1 + 20"

record request =
  pid :: int
  seqLen :: int

definition request_bytes :: "request \<Rightarrow> string" where
  "request_bytes req = int_bytes (pid req) @ int_bytes (seqLen req)"

definition request_of_bytes :: "string \<Rightarrow> request" where
  "request_of_bytes b = \<lparr>pid = int_of_bytes (take 4 b), seqLen = int_of_bytes (drop 4 b)\<rparr>"

abbreviation (input) O_RDONLY :: flags where "O_RDONLY \<equiv> 0"
abbreviation (input) O_WRONLY :: flags where "O_WRONLY \<equiv> 1"
abbreviation (input) fifo_perms :: flags where "fifo_perms \<equiv> 0x190"
  \<comment> \<open>\<open>S_IRUSR | S_IWUSR | S_IWGRP\<close>, octal 620\<close>

fun fifo_server_loop :: "nat \<Rightarrow> int \<Rightarrow> int \<Rightarrow> prog" where
  "fifo_server_loop 0 serverFd seqNum = Halt Unfinished"
| "fifo_server_loop (Suc n) serverFd seqNum =
     Call (Io (Read serverFd 8)) (\<lambda>r.
       if rv r \<noteq> 8 then
         eprintf ''Error reading request: discarding\<newline>'' (fifo_server_loop n serverFd seqNum)
       else
         let req = request_of_bytes (bytes r);
             clientFifo = snprintf CLIENT_FIFO_NAME_LEN (client_fifo (pid req)) in
         Call (Io (Open clientFifo O_WRONLY 0)) (\<lambda>q.
           if rv q = -1 then eprintf (''open '' @ clientFifo) (fifo_server_loop n serverFd seqNum)
           else let clientFd = rv q in
             Call (Io (Write clientFd (int_bytes seqNum))) (\<lambda>w.
               (if rv w \<noteq> 4 then Put Stderr (''Error writing to the FIFO '' @ clientFifo @ [NL])
                else (\<lambda>p. p))
               (Call (Io (Close clientFd)) (\<lambda>c.
                 (if rv c = -1 then Put Perror ''close'' else (\<lambda>p. p))
                 (let seqNum' = seqNum + seqLen req in
                  if INT_MIN \<le> seqNum' \<and> seqNum' \<le> INT_MAX
                  then fifo_server_loop n serverFd seqNum'
                  else Halt Undefined))))))"

definition fifo_server_main :: "nat \<Rightarrow> prog" where
  "fifo_server_main n =
     Call (Path (Umask 0)) (\<lambda>_.
     Call (Path (Mkfifo SERVER_FIFO fifo_perms)) (\<lambda>m.
     if rv m = -1 \<and> err m \<noteq> EEXIST then perror ''mkfifo'' (exit EXIT_FAILURE)
     else Call (Io (Open SERVER_FIFO O_RDONLY 0)) (\<lambda>s.
     if rv s = -1 then perror ''server open'' (exit 1)
     else Call (Io (Open SERVER_FIFO O_WRONLY 0)) (\<lambda>d.
     if rv d = -1 then perror ''server open'' (exit 1)
     else Call (Sig (Signal 13 ''SIG_IGN'')) (\<lambda>g.
     if rv g = -1 then perror ''signal'' (exit 1)
     else fifo_server_loop n (rv s) 0)))))"

text \<open>\<open>removeFifo\<close>, which exit runs once it has been registered with atexit.\<close>

definition removeFifo :: "string \<Rightarrow> prog \<Rightarrow> prog" where
  "removeFifo clientFifo p = Call (Path (Unlink clientFifo)) (\<lambda>_. p)"

definition fifo_client_main :: "string list \<Rightarrow> prog" where
  "fifo_client_main argv =
     (if length argv > 1 \<and> argv ! 1 = ''-help'' then
        eprintf (argv ! 0 @ '' [seq-len]\<newline>'') (exit EXIT_FAILURE)
      else
        Call (Path (Umask 0)) (\<lambda>_.
        Call (Proc Getpid) (\<lambda>p.
        let clientFifo = snprintf CLIENT_FIFO_NAME_LEN (client_fifo (rv p)) in
        Call (Path (Mkfifo clientFifo fifo_perms)) (\<lambda>m.
        if rv m = -1 \<and> err m \<noteq> EEXIST then eprintf (''mkfifo '' @ clientFifo) (exit 1)
        else Call (Proc (Atexit ''removeFifo'')) (\<lambda>a.
        if rv a \<noteq> 0 then perror ''atexit'' (exit 1)
        else Call (Proc Getpid) (\<lambda>p.
        let req = \<lparr>pid = rv p, seqLen = (if length argv > 1 then atoi (argv ! 1) else 1)\<rparr> in
        Call (Io (Open SERVER_FIFO O_WRONLY 0)) (\<lambda>s.
        if rv s = -1 then eprintf (''open '' @ SERVER_FIFO) (removeFifo clientFifo (exit 1))
        else Call (Io (Write (rv s) (request_bytes req))) (\<lambda>w.
        if rv w \<noteq> 8 then perror ''cant write to the server'' (removeFifo clientFifo (exit 1))
        else Call (Io (Open clientFifo O_RDONLY 0)) (\<lambda>c.
        if rv c = -1 then eprintf (''open '' @ clientFifo) (removeFifo clientFifo (exit 1))
        else Call (Io (Read (rv c) 4)) (\<lambda>r.
        if rv r \<noteq> 4 then eprintf ''cant read response from server'' (removeFifo clientFifo (exit 1))
        else printf (show_int (int_of_bytes (bytes r)) @ [NL])
               (removeFifo clientFifo (exit 0))))))))))))"

section \<open>Messages and names\<close>

lemma length_request_bytes [simp]: "length (request_bytes req) = 8"
  by (simp add: request_bytes_def)

text \<open>
  What a client writes into the server's FIFO is read by the server as the same request:
  for every pid and length that are \<open>int\<close> values, decoding the struct's bytes gives it back.
\<close>

theorem request_round_trip:
  assumes "INT_MIN \<le> pid req" and "pid req \<le> INT_MAX" and "INT_MIN \<le> seqLen req" and "seqLen req \<le> INT_MAX"
  shows "request_of_bytes (request_bytes req) = req"
  using assms by (simp add: request_of_bytes_def request_bytes_def int_of_bytes_int_bytes)

lemma request_round_trip_witness:
  "request_of_bytes (request_bytes \<lparr>pid = 4711, seqLen = -3\<rparr>) = \<lparr>pid = 4711, seqLen = -3\<rparr>"
  using request_round_trip [of "\<lparr>pid = 4711, seqLen = -3\<rparr>"] by (simp add: int_limits)

lemma request_bytes_decode:
  "INT_MIN \<le> p \<Longrightarrow> p \<le> INT_MAX \<Longrightarrow> INT_MIN \<le> n \<Longrightarrow> n \<le> INT_MAX \<Longrightarrow>
   request_of_bytes (request_bytes \<lparr>pid = p, seqLen = n\<rparr>) = \<lparr>pid = p, seqLen = n\<rparr>"
  by (simp add: request_of_bytes_def request_bytes_def int_of_bytes_int_bytes)

lemma client_fifo_fits: "INT_MIN \<le> p \<Longrightarrow> p \<le> INT_MAX \<Longrightarrow> snprintf CLIENT_FIFO_NAME_LEN (client_fifo p) = client_fifo p"
  using length_show_int [of p] by (simp add: client_fifo_def CLIENT_FIFO_NAME_LEN_def)

text \<open>
  The names built from the template always fit the CLIENT_FIFO_NAME_LEN array, so server and
  client build the same name for a pid and different pids have different FIFOs: a response
  cannot reach another client.
\<close>

theorem client_fifo_names:
  assumes "INT_MIN \<le> p" and "p \<le> INT_MAX" and "INT_MIN \<le> q" and "q \<le> INT_MAX"
  shows "snprintf CLIENT_FIFO_NAME_LEN (client_fifo p) = client_fifo p \<and>
    (snprintf CLIENT_FIFO_NAME_LEN (client_fifo p) = snprintf CLIENT_FIFO_NAME_LEN (client_fifo q) \<longleftrightarrow> p = q)"
proof -
  have "length (client_fifo i) < CLIENT_FIFO_NAME_LEN" if "INT_MIN \<le> i" "i \<le> INT_MAX" for i
    using length_show_int [OF that] by (simp add: client_fifo_def CLIENT_FIFO_NAME_LEN_def)
  with assms show ?thesis by (simp add: client_fifo_def)
qed

lemma client_fifo_names_witness:
  "snprintf CLIENT_FIFO_NAME_LEN (client_fifo 77) = client_fifo 77 \<and>
   snprintf CLIENT_FIFO_NAME_LEN (client_fifo 77) \<noteq> snprintf CLIENT_FIFO_NAME_LEN (client_fifo 78)"
  using client_fifo_names [of 77 78] by (auto simp: int_limits)

text \<open>
  Once the FIFO client has registered its handler, every way it can exit, whatever the
  kernel answers, removes the FIFO it has made, as its last call.
\<close>

theorem fifo_client_cleans_up:
  assumes "Did (Proc (Atexit ''removeFifo'')) r \<in> set (trace K (fifo_client_main argv) k)" and "rv r = 0"
  shows "\<exists>f. Path (Mkfifo f fifo_perms) \<in> set (calls (trace K (fifo_client_main argv) k)) \<and>
    last (calls (trace K (fifo_client_main argv) k)) = Path (Unlink f)"
  using assms by (auto simp: fifo_client_main_def removeFifo_def Let_def split: if_splits)

lemma fifo_client_cleans_up_witness:
  "last (calls (trace script (fifo_client_main [''client'', ''3'']) [ok 0, ok 9, ok 0, ok 0, ok 9, fail ENOENT])) =
   Path (Unlink (snprintf CLIENT_FIFO_NAME_LEN (client_fifo 9)))"
proof -
  let ?tr = "trace script (fifo_client_main [''client'', ''3'']) [ok 0, ok 9, ok 0, ok 0, ok 9, fail ENOENT]"
  have "Did (Proc (Atexit ''removeFifo'')) (ok 0) \<in> set ?tr"
    by (simp add: fifo_client_main_def removeFifo_def Let_def)
  from fifo_client_cleans_up [OF this] obtain f where
    "Path (Mkfifo f fifo_perms) \<in> set (calls ?tr)" "last (calls ?tr) = Path (Unlink f)" by auto
  then show ?thesis by (simp add: fifo_client_main_def removeFifo_def Let_def)
qed

section \<open>The server against a kernel with FIFOs\<close>

text \<open>
  As the manual pages describe FIFOs: the server's FIFO delivers one written message per read of
  its size (writes of at most PIPE_BUF bytes are atomic); opening a client's FIFO for writing
  fails when it does not exist or nobody reads it (\<open>fifos\<close> lists those that can be opened); what
  is written into it is recorded with its name.
\<close>

record fifo_net =
  inbox :: "string list"
  fifos :: "string set"
  current :: string
  delivered :: "(string \<times> string) list"

definition fifo_io :: "fifo_net \<Rightarrow> io_call \<Rightarrow> ret \<times> fifo_net" where
  "fifo_io s c = (case c of
      Read fd n \<Rightarrow> (case inbox s of [] \<Rightarrow> (ok 0, s) | m # ms \<Rightarrow> (got (take (nat n) m), s\<lparr>inbox := ms\<rparr>))
    | Open p fl m \<Rightarrow> if p \<in> fifos s then (ok 5, s\<lparr>current := p\<rparr>) else (fail ENOENT, s)
    | Write fd b \<Rightarrow> (ok (int (length b)), s\<lparr>delivered := delivered s @ [(current s, b)]\<rparr>)
    | _ \<Rightarrow> (ok 0, s))"

definition fifo_K :: "fifo_net kernel" where
  "fifo_K s c = (case c of Io i \<Rightarrow> fifo_io s i | _ \<Rightarrow> (ok 0, s))"

text \<open>What the server makes of a message: the range it grants, and the new counter.\<close>

definition fifo_serve :: "string set \<Rightarrow> int \<Rightarrow> string \<Rightarrow> (int \<times> int) option \<times> int" where
  "fifo_serve av seqNum m =
     (if length m < 8 \<or> snprintf CLIENT_FIFO_NAME_LEN (client_fifo (pid (request_of_bytes (take 8 m)))) \<notin> av
      then (None, seqNum)
      else (Some (seqNum, seqLen (request_of_bytes (take 8 m))), seqNum + seqLen (request_of_bytes (take 8 m))))"

fun fifo_deliveries :: "string set \<Rightarrow> int \<Rightarrow> string list \<Rightarrow> (string \<times> string) list" where
  "fifo_deliveries av seqNum [] = []"
| "fifo_deliveries av seqNum (m # ms) =
     (case fifo_serve av seqNum m of (g, seqNum') \<Rightarrow>
        (case g of None \<Rightarrow> []
         | Some _ \<Rightarrow> [(snprintf CLIENT_FIFO_NAME_LEN (client_fifo (pid (request_of_bytes (take 8 m)))), int_bytes seqNum)])
        @ fifo_deliveries av seqNum' ms)"

definition fifo_fair :: "int \<Rightarrow> string \<Rightarrow> bool" where
  "fifo_fair seqNum m = (INT_MIN \<le> seqNum \<and> 0 \<le> seqLen (request_of_bytes (take 8 m)) \<and>
     seqNum + seqLen (request_of_bytes (take 8 m)) \<le> INT_MAX)"

interpretation fifo: seq_allocator "\<lambda>i. i" "fifo_serve av" fifo_fair for av
  by unfold_locales (auto simp: fifo_serve_def fifo_fair_def split: if_splits)

lemma fifo_K_simps [simp]:
  "fifo_K s (Io (Read fd n)) =
     (case inbox s of [] \<Rightarrow> (ok 0, s) | m # ms \<Rightarrow> (got (take (nat n) m), s\<lparr>inbox := ms\<rparr>))"
  "fifo_K s (Io (Open p fl m)) = (if p \<in> fifos s then (ok 5, s\<lparr>current := p\<rparr>) else (fail ENOENT, s))"
  "fifo_K s (Io (Write fd b)) = (ok (int (length b)), s\<lparr>delivered := delivered s @ [(current s, b)]\<rparr>)"
  "fifo_K s (Io (Close fd)) = (ok 0, s)"
  by (simp_all add: fifo_K_def fifo_io_def)

lemma fifo_server_loop_serves:
  assumes "inbox k = ms" and "all_fair (fifo_serve (fifos k)) fifo_fair seqNum ms"
  shows "\<exists>k'. delivered k' = delivered k @ fifo_deliveries (fifos k) seqNum ms \<and>
    reaches fifo_K (fifo_server_loop (length ms) fd seqNum) k (Halt Unfinished) k'"
  using assms
proof (induction ms arbitrary: k seqNum)
  case Nil
  then show ?case by auto
next
  case (Cons m ms)
  let ?req = "request_of_bytes (take 8 m)"
  let ?f = "snprintf CLIENT_FIFO_NAME_LEN (client_fifo (pid ?req))"
  have fair: "fifo_fair seqNum m" using Cons.prems(2) by simp
  show ?case
  proof (cases "length m < 8 \<or> ?f \<notin> fifos k")
    case True
    then have s: "fifo_serve (fifos k) seqNum m = (None, seqNum)" by (simp add: fifo_serve_def)
    with Cons.IH [of "k\<lparr>inbox := ms\<rparr>" seqNum] Cons.prems obtain k' where
      "delivered k' = delivered k @ fifo_deliveries (fifos k) seqNum ms"
      "reaches fifo_K (fifo_server_loop (length ms) fd seqNum) (k\<lparr>inbox := ms\<rparr>) (Halt Unfinished) k'" by auto
    with True s Cons.prems(1) show ?thesis
      by (intro exI [of _ k']) (auto simp: Let_def intro!: reaches_intros)
  next
    case False
    then have s: "fifo_serve (fifos k) seqNum m = (Some (seqNum, seqLen ?req), seqNum + seqLen ?req)"
      by (simp add: fifo_serve_def)
    let ?k = "k\<lparr>inbox := ms, current := ?f, delivered := delivered k @ [(?f, int_bytes seqNum)]\<rparr>"
    from s Cons.IH [of ?k "seqNum + seqLen ?req"] Cons.prems obtain k' where
      "delivered k' = delivered ?k @ fifo_deliveries (fifos k) (seqNum + seqLen ?req) ms"
      "reaches fifo_K (fifo_server_loop (length ms) fd (seqNum + seqLen ?req)) ?k (Halt Unfinished) k'" by auto
    with False s Cons.prems(1) fair show ?thesis
      by (intro exI [of _ k']) (auto simp: Let_def fifo_fair_def intro!: reaches_intros)
  qed
qed

text \<open>
  (C12) The FIFO server, given messages whose lengths are not negative and do not overflow its
  counter, delivers to each client that can be reached the start of its range, in the order of
  the requests, and the ranges are disjoint and without gaps; short messages and unreachable
  clients are skipped and cost nothing; there is no undefined behaviour and the server is still
  running afterwards.
\<close>

theorem fifo_server_serves:
  assumes "all_fair (fifo_serve (fifos k)) fifo_fair 0 (inbox k)" and "delivered k = []"
    and "serve_all (fifo_serve (fifos k)) 0 (inbox k) = (gs, t)"
  shows "delivered (final fifo_K (fifo_server_loop (length (inbox k)) fd 0) k) =
           fifo_deliveries (fifos k) 0 (inbox k) \<and>
         outcome fifo_K (fifo_server_loop (length (inbox k)) fd 0) k = Unfinished \<and>
         (\<forall>i j. i < j \<and> j < length gs \<longrightarrow> range_set (gs ! i) \<inter> range_set (gs ! j) = {}) \<and>
         (\<Union>g \<in> set gs. range_set g) = {0 ..< t}"
proof -
  obtain k' where "delivered k' = fifo_deliveries (fifos k) 0 (inbox k)"
    "reaches fifo_K (fifo_server_loop (length (inbox k)) fd 0) k (Halt Unfinished) k'"
    using fifo_server_loop_serves [OF refl assms(1), of fd] assms(2) by auto
  then show ?thesis
    using fifo.grants_disjoint [OF assms(1,3)] fifo.grants_cover [OF assms(1,3)]
    by (auto simp: reaches_final reaches_outcome)
qed

lemma fifo_server_serves_witness:
  "delivered (final fifo_K (fifo_server_loop 2 3 0)
     \<lparr>inbox = [request_bytes \<lparr>pid = 1, seqLen = 4\<rparr>, request_bytes \<lparr>pid = 2, seqLen = 3\<rparr>],
      fifos = {client_fifo 1, client_fifo 2}, current = [], delivered = []\<rparr>) =
   [(client_fifo 1, int_bytes 0), (client_fifo 2, int_bytes 4)]"
proof -
  let ?k = "\<lparr>inbox = [request_bytes \<lparr>pid = 1, seqLen = 4\<rparr>, request_bytes \<lparr>pid = 2, seqLen = 3\<rparr>],
      fifos = {client_fifo 1, client_fifo 2}, current = [], delivered = []\<rparr> :: fifo_net"
  have n: "snprintf CLIENT_FIFO_NAME_LEN (client_fifo 1) = client_fifo 1"
      "snprintf CLIENT_FIFO_NAME_LEN (client_fifo 2) = client_fifo 2"
    by (simp_all add: client_fifo_def show_int_def show_nat_rec CLIENT_FIFO_NAME_LEN_def)
  have r: "request_of_bytes (request_bytes \<lparr>pid = p, seqLen = l\<rparr>) = \<lparr>pid = p, seqLen = l\<rparr>"
    if "0 \<le> p" "p < 10" "0 \<le> l" "l < 10" for p l
    using that by (simp add: request_of_bytes_def request_bytes_def int_of_bytes_int_bytes int_limits)
  have fair: "all_fair (fifo_serve (fifos ?k)) fifo_fair 0 (inbox ?k)"
    by (simp add: fifo_serve_def fifo_fair_def r n int_limits)
  obtain gs t where gs: "serve_all (fifo_serve (fifos ?k)) 0 (inbox ?k) = (gs, t)" by force
  have "fifo_deliveries (fifos ?k) 0 (inbox ?k) = [(client_fifo 1, int_bytes 0), (client_fifo 2, int_bytes 4)]"
    by (simp add: fifo_serve_def r n)
  moreover have "length (inbox ?k) = 2" by simp
  ultimately show ?thesis
    using conjunct1 [OF fifo_server_serves [OF fair _ gs, of 3]] by (simp only:) simp
qed

text \<open>
  (C40) The FIFO server does not reject a negative length: after a request for n numbers, a request
  for minus n rewinds the counter, and the next client that asks for n numbers is given the very
  ones that the first client has. (The TCP server refuses such requests.)
\<close>

theorem fifo_negative_request_overlaps:
  assumes "inbox k = [m1, m2, m3]" and "delivered k = []" and "\<forall>m \<in> {m1, m2, m3}. length m = 8"
    and "\<forall>m \<in> {m1, m2, m3}. snprintf CLIENT_FIFO_NAME_LEN (client_fifo (pid (request_of_bytes m))) \<in> fifos k"
    and "seqLen (request_of_bytes m1) = n" "seqLen (request_of_bytes m2) = - n" "seqLen (request_of_bytes m3) = n"
    and "INT_MIN \<le> s" "0 \<le> n" "s + n \<le> INT_MAX"
  shows "map snd (delivered (final fifo_K (fifo_server_loop 3 fd s) k)) = [int_bytes s, int_bytes (s + n), int_bytes s] \<and>
    map fst (delivered (final fifo_K (fifo_server_loop 3 fd s) k)) =
      map (\<lambda>m. snprintf CLIENT_FIFO_NAME_LEN (client_fifo (pid (request_of_bytes m)))) [m1, m2, m3]"
  using assms by (simp add: eval_nat_numeral Let_def)

lemma fifo_negative_request_overlaps_witness:
  "map snd (delivered (final fifo_K (fifo_server_loop 3 9 7)
     \<lparr>inbox = [request_bytes \<lparr>pid = 1, seqLen = 5\<rparr>, request_bytes \<lparr>pid = 2, seqLen = -5\<rparr>, request_bytes \<lparr>pid = 3, seqLen = 5\<rparr>],
      fifos = UNIV, current = [], delivered = []\<rparr>)) = [int_bytes 7, int_bytes 12, int_bytes 7]"
proof -
  let ?m = "\<lambda>p n. request_bytes \<lparr>pid = p, seqLen = n\<rparr>"
  have l: "length (?m p n) = 8" for p n by (simp add: request_bytes_def)
  have r: "seqLen (request_of_bytes (?m 1 5)) = 5" "seqLen (request_of_bytes (?m 2 (-5))) = -5" "seqLen (request_of_bytes (?m 3 5)) = 5"
    by (simp_all add: request_of_bytes_def request_bytes_def int_of_bytes_int_bytes int_limits)
  have "map snd (delivered (final fifo_K (fifo_server_loop 3 9 7)
     \<lparr>inbox = [?m 1 5, ?m 2 (-5), ?m 3 5], fifos = UNIV, current = [], delivered = []\<rparr>)) =
     [int_bytes 7, int_bytes (7 + 5), int_bytes 7]"
    by (rule conjunct1 [OF fifo_negative_request_overlaps [OF _ _ _ _ r]]) (simp_all add: l int_limits)
  then show ?thesis by simp
qed

end
