(* ===== verification/Schedules.thy ===== *)
theory Schedules
  imports Syscalls
begin

text \<open>
  Programs that run at the same time and share state of the system, driven by a schedule. A
  schedule is a list of moves; a move names the process that goes next and what the system answers
  it, or that the process is killed. Which answers are possible, and what they do to the shared
  state and to the table of handles of the process, is given by a function \<open>ans\<close>. Because a
  statement quantifies over the schedule, it covers every interleaving, every failure of a call and
  every kill that \<open>ans\<close> allows; because a schedule is data, a run can be evaluated.

  \<open>Fifo_System\<close>, \<open>Sem_System\<close> and \<open>Mq_System\<close> instantiate this for FIFOs, semaphores and message queues.
\<close>

section \<open>Schedules\<close>

datatype move = Answer ret | Killed

record 'h task =
  tcode :: prog
  handles :: 'h

record ('h, 's) sched =
  tasks :: "'h task list"
  shared :: 's
  prints :: "(nat \<times> port \<times> string) list"

type_synonym ('h, 's) answers = "int \<Rightarrow> 'h \<Rightarrow> 's \<Rightarrow> syscall \<Rightarrow> ret \<Rightarrow> ('h \<times> 's) option"

text \<open>A move of one process with pid \<open>self\<close>. One that has ended gives back its handles.\<close>

fun sched_act :: "('h, 's) answers \<Rightarrow> 'h \<Rightarrow> int \<Rightarrow> move \<Rightarrow> prog \<Rightarrow> 'h \<Rightarrow> 's \<Rightarrow> (prog \<times> 'h \<times> 's \<times> (port \<times> string) list) option" where
  "sched_act ans none self mv (Halt out) m s = Some (Halt out, none, s, [])"
| "sched_act ans none self Killed (Put q x p) m s = Some (Halt Aborted, m, s, [])"
| "sched_act ans none self Killed (Call c f) m s = Some (Halt Aborted, m, s, [])"
| "sched_act ans none self (Answer r) (Put q x p) m s = Some (p, m, s, [(q, x)])"
| "sched_act ans none self (Answer r) (Call c f) m s =
     (case ans self m s c r of None \<Rightarrow> None | Some (m', s') \<Rightarrow> Some (f r, m', s', []))"

text \<open>\<open>settle\<close> is what the system does after each move, given the handles that are still in use.\<close>

definition sched_step :: "('h, 's) answers \<Rightarrow> 'h \<Rightarrow> ('h list \<Rightarrow> 's \<Rightarrow> 's) \<Rightarrow> int list \<Rightarrow> nat \<times> move \<Rightarrow> ('h, 's) sched \<Rightarrow> ('h, 's) sched option" where
  "sched_step ans none settle pids = (\<lambda>(i, mv) S.
     if i < length (tasks S) then
       (case sched_act ans none (pids ! i) mv (tcode (tasks S ! i)) (handles (tasks S ! i)) (shared S) of
          None \<Rightarrow> None
        | Some (p, m, s, t) \<Rightarrow>
            let ps = (tasks S)[i := \<lparr>tcode = p, handles = m\<rparr>] in
            Some \<lparr>tasks = ps, shared = settle (map handles ps) s, prints = prints S @ map (Pair i) t\<rparr>)
     else None)"

fun sched_run :: "('h, 's) answers \<Rightarrow> 'h \<Rightarrow> ('h list \<Rightarrow> 's \<Rightarrow> 's) \<Rightarrow> int list \<Rightarrow> (nat \<times> move) list \<Rightarrow> ('h, 's) sched \<Rightarrow> ('h, 's) sched option" where
  "sched_run ans none settle pids [] S = Some S"
| "sched_run ans none settle pids (mv # mvs) S =
     (case sched_step ans none settle pids mv S of None \<Rightarrow> None | Some S' \<Rightarrow> sched_run ans none settle pids mvs S')"

definition sched_boot :: "'h \<Rightarrow> 's \<Rightarrow> prog list \<Rightarrow> ('h, 's) sched" where
  "sched_boot none s progs = \<lparr>tasks = map (\<lambda>p. \<lparr>tcode = p, handles = none\<rparr>) progs, shared = s, prints = []\<rparr>"

lemma sched_act_killed:
  "sched_act ans none self Killed p m s = Some (p', m', s', t) \<Longrightarrow> \<forall>out. p \<noteq> Halt out \<Longrightarrow> p' = Halt Aborted \<and> m' = m \<and> s' = s \<and> t = []"
  by (cases p) auto

section \<open>Invariants\<close>

text \<open>
  What every move of one process keeps, whatever the system answers, holds after every schedule.
\<close>

locale schedule_invariant =
  fixes ans :: "('h, 's) answers" and none :: 'h and settle :: "'h list \<Rightarrow> 's \<Rightarrow> 's" and pids :: "int list"
    and I :: "('h, 's) sched \<Rightarrow> bool"
  assumes I_act: "I S \<Longrightarrow> i < length (tasks S) \<Longrightarrow>
      sched_act ans none (pids ! i) mv (tcode (tasks S ! i)) (handles (tasks S ! i)) (shared S) = Some (p, m, s, t) \<Longrightarrow>
      I \<lparr>tasks = (tasks S)[i := \<lparr>tcode = p, handles = m\<rparr>],
         shared = settle (map handles ((tasks S)[i := \<lparr>tcode = p, handles = m\<rparr>])) s, prints = prints S @ map (Pair i) t\<rparr>"
begin

lemma step: "sched_step ans none settle pids mv S = Some S' \<Longrightarrow> I S \<Longrightarrow> I S'"
  by (auto simp: sched_step_def Let_def split: if_splits option.splits prod.splits intro: I_act)

lemma run: "sched_run ans none settle pids mvs S = Some S' \<Longrightarrow> I S \<Longrightarrow> I S'"
  by (induction mvs arbitrary: S) (auto split: option.splits dest: step)

end

end
