(* ===== verification/Fifo_System.thy ===== *)
theory Fifo_System
  imports Seqnum_Fifo Interleaving Schedules
begin

text \<open>
  The FIFO sequence-number server and any number of its clients as processes that run at the same
  time (src/pipes\_and\_fifo/fifo\_seqnum\_server.c and fifo\_seqnum\_client.c, complete from main on),
  driven by a schedule in the sense of \<open>Schedules\<close>. They share the FIFOs that exist and what is in
  them. The answers are restricted only as far as the programs rely on them: getpid gives the
  process's pid, mkfifo succeeds for a name that does not exist and reports EEXIST only for one that
  does, an open succeeds only for a FIFO that exists, a successful read takes from the front of the
  FIFO as many bytes as there are, up to the number asked for, a successful write of at most
  PIPE\_BUF bytes appends all of them in one piece, and a FIFO that no process has open is empty.
  Every call may fail at any time. An open may also return before there is a process at the other
  end, which only adds behaviours.

  An invariant over the stages of server and clients and a ledger of requests and grants gives that
  no two clients print the same number, and that the server finds the FIFO of every client that has
  not ended.
\<close>

section \<open>The system\<close>

type_synonym fd_tab = "(int \<times> string \<times> pipe_end) list"

text \<open>What is in each FIFO, and which FIFOs exist.\<close>

type_synonym fifo_files = "(string \<Rightarrow> string) \<times> string set"

abbreviation store :: "('h, fifo_files) sched \<Rightarrow> string \<Rightarrow> string" where "store S \<equiv> fst (shared S)"
abbreviation files :: "('h, fifo_files) sched \<Rightarrow> string set" where "files S \<equiv> snd (shared S)"

definition PIPE_BUF :: nat where "PIPE_BUF = 4096"

fun fifo_answer :: "(fd_tab, fifo_files) answers" where
  "fifo_answer self m (st, fs) (Proc Getpid) r = (if rv r = self then Some (m, st, fs) else None)"
| "fifo_answer self m (st, fs) (Path (Mkfifo f md)) r =
     (if rv r = 0 \<and> f \<notin> fs then Some (m, st, insert f fs)
      else if rv r = -1 \<and> (err r = EEXIST \<longrightarrow> f \<in> fs) then Some (m, st, fs)
      else None)"
| "fifo_answer self m (st, fs) (Path (Unlink f)) r =
     (if rv r = 0 then Some (m, st, fs - {f}) else if rv r = -1 then Some (m, st, fs) else None)"
| "fifo_answer self m (st, fs) (Io (Open f fl md)) r =
     (if rv r = -1 then Some (m, st, fs)
      else if f \<in> fs \<and> 2 < rv r \<and> rv r \<notin> fst ` set m then Some ((rv r, f, if fl = O_RDONLY then Rd else Wr) # m, st, fs)
      else None)"
| "fifo_answer self m (st, fs) (Io (Close fd)) r =
     (if map_of m fd = None \<or> rv r = 0 \<or> rv r = -1 then Some (filter (\<lambda>e. fst e \<noteq> fd) m, st, fs) else None)"
| "fifo_answer self m (st, fs) (Io (Read fd n)) r =
     (case map_of m fd of
        Some (f, Rd) \<Rightarrow>
          if rv r = -1 \<or> rv r = 0 then Some (m, st, fs)
          else if bytes r = take (nat n) (st f) \<and> rv r = int (length (bytes r)) then Some (m, st(f := drop (nat n) (st f)), fs)
          else None
      | Some (f, Wr) \<Rightarrow> if rv r = -1 then Some (m, st, fs) else None
      | None \<Rightarrow> Some (m, st, fs))"
| "fifo_answer self m (st, fs) (Io (Write fd d)) r =
     (case map_of m fd of
        Some (f, Wr) \<Rightarrow>
          if rv r = -1 then Some (m, st, fs)
          else if 0 \<le> rv r \<and> rv r \<le> int (length d) \<and> (length d \<le> PIPE_BUF \<longrightarrow> rv r = int (length d))
          then Some (m, st(f := st f @ take (nat (rv r)) d), fs)
          else None
      | Some (f, Rd) \<Rightarrow> if rv r = -1 then Some (m, st, fs) else None
      | None \<Rightarrow> Some (m, st, fs))"
| "fifo_answer self m (st, fs) c r = Some (m, st, fs)"

abbreviation fifo_act :: "int \<Rightarrow> move \<Rightarrow> prog \<Rightarrow> fd_tab \<Rightarrow> fifo_files \<Rightarrow> (prog \<times> fd_tab \<times> fifo_files \<times> (port \<times> string) list) option" where
  "fifo_act \<equiv> sched_act fifo_answer []"

text \<open>A FIFO that no process has open is empty.\<close>

definition held_open :: "fd_tab list \<Rightarrow> string \<Rightarrow> bool" where
  "held_open ms f = (\<exists>m\<in>set ms. \<exists>e\<in>set m. fst (snd e) = f)"

definition fifo_settle :: "fd_tab list \<Rightarrow> fifo_files \<Rightarrow> fifo_files" where
  "fifo_settle ms = (\<lambda>(st, fs). (\<lambda>f. if held_open ms f then st f else [], fs))"

definition fifo_run :: "int list \<Rightarrow> (nat \<times> move) list \<Rightarrow> (fd_tab, fifo_files) sched \<Rightarrow> (fd_tab, fifo_files) sched option" where
  "fifo_run = sched_run fifo_answer [] fifo_settle"

text \<open>The start: the server is process 0, the clients with their arguments are processes 1, 2 and so on.\<close>

definition fifo_boot :: "string set \<Rightarrow> nat \<Rightarrow> string list list \<Rightarrow> (fd_tab, fifo_files) sched" where
  "fifo_boot fs n argvs = sched_boot [] (\<lambda>_. [], fs) (fifo_server_main n # map fifo_client_main argvs)"

text \<open>The length of the sequence a client asks for.\<close>

definition wanted :: "string list \<Rightarrow> int" where
  "wanted argv = (if length argv > 1 then atoi (argv ! 1) else 1)"

section \<open>Code that does not touch the FIFOs\<close>

text \<open>
  \<open>plain F p\<close>: whatever the answers, \<open>p\<close> does no input or output, prints nothing on standard
  output, and creates and removes FIFOs in \<open>F\<close> only. \<open>lead_in F self G p\<close>: \<open>p\<close> is like that until it
  is plain or reaches code in \<open>G\<close>.
\<close>

definition aloof :: "string set \<Rightarrow> syscall \<Rightarrow> bool" where
  "aloof F c = ((\<forall>i. c \<noteq> Io i) \<and> (\<forall>f md. c = Path (Mkfifo f md) \<longrightarrow> f \<in> F) \<and> (\<forall>f. c = Path (Unlink f) \<longrightarrow> f \<in> F))"

lemma aloof_simps [simp]:
  "\<not> aloof F (Io i)" "aloof F (Path (Mkfifo f md)) = (f \<in> F)" "aloof F (Path (Unlink f)) = (f \<in> F)" "aloof F (Path (Umask md))"
  "aloof F (Proc c)" "aloof F (Sig g)"
  by (simp_all add: aloof_def)

definition spares :: "string set \<Rightarrow> string set \<Rightarrow> string set \<Rightarrow> bool" where
  "spares F fs fs' = (fs' - F = fs - F)"

lemma spares_refl [simp]: "spares F fs fs"
  by (simp add: spares_def)

lemma spares_mem: "spares F fs fs' \<Longrightarrow> f \<notin> F \<Longrightarrow> f \<in> fs' \<longleftrightarrow> f \<in> fs"
  by (auto simp: spares_def)

primrec plain :: "string set \<Rightarrow> prog \<Rightarrow> bool" where
  "plain F (Halt out) = (out \<noteq> Undefined)"
| "plain F (Put q s p) = (q \<noteq> Stdout \<and> plain F p)"
| "plain F (Call c f) = (aloof F c \<and> (\<forall>r. plain F (f r)))"

inductive lead_in :: "string set \<Rightarrow> int \<Rightarrow> (prog \<Rightarrow> bool) \<Rightarrow> prog \<Rightarrow> bool" for F self G where
  lead_in_goal: "G p \<Longrightarrow> lead_in F self G p"
| lead_in_plain: "plain F p \<Longrightarrow> lead_in F self G p"
| lead_in_Put: "q \<noteq> Stdout \<Longrightarrow> lead_in F self G p \<Longrightarrow> lead_in F self G (Put q s p)"
| lead_in_Call: "aloof F c \<Longrightarrow> (\<And>r. (c = Proc Getpid \<longrightarrow> rv r = self) \<Longrightarrow> lead_in F self G (f r)) \<Longrightarrow> lead_in F self G (Call c f)"

lemma lead_in_if: "(b \<Longrightarrow> lead_in F self G p) \<Longrightarrow> (\<not> b \<Longrightarrow> lead_in F self G q) \<Longrightarrow> lead_in F self G (if b then p else q)"
  by simp

lemmas lead_in_steps = lead_in_if lead_in_Call

lemma fifo_answer_other:
  "aloof F c \<Longrightarrow> fifo_answer self m (st, fs) c r = Some (m', st', fs') \<Longrightarrow>
   m' = m \<and> st' = st \<and> spares F fs fs' \<and> (c = Proc Getpid \<longrightarrow> rv r = self)"
  by (cases "(self, m, (st, fs), c, r)" rule: fifo_answer.cases) (auto simp: spares_def split: if_splits)

lemma plain_act:
  assumes "plain F p" and "fifo_act self mv p m (st, fs) = Some (p', m', (st', fs'), t)"
  shows "plain F p' \<and> st' = st \<and> spares F fs fs' \<and> (\<forall>s. (Stdout, s) \<notin> set t)"
  using assms by (cases "(fifo_answer, [] :: fd_tab, self, mv, p, m, (st, fs))" rule: sched_act.cases) (auto split: option.splits dest: fifo_answer_other)

lemma lead_in_act:
  assumes "lead_in F self G p" and "fifo_act self mv p m (st, fs) = Some (p', m', (st', fs'), t)" and "\<not> G p"
  shows "st' = st \<and> spares F fs fs' \<and> (\<forall>s. (Stdout, s) \<notin> set t) \<and> (plain F p' \<or> m' = m \<and> lead_in F self G p')"
  using assms
proof (cases rule: lead_in.cases)
  case lead_in_plain
  then show ?thesis using plain_act assms(2) by blast
next
  case (lead_in_Put q p s)
  then show ?thesis using assms(2) by (cases mv) auto
next
  case (lead_in_Call c f)
  then show ?thesis using assms(2) by (cases mv) (auto split: option.splits dest!: fifo_answer_other)
qed (use assms(3) in auto)

section \<open>A client\<close>

definition cl_read :: "string \<Rightarrow> int \<Rightarrow> prog" where
  "cl_read f fd =
     Call (Io (Read fd 4)) (\<lambda>r.
     if rv r \<noteq> 4 then eprintf ''cant read response from server'' (removeFifo f (exit 1))
     else printf (show_int (int_of_bytes (bytes r)) @ [NL]) (removeFifo f (exit 0)))"

definition cl_open :: "string \<Rightarrow> prog" where
  "cl_open f =
     Call (Io (Open f O_RDONLY 0)) (\<lambda>c.
     if rv c = -1 then eprintf (''open '' @ f) (removeFifo f (exit 1)) else cl_read f (rv c))"

definition cl_write :: "string \<Rightarrow> request \<Rightarrow> int \<Rightarrow> prog" where
  "cl_write f req fd =
     Call (Io (Write fd (request_bytes req))) (\<lambda>w.
     if rv w \<noteq> 8 then perror ''cant write to the server'' (removeFifo f (exit 1)) else cl_open f)"

definition cl_connect :: "string \<Rightarrow> request \<Rightarrow> prog" where
  "cl_connect f req =
     Call (Io (Open SERVER_FIFO O_WRONLY 0)) (\<lambda>s.
     if rv s = -1 then eprintf (''open '' @ SERVER_FIFO) (removeFifo f (exit 1)) else cl_write f req (rv s))"

lemmas client_stages = cl_read_def cl_open_def cl_write_def cl_connect_def

lemma plain_removeFifo [simp]: "plain F (removeFifo f p) = (f \<in> F \<and> plain F p)"
  by (simp add: removeFifo_def)

lemma fifo_client_main_eq:
  "fifo_client_main argv =
     (if length argv > 1 \<and> argv ! 1 = ''-help'' then eprintf (argv ! 0 @ '' [seq-len]\<newline>'') (exit EXIT_FAILURE)
      else Call (Path (Umask 0)) (\<lambda>_. Call (Proc Getpid) (\<lambda>p. let f = snprintf CLIENT_FIFO_NAME_LEN (client_fifo (rv p)) in
        Call (Path (Mkfifo f fifo_perms)) (\<lambda>m.
        if rv m = -1 \<and> err m \<noteq> EEXIST then eprintf (''mkfifo '' @ f) (exit 1)
        else Call (Proc (Atexit ''removeFifo'')) (\<lambda>a.
        if rv a \<noteq> 0 then perror ''atexit'' (exit 1)
        else Call (Proc Getpid) (\<lambda>p. cl_connect f \<lparr>pid = rv p, seqLen = wanted argv\<rparr>))))))"
  by (simp add: fifo_client_main_def client_stages wanted_def Let_def cong: if_cong)

lemma client_lead_in:
  assumes "INT_MIN \<le> p" "p \<le> INT_MAX"
  shows "lead_in {client_fifo p} p ((=) (cl_connect (client_fifo p) \<lparr>pid = p, seqLen = wanted argv\<rparr>)) (fifo_client_main argv)"
  unfolding fifo_client_main_eq Let_def
proof (intro lead_in_steps, goal_cases)
  case (9 _ r _ _ r')
  then show ?case by (intro lead_in_goal) (simp add: client_fifo_fits [OF assms])
qed (simp_all add: lead_in_plain client_fifo_fits [OF assms])

text \<open>
  What a client is doing: it has not sent its request, it has sent it and waits, it is about to
  print the number it was given, or it is past that. \<open>used\<close> says that its request is on its way or
  was granted, \<open>g\<close> what it was given.
\<close>

definition client_at :: "int \<Rightarrow> int \<Rightarrow> bool \<Rightarrow> int option \<Rightarrow> prog \<Rightarrow> fd_tab \<Rightarrow> bool" where
  "client_at self len used g p m =
     (let f = client_fifo self; req = \<lparr>pid = self, seqLen = len\<rparr> in
      \<not> used \<and> m = [] \<and> lead_in {client_fifo self} self ((=) (cl_connect f req)) p \<or>
      \<not> used \<and> (\<exists>fd. p = cl_write f req fd \<and> m = [(fd, SERVER_FIFO, Wr)]) \<or>
      (\<exists>fd. p = cl_open f \<and> m = [(fd, SERVER_FIFO, Wr)]) \<or>
      (\<exists>fd fd'. p = cl_read f fd' \<and> m = [(fd', f, Rd), (fd, SERVER_FIFO, Wr)]) \<or>
      (\<exists>a. g = Some a \<and> p = printf (show_int a @ [NL]) (removeFifo f (exit 0))) \<or>
      plain {client_fifo self} p)"

lemma client_at_less: "client_at self len True g p m \<Longrightarrow> client_at self len used g p m"
  by (auto simp: client_at_def Let_def)

lemma client_at_grant: "client_at self len used None p m \<Longrightarrow> client_at self len used g p m"
  by (auto simp: client_at_def Let_def)

lemma client_at_plain: "plain {client_fifo self} p \<Longrightarrow> client_at self len used g p m"
  by (simp add: client_at_def Let_def)

lemma client_act:
  assumes "client_at self len used g p m" and act: "fifo_act self mv p m (st, fs) = Some (p', m', (st', fs'), t)"
    and fifo: "st (client_fifo self) = [] \<or> (\<exists>a. g = Some a \<and> 0 \<le> a \<and> a \<le> INT_MAX \<and> st (client_fifo self) = int_bytes a)"
  shows "spares {client_fifo self} fs fs' \<and>
    (\<forall>s. (Stdout, s) \<in> set t \<longrightarrow> (\<exists>a. g = Some a \<and> s = show_int a @ [NL])) \<and>
    (client_at self len used g p' m' \<and> (st' = st \<or> st' = st(client_fifo self := [])) \<or>
     \<not> used \<and> (\<exists>i f. p = Call (Io i) f) \<and> client_at self len True g p' m' \<and>
       st' = st(SERVER_FIFO := st SERVER_FIFO @ request_bytes \<lparr>pid = self, seqLen = len\<rparr>))"
proof (cases mv)
  case Killed
  then have "plain {client_fifo self} p' \<and> st' = st \<and> fs' = fs \<and> t = [] \<or> (\<exists>out. p = Halt out)" using act by (cases p) auto
  then show ?thesis using plain_act [OF _ act, of "{client_fifo self}"] assms(1) client_at_plain
    by (auto simp: client_at_def Let_def client_stages elim: lead_in.cases)
next
  case (Answer r)
  note [simp] = Answer
  let ?f = "client_fifo self" and ?req = "\<lparr>pid = self, seqLen = len\<rparr>"
  from assms(1) [unfolded client_at_def Let_def] show ?thesis
  proof (elim disjE conjE exE)
    assume P: "\<not> used" "m = []" "lead_in {client_fifo self} self ((=) (cl_connect ?f ?req)) p"
    show ?thesis
    proof (cases "p = cl_connect ?f ?req")
      case True
      then show ?thesis using act P(1,2) by (auto simp: cl_connect_def client_at_def split: if_splits)
    next
      case False
      then show ?thesis using lead_in_act [OF P(3) act] P(1,2) by (auto simp: client_at_def Let_def)
    qed
  next
    fix fd assume P: "\<not> used" "p = cl_write ?f ?req fd" "m = [(fd, SERVER_FIFO, Wr)]"
    then show ?thesis using act by (auto simp: cl_write_def client_at_def PIPE_BUF_def split: if_splits)
  next
    fix fd assume P: "p = cl_open ?f" "m = [(fd, SERVER_FIFO, Wr)]"
    then show ?thesis using act by (auto simp: cl_open_def client_at_def split: if_splits)
  next
    fix fd fd' assume P: "p = cl_read ?f fd'" "m = [(fd', ?f, Rd), (fd, SERVER_FIFO, Wr)]"
    from fifo show ?thesis
    proof
      assume "st ?f = []"
      then show ?thesis using act P by (auto simp: cl_read_def client_at_def split: if_splits)
    next
      assume "\<exists>a. g = Some a \<and> 0 \<le> a \<and> a \<le> INT_MAX \<and> st ?f = int_bytes a"
      then obtain a where "g = Some a" "0 \<le> a" "a \<le> INT_MAX" "st ?f = int_bytes a" by blast
      moreover then have "int_of_bytes (int_bytes a) = a" by (simp add: int_of_bytes_int_bytes int_limits)
      ultimately show ?thesis using act P by (auto simp: cl_read_def client_at_def split: if_splits)
    qed
  next
    fix a assume "g = Some a" "p = printf (show_int a @ [NL]) (removeFifo ?f (exit 0))"
    then show ?thesis using act by (auto simp: client_at_def)
  next
    assume "plain {client_fifo self} p"
    from plain_act [OF this act] show ?thesis using client_at_plain [of self p'] by blast
  qed
qed

subsection \<open>The FIFO of a client\<close>

text \<open>
  From mkfifo on the client's FIFO exists until the client removes it as its last act.
  \<open>guarding f p\<close>: \<open>p\<close> does not remove \<open>f\<close> except as its last call.
\<close>

definition cl_create :: "string \<Rightarrow> int \<Rightarrow> prog" where
  "cl_create f len =
     Call (Path (Mkfifo f fifo_perms)) (\<lambda>m.
     if rv m = -1 \<and> err m \<noteq> EEXIST then eprintf (''mkfifo '' @ f) (exit 1)
     else Call (Proc (Atexit ''removeFifo'')) (\<lambda>a.
     if rv a \<noteq> 0 then perror ''atexit'' (exit 1)
     else Call (Proc Getpid) (\<lambda>p. cl_connect f \<lparr>pid = rv p, seqLen = len\<rparr>)))"

lemma client_creates:
  assumes "INT_MIN \<le> p" "p \<le> INT_MAX"
  shows "lead_in {} p ((=) (cl_create (client_fifo p) (wanted argv))) (fifo_client_main argv)"
  unfolding fifo_client_main_eq Let_def
proof (rule lead_in_if, goal_cases)
  case 1
  then show ?case by (simp add: lead_in_plain)
next
  case 2
  show ?case
    by (rule lead_in_Call, simp, rule lead_in_Call, simp, rule lead_in_goal) (simp add: client_fifo_fits [OF assms] cl_create_def cong: if_cong)
qed

primrec guarding :: "string \<Rightarrow> prog \<Rightarrow> bool" where
  "guarding f (Halt out) = True"
| "guarding f (Put q s p) = guarding f p"
| "guarding f (Call c g) = (\<forall>r. if c = Path (Unlink f) then \<exists>out. g r = Halt out else guarding f (g r))"

definition file_at :: "string \<Rightarrow> int \<Rightarrow> int \<Rightarrow> bool \<Rightarrow> prog \<Rightarrow> string set \<Rightarrow> bool" where
  "file_at f self len used p fs =
     (\<not> used \<and> lead_in {} self ((=) (cl_create f len)) p \<or> guarding f p \<and> f \<in> fs \<or> (\<exists>out. p = Halt out))"

lemma file_at_less: "file_at f self len True p fs \<Longrightarrow> file_at f self len used p fs"
  by (simp add: file_at_def)

lemma file_at_spares: "file_at f self len used p fs \<Longrightarrow> spares F fs fs' \<Longrightarrow> f \<notin> F \<Longrightarrow> file_at f self len used p fs'"
  using spares_mem [of F fs fs' f] by (auto simp: file_at_def)

lemma lead_in_Io: "lead_in F self G (Call (Io i) g) \<Longrightarrow> G (Call (Io i) g)"
  by (auto elim: lead_in.cases)

lemma answer_keeps_file:
  "fifo_answer self m (st, fs) c r = Some (m', st', fs') \<Longrightarrow> c \<noteq> Path (Unlink f) \<Longrightarrow> f \<in> fs \<Longrightarrow> f \<in> fs'"
  by (cases "(self, m, (st, fs), c, r)" rule: fifo_answer.cases)
     (auto split: if_splits option.splits prod.splits pipe_end.splits)

lemma file_act:
  assumes "file_at f self len used p fs" and act: "fifo_act self mv p m (st, fs) = Some (p', m', (st', fs'), t)"
  shows "file_at f self len used p' fs' \<and> ((\<exists>i g. p = Call (Io i) g) \<longrightarrow> file_at f self len True p' fs')"
  using assms(1) [unfolded file_at_def]
proof (elim disjE conjE)
  assume P: "\<not> used" "lead_in {} self ((=) (cl_create f len)) p"
  have no: "\<not> (\<exists>i g. p = Call (Io i) g)"
  proof
    assume "\<exists>i g. p = Call (Io i) g"
    then obtain i g where p: "p = Call (Io i) g" by blast
    from lead_in_Io [OF P(2) [unfolded p]] show False by (simp add: cl_create_def)
  qed
  show ?thesis
  proof (cases "cl_create f len = p")
    case True
    have g: "guarding f (Call (Proc (Atexit ''removeFifo'')) (\<lambda>a.
      if rv a \<noteq> 0 then perror ''atexit'' (exit 1) else Call (Proc Getpid) (\<lambda>p. cl_connect f \<lparr>pid = rv p, seqLen = len\<rparr>)))"
      by (simp add: client_stages removeFifo_def)
    show ?thesis
    proof (cases mv)
      case (Answer r)
      then show ?thesis using act g no P(1) unfolding True [symmetric] cl_create_def
        by (auto simp: file_at_def lead_in_plain split: if_splits)
    qed (use act True in \<open>auto simp: cl_create_def file_at_def\<close>)
  next
    case False
    then show ?thesis using lead_in_act [OF P(2) act] P(1) no lead_in_plain by (auto simp: file_at_def)
  qed
next
  assume P: "guarding f p" "f \<in> fs"
  then show ?thesis using act
    by (cases "(fifo_answer, [] :: fd_tab, self, mv, p, m, (st, fs))" rule: sched_act.cases)
       (auto simp: file_at_def split: option.splits if_splits dest: answer_keeps_file)
next
  assume "\<exists>out. p = Halt out"
  then show ?thesis using act by (auto simp: file_at_def)
qed

text \<open>Both aspects of a client together.\<close>

definition client_in :: "int \<Rightarrow> int \<Rightarrow> bool \<Rightarrow> int option \<Rightarrow> fd_tab task \<Rightarrow> string set \<Rightarrow> bool" where
  "client_in self len used g P fs =
     (client_at self len used g (tcode P) (handles P) \<and> file_at (client_fifo self) self len used (tcode P) fs)"

lemma client_in_less: "client_in self len used g P fs \<Longrightarrow> (used' \<Longrightarrow> used) \<Longrightarrow> client_in self len used' g P fs"
  by (cases used; cases used') (auto simp: client_in_def intro: client_at_less file_at_less)

lemma client_in_grant: "client_in self len used None P fs \<Longrightarrow> client_in self len used g P fs"
  by (auto simp: client_in_def intro: client_at_grant)

lemma client_in_spares: "client_in self len used g P fs \<Longrightarrow> spares F fs fs' \<Longrightarrow> client_fifo self \<notin> F \<Longrightarrow> client_in self len used g P fs'"
  by (auto simp: client_in_def intro: file_at_spares)

lemma client_in_act:
  assumes "client_in self len used g P fs" and "fifo_act self mv (tcode P) (handles P) (st, fs) = Some (p', m', (st', fs'), t)"
    and "st (client_fifo self) = [] \<or> (\<exists>a. g = Some a \<and> 0 \<le> a \<and> a \<le> INT_MAX \<and> st (client_fifo self) = int_bytes a)"
  shows "spares {client_fifo self} fs fs' \<and>
    (\<forall>s. (Stdout, s) \<in> set t \<longrightarrow> (\<exists>a. g = Some a \<and> s = show_int a @ [NL])) \<and>
    (client_in self len used g \<lparr>tcode = p', handles = m'\<rparr> fs' \<and> (st' = st \<or> st' = st(client_fifo self := [])) \<or>
     \<not> used \<and> client_in self len True g \<lparr>tcode = p', handles = m'\<rparr> fs' \<and>
       st' = st(SERVER_FIFO := st SERVER_FIFO @ request_bytes \<lparr>pid = self, seqLen = len\<rparr>))"
  using client_act [OF _ assms(2,3), of len used] file_act [OF _ assms(2), of "client_fifo self" len used] assms(1)
  by (auto simp: client_in_def)

section \<open>The server\<close>

definition sv_finish :: "nat \<Rightarrow> int \<Rightarrow> int \<Rightarrow> prog" where
  "sv_finish n sfd s = (if INT_MIN \<le> s \<and> s \<le> INT_MAX then fifo_server_loop n sfd s else Halt Undefined)"

definition sv_close :: "nat \<Rightarrow> int \<Rightarrow> int \<Rightarrow> int \<Rightarrow> prog" where
  "sv_close n sfd s cfd = Call (Io (Close cfd)) (\<lambda>c. (if rv c = -1 then Put Perror ''close'' else (\<lambda>p. p)) (sv_finish n sfd s))"

definition sv_write :: "nat \<Rightarrow> int \<Rightarrow> int \<Rightarrow> int \<Rightarrow> string \<Rightarrow> int \<Rightarrow> prog" where
  "sv_write n sfd s len f cfd =
     Call (Io (Write cfd (int_bytes s))) (\<lambda>w.
       (if rv w \<noteq> 4 then Put Stderr (''Error writing to the FIFO '' @ f @ [NL]) else (\<lambda>p. p)) (sv_close n sfd (s + len) cfd))"

definition sv_open :: "nat \<Rightarrow> int \<Rightarrow> int \<Rightarrow> int \<Rightarrow> string \<Rightarrow> prog" where
  "sv_open n sfd s len f =
     Call (Io (Open f O_WRONLY 0)) (\<lambda>q.
       if rv q = -1 then eprintf (''open '' @ f) (fifo_server_loop n sfd s) else sv_write n sfd s len f (rv q))"

definition sv_start :: "nat \<Rightarrow> prog" where
  "sv_start n =
     Call (Io (Open SERVER_FIFO O_RDONLY 0)) (\<lambda>s.
     if rv s = -1 then perror ''server open'' (exit 1)
     else Call (Io (Open SERVER_FIFO O_WRONLY 0)) (\<lambda>d.
     if rv d = -1 then perror ''server open'' (exit 1)
     else Call (Sig (Signal 13 ''SIG_IGN'')) (\<lambda>g.
     if rv g = -1 then perror ''signal'' (exit 1)
     else fifo_server_loop n (rv s) 0)))"

definition sv_dummy :: "nat \<Rightarrow> int \<Rightarrow> prog" where
  "sv_dummy n sfd =
     Call (Io (Open SERVER_FIFO O_WRONLY 0)) (\<lambda>d.
     if rv d = -1 then perror ''server open'' (exit 1)
     else Call (Sig (Signal 13 ''SIG_IGN'')) (\<lambda>g.
     if rv g = -1 then perror ''signal'' (exit 1)
     else fifo_server_loop n sfd 0))"

lemma sv_start_eq:
  "sv_start n = Call (Io (Open SERVER_FIFO O_RDONLY 0)) (\<lambda>s. if rv s = -1 then perror ''server open'' (exit 1) else sv_dummy n (rv s))"
  by (simp add: sv_start_def sv_dummy_def cong: if_cong)

lemma fifo_server_loop_Suc:
  "fifo_server_loop (Suc n) sfd s =
     Call (Io (Read sfd 8)) (\<lambda>r.
       if rv r \<noteq> 8 then eprintf ''Error reading request: discarding\<newline>'' (fifo_server_loop n sfd s)
       else sv_open n sfd s (seqLen (request_of_bytes (bytes r)))
         (snprintf CLIENT_FIFO_NAME_LEN (client_fifo (pid (request_of_bytes (bytes r))))))"
  by (simp add: sv_open_def sv_write_def sv_close_def sv_finish_def Let_def cong: if_cong)

lemma server_lead_in: "lead_in {SERVER_FIFO} self ((=) (sv_start n)) (fifo_server_main n)"
proof -
  have "fifo_server_main n = Call (Path (Umask 0)) (\<lambda>_. Call (Path (Mkfifo SERVER_FIFO fifo_perms)) (\<lambda>m.
     if rv m = -1 \<and> err m \<noteq> EEXIST then perror ''mkfifo'' (exit EXIT_FAILURE) else sv_start n))"
    by (simp add: fifo_server_main_def sv_start_def cong: if_cong)
  then show ?thesis by (auto intro!: lead_in_steps intro: lead_in_plain lead_in_goal)
qed

text \<open>The descriptors of the server apart from the one for the client it serves.\<close>

definition sv_base :: "int \<Rightarrow> fd_tab \<Rightarrow> bool" where
  "sv_base sfd m = (\<exists>dfd. dfd \<noteq> sfd \<and> m = [(dfd, SERVER_FIFO, Wr), (sfd, SERVER_FIFO, Rd)])"

text \<open>
  What the server is doing, with the value of its counter: starting, between two requests, or
  (\<open>cur\<close>) occupied with the request of a client of which it has not disposed yet.
\<close>

inductive server_at :: "int \<Rightarrow> (int \<times> int) option \<Rightarrow> int \<Rightarrow> prog \<Rightarrow> fd_tab \<Rightarrow> bool" for self where
  sv_starting: "lead_in {SERVER_FIFO} self ((=) (sv_start n)) p \<Longrightarrow> server_at self None 0 p []"
| sv_half: "server_at self None 0 (sv_dummy n sfd) [(sfd, SERVER_FIFO, Rd)]"
| sv_looping: "sv_base sfd m \<Longrightarrow> lead_in {SERVER_FIFO} self ((=) (fifo_server_loop n sfd s)) p \<Longrightarrow> server_at self None s p m"
| sv_opening: "sv_base sfd m \<Longrightarrow> server_at self (Some (i, len)) s (sv_open n sfd s len (client_fifo i)) m"
| sv_writing: "sv_base sfd m \<Longrightarrow> cfd \<notin> fst ` set m \<Longrightarrow>
    server_at self (Some (i, len)) s (sv_write n sfd s len (client_fifo i) cfd) ((cfd, client_fifo i, Wr) # m)"
| sv_closing: "sv_base sfd m \<Longrightarrow> cfd \<notin> fst ` set m \<Longrightarrow> lead_in {SERVER_FIFO} self ((=) (sv_close n sfd s cfd)) p \<Longrightarrow>
    server_at self None s p ((cfd, f, Wr) # m)"
| sv_over: "plain {SERVER_FIFO} p \<Longrightarrow> server_at self None s p m"

lemma server_at_loop: "sv_base sfd m \<Longrightarrow> server_at self None s (fifo_server_loop n sfd s) m"
  by (rule sv_looping, assumption, rule lead_in_goal, rule refl)

lemma lead_in_loop: "q \<noteq> Stdout \<Longrightarrow> lead_in {SERVER_FIFO} self ((=) (fifo_server_loop n sfd s)) (Put q t (fifo_server_loop n sfd s))"
  by (simp add: lead_in_Put lead_in_goal)

text \<open>What the moves of the server can be, by what it is doing.\<close>

lemma loop_act:
  assumes m: "sv_base sfd m" and act: "fifo_act self (Answer r) (fifo_server_loop n sfd s) m (st, fs) = Some (p', m', (st', fs'), t)"
    and q: "st SERVER_FIFO = concat (map (\<lambda>i. request_bytes \<lparr>pid = pd i, seqLen = len i\<rparr>) q)"
    and ints: "\<forall>i\<in>set q. INT_MIN \<le> pd i \<and> pd i \<le> INT_MAX \<and> INT_MIN \<le> len i \<and> len i \<le> INT_MAX"
  shows "t = [] \<and> fs' = fs \<and> (server_at self None s p' m' \<and> st' = st \<or>
    (\<exists>i q'. q = i # q' \<and> server_at self (Some (pd i, len i)) s p' m' \<and>
       st' = st(SERVER_FIFO := concat (map (\<lambda>i. request_bytes \<lparr>pid = pd i, seqLen = len i\<rparr>) q'))))"
proof (cases n)
  case 0
  then show ?thesis using act by (auto intro: sv_over)
next
  case (Suc k)
  have fd: "map_of m sfd = Some (SERVER_FIFO, Rd)" using m by (auto simp: sv_base_def)
  consider (none) "rv r \<noteq> 8" | (request) "rv r = 8" "bytes r = take 8 (st SERVER_FIFO)" "length (bytes r) = 8"
    using act by (auto simp: Suc fifo_server_loop_Suc fd split: if_splits simp del: fifo_server_loop.simps)
  then show ?thesis
  proof cases
    case none
    then have "p' = eprintf ''Error reading request: discarding\<newline>'' (fifo_server_loop k sfd s) \<and> m' = m \<and> t = [] \<and> fs' = fs \<and> st' = st"
      using act by (cases q) (auto simp: Suc fifo_server_loop_Suc fd q split: if_splits simp del: fifo_server_loop.simps)
    then show ?thesis using m lead_in_loop sv_looping by blast
  next
    case request
    then obtain i q' where "q = i # q'" using q by (cases q) auto
    then show ?thesis
      using act request m q ints
      by (auto simp: Suc fifo_server_loop_Suc fd request_bytes_decode client_fifo_fits simp del: fifo_server_loop.simps
          intro: sv_opening)
  qed
qed

lemma killed_act:
  "fifo_act self Killed p m (st, fs) = Some (p', m', (st', fs'), t) \<Longrightarrow> (\<forall>oc. p \<noteq> Halt oc) \<Longrightarrow> plain F p' \<and> st' = st \<and> fs' = fs \<and> t = []"
  by (cases p) auto

lemma server_busy_act:
  assumes "server_at self (Some (i, len)) s p m" and act: "fifo_act self mv p m (st, fs) = Some (p', m', (st', fs'), t)"
  shows "t = [] \<and> fs' = fs \<and> (st' = st \<and> (server_at self (Some (i, len)) s p' m' \<or> server_at self None s p' m' \<or> server_at self None (s + len) p' m') \<or>
    server_at self None (s + len) p' m' \<and> st' = st(client_fifo i := st (client_fifo i) @ int_bytes s))"
proof (cases mv)
  case Killed
  have "\<forall>oc. p \<noteq> Halt oc" using assms(1) by (auto elim!: server_at.cases simp: sv_open_def sv_write_def)
  then show ?thesis using killed_act [of self p m st fs p' m' st' fs' t "{SERVER_FIFO}"] act Killed sv_over by blast
next
  case (Answer r)
  from assms(1) show ?thesis
  proof (cases rule: server_at.cases)
    case (sv_opening sfd n)
    then have "p' = eprintf (''open '' @ client_fifo i) (fifo_server_loop n sfd s) \<and> m' = m \<and> st' = st \<and> fs' = fs \<and> t = [] \<or>
      p' = sv_write n sfd s len (client_fifo i) (rv r) \<and> m' = (rv r, client_fifo i, Wr) # m \<and> rv r \<notin> fst ` set m \<and> st' = st \<and> fs' = fs \<and> t = []"
      using act Answer by (auto simp: sv_open_def split: if_splits)
    then show ?thesis using sv_looping [OF sv_opening(2)] lead_in_loop [of Stderr] server_at.sv_writing [OF sv_opening(2)] by blast
  next
    case (sv_writing sfd m0 cfd n)
    let ?close = "sv_close n sfd (s + len) cfd"
    have "lead_in {SERVER_FIFO} self ((=) ?close) p'" "m' = m" "t = []" "fs' = fs"
      "st' = st \<or> st' = st(client_fifo i := st (client_fifo i) @ int_bytes s)"
      using act sv_writing Answer by (auto simp: sv_write_def PIPE_BUF_def split: if_splits intro: lead_in_Put lead_in_goal)
    then show ?thesis using sv_closing [OF sv_writing(3,4)] sv_writing(2) by blast
  qed
qed

lemma server_idle_act:
  assumes "server_at self None s p m" and act: "fifo_act self mv p m (st, fs) = Some (p', m', (st', fs'), t)" and s: "0 \<le> s" "s \<le> INT_MAX"
    and q: "st SERVER_FIFO = concat (map (\<lambda>i. request_bytes \<lparr>pid = pd i, seqLen = len i\<rparr>) q)"
    and ints: "\<forall>i\<in>set q. INT_MIN \<le> pd i \<and> pd i \<le> INT_MAX \<and> INT_MIN \<le> len i \<and> len i \<le> INT_MAX"
  shows "(\<forall>x. (Stdout, x) \<notin> set t) \<and> spares {SERVER_FIFO} fs fs' \<and> (server_at self None s p' m' \<and> st' = st \<or>
    (\<exists>i q'. q = i # q' \<and> server_at self (Some (pd i, len i)) s p' m' \<and>
       st' = st(SERVER_FIFO := concat (map (\<lambda>i. request_bytes \<lparr>pid = pd i, seqLen = len i\<rparr>) q'))))"
proof (cases "plain {SERVER_FIFO} p \<or> mv = Killed \<and> (\<forall>oc. p \<noteq> Halt oc)")
  case True
  then have "plain {SERVER_FIFO} p' \<and> st' = st \<and> spares {SERVER_FIFO} fs fs' \<and> (\<forall>x. (Stdout, x) \<notin> set t)"
  proof (elim disjE conjE)
    assume "plain {SERVER_FIFO} p"
    from plain_act [OF this act] show ?thesis .
  next
    assume "mv = Killed" "\<forall>oc. p \<noteq> Halt oc"
    then show ?thesis using killed_act [of self p m st fs p' m' st' fs' t "{SERVER_FIFO}"] act by simp
  qed
  then show ?thesis using sv_over [of p' self s m'] by simp
next
  case False
  have np: "\<not> plain {SERVER_FIFO} p" using False by blast
  from assms(1) show ?thesis
  proof (cases rule: server_at.cases)
    case (sv_starting n)
    show ?thesis
    proof (cases "sv_start n = p")
      case True
      then have "mv \<noteq> Killed" using False by (auto simp: sv_start_def)
      then obtain r where "mv = Answer r" by (cases mv) auto
      then have "plain {SERVER_FIFO} p' \<and> st' = st \<and> fs' = fs \<and> t = [] \<or> p' = sv_dummy n (rv r) \<and> m' = [(rv r, SERVER_FIFO, Rd)] \<and> st' = st \<and> fs' = fs \<and> t = []"
        using act sv_starting(2) unfolding True [symmetric] sv_start_eq by (auto split: if_splits)
      then show ?thesis using sv_starting(1) sv_half sv_over by auto
    next
      case False
      then show ?thesis using lead_in_act [OF sv_starting(3) act] sv_starting(1,2) server_at.sv_starting sv_over by blast
    qed
  next
    case (sv_half n sfd)
    then have "mv \<noteq> Killed" using False by (auto simp: sv_dummy_def)
    then obtain r where r: "mv = Answer r" by (cases mv) auto
    have l: "lead_in {SERVER_FIFO} self ((=) (fifo_server_loop n sfd 0)) (Call (Sig (Signal 13 ''SIG_IGN'')) (\<lambda>g.
        if rv g = -1 then perror ''signal'' (exit 1) else fifo_server_loop n sfd 0))"
      by (intro lead_in_steps) (auto intro: lead_in_plain lead_in_goal)
    have "plain {SERVER_FIFO} p' \<and> st' = st \<and> fs' = fs \<and> t = [] \<or> sv_base sfd m' \<and> lead_in {SERVER_FIFO} self ((=) (fifo_server_loop n sfd 0)) p' \<and> st' = st \<and> fs' = fs \<and> t = []"
      using act r l sv_half by (auto simp: sv_dummy_def sv_base_def split: if_splits)
    then show ?thesis using sv_half(1) sv_looping sv_over by auto
  next
    case (sv_looping sfd n)
    show ?thesis
    proof (cases "fifo_server_loop n sfd s = p")
      case True
      then have "mv \<noteq> Killed" using False np by (cases n) auto
      then obtain r where r: "mv = Answer r" by (cases mv) auto
      from loop_act [where pd = pd and len = len and q = q, OF sv_looping(1) act [unfolded r True [symmetric]] q ints]
      show ?thesis by simp
    next
      case False
      then show ?thesis using lead_in_act [OF sv_looping(2) act] sv_looping(1) server_at.sv_looping sv_over by blast
    qed
  next
    case (sv_closing sfd m0 cfd n f)
    show ?thesis
    proof (cases "sv_close n sfd s cfd = p")
      case True
      then have "mv \<noteq> Killed" using False by (auto simp: sv_close_def)
      then obtain r where r: "mv = Answer r" by (cases mv) auto
      have "filter (\<lambda>e. fst e \<noteq> cfd) m0 = m0" using sv_closing(3) by (intro filter_True) force
      then have "m' = m0 \<and> st' = st \<and> fs' = fs \<and> t = [] \<and> lead_in {SERVER_FIFO} self ((=) (fifo_server_loop n sfd s)) p'"
        using act r s sv_closing(1) unfolding True [symmetric] sv_close_def sv_finish_def
        by (auto simp: int_limits split: if_splits intro: lead_in_Put lead_in_goal)
      then show ?thesis using sv_looping [OF sv_closing(2)] by auto
    next
      case False
      then show ?thesis using lead_in_act [OF sv_closing(4) act] sv_closing(1-3) server_at.sv_closing sv_over by blast
    qed
  next
    case sv_over
    then show ?thesis using np by blast
  qed
qed

section \<open>The ledger\<close>

text \<open>
  What the system has done so far, as auxiliary variables: the clients whose requests wait in the
  server's FIFO (\<open>q\<close>), those the server has disposed of (\<open>D\<close>), the one it is occupied with (\<open>cur\<close>),
  its counter, and the numbers that were handed out (\<open>grant\<close>).
\<close>

definition clients_ok :: "nat \<Rightarrow> (nat \<Rightarrow> int) \<Rightarrow> (nat \<Rightarrow> int) \<Rightarrow> bool" where
  "clients_ok N pd L =
     (inj_on pd {1..N} \<and> (\<forall>i\<in>{1..N}. INT_MIN \<le> pd i \<and> pd i \<le> INT_MAX \<and> 0 \<le> L i) \<and> sum L {1..N} \<le> INT_MAX)"

definition ledger :: "nat \<Rightarrow> (nat \<Rightarrow> int) \<Rightarrow> nat list \<Rightarrow> nat set \<Rightarrow> int \<Rightarrow> nat option \<Rightarrow> (nat \<Rightarrow> int option) \<Rightarrow> bool" where
  "ledger N L q D s cur grant =
     (distinct q \<and> set q \<subseteq> {1..N} \<and> D \<subseteq> {1..N} \<and> set q \<inter> D = {} \<and>
      (\<forall>c. cur = Some c \<longrightarrow> c \<in> {1..N} \<and> c \<notin> set q \<and> c \<notin> D) \<and> s = sum L D \<and> dom grant \<subseteq> D \<and>
      (\<forall>i a. grant i = Some a \<longrightarrow> 0 \<le> a \<and> a + L i \<le> s) \<and>
      (\<forall>i j a b. i \<noteq> j \<and> grant i = Some a \<and> grant j = Some b \<longrightarrow> {a..<a + L i} \<inter> {b..<b + L j} = {}))"

definition involved :: "nat list \<Rightarrow> nat set \<Rightarrow> nat option \<Rightarrow> nat \<Rightarrow> bool" where
  "involved q D cur i = (i \<in> set q \<or> i \<in> D \<or> cur = Some i)"

lemma ledger_start: "ledger N L [] {} 0 None (\<lambda>_. None)"
  by (simp add: ledger_def)

lemma ledger_send: "ledger N L q D s cur grant \<Longrightarrow> i \<in> {1..N} \<Longrightarrow> \<not> involved q D cur i \<Longrightarrow> ledger N L (q @ [i]) D s cur grant"
  by (auto simp: ledger_def involved_def)

lemma ledger_lose: "ledger N L q D s cur grant \<Longrightarrow> ledger N L [] D s cur grant"
  by (auto simp: ledger_def)

lemma ledger_take: "ledger N L (i # q) D s None grant \<Longrightarrow> ledger N L q D s (Some i) grant"
  by (auto simp: ledger_def)

lemma ledger_drop: "ledger N L q D s cur grant \<Longrightarrow> ledger N L q D s None grant"
  by (auto simp: ledger_def)

lemma ledger_bound:
  assumes "ledger N L q D s cur grant" and "clients_ok N pd L"
  shows "0 \<le> s" "s \<le> INT_MAX" "cur = Some i \<Longrightarrow> s + L i \<le> INT_MAX"
proof -
  have D: "D \<subseteq> {1..N}" "s = sum L D" and L: "\<And>i. i \<in> {1..N} \<Longrightarrow> 0 \<le> L i" and tot: "sum L {1..N} \<le> INT_MAX"
    using assms by (auto simp: ledger_def clients_ok_def)
  have sub: "sum L E \<le> INT_MAX" if "E \<subseteq> {1..N}" for E
    using sum_mono2 [OF _ that, of L] L tot by fastforce
  show "0 \<le> s" using D L by (auto intro!: sum_nonneg)
  show "s \<le> INT_MAX" using sub [OF D(1)] D(2) by simp
  show "s + L i \<le> INT_MAX" if "cur = Some i"
  proof -
    have "i \<in> {1..N}" "i \<notin> D" using assms(1) that by (auto simp: ledger_def)
    then show ?thesis using sub [of "insert i D"] D finite_subset [OF D(1)] by (simp add: add.commute)
  qed
qed

lemma clients_ok_L:
  assumes "clients_ok N pd L" and "i \<in> {1..N}"
  shows "L i \<le> INT_MAX"
proof -
  have "L i \<le> sum L {1..N}" using assms by (intro member_le_sum) (auto simp: clients_ok_def)
  then show ?thesis using assms(1) by (simp add: clients_ok_def)
qed

lemma ledger_serve:
  assumes "ledger N L q D s (Some i) grant" and "clients_ok N pd L" and "g = None \<or> g = Some s"
  shows "ledger N L q (insert i D) (s + L i) None (grant(i := g))"
proof -
  have i: "i \<in> {1..N}" "i \<notin> D" "i \<notin> set q" "grant i = None" "finite D" "0 \<le> L i" "0 \<le> s"
    using assms ledger_bound(1) [OF assms(1,2)] finite_subset [of D "{1..N}"] by (auto simp: ledger_def clients_ok_def)
  have below: "a + L j \<le> s" "0 \<le> a" if "grant j = Some a" for j a using assms(1) that by (auto simp: ledger_def)
  have "dom (grant(i := g)) \<subseteq> insert i D" using assms(1) by (auto simp: ledger_def)
  moreover have "{a..<a + L j} \<inter> {b..<b + L k} = {}"
    if "j \<noteq> k" "(grant(i := g)) j = Some a" "(grant(i := g)) k = Some b" for j k a b
    using that assms(1,3) below by (fastforce simp: ledger_def split: if_splits)
  moreover have "0 \<le> a \<and> a + L j \<le> s + L i" if "(grant(i := g)) j = Some a" for j a
    using that assms(3) below i(6,7) by (fastforce split: if_splits)
  ultimately show ?thesis using assms(1) i unfolding ledger_def by (auto simp: add.commute)
qed

section \<open>The invariant of the system\<close>

definition queued :: "(nat \<Rightarrow> int) \<Rightarrow> (nat \<Rightarrow> int) \<Rightarrow> nat list \<Rightarrow> string" where
  "queued pd L q = concat (map (\<lambda>i. request_bytes \<lparr>pid = pd i, seqLen = L i\<rparr>) q)"

text \<open>The FIFO of a client is empty or holds the number the client was given.\<close>

definition mail :: "nat \<Rightarrow> (nat \<Rightarrow> int) \<Rightarrow> (nat \<Rightarrow> int option) \<Rightarrow> (string \<Rightarrow> string) \<Rightarrow> bool" where
  "mail N pd grant st =
     (\<forall>i\<in>{1..N}. st (client_fifo (pd i)) = [] \<or> (\<exists>a. grant i = Some a \<and> st (client_fifo (pd i)) = int_bytes a))"

definition fifo_state :: "nat \<Rightarrow> (nat \<Rightarrow> int) \<Rightarrow> (nat \<Rightarrow> int) \<Rightarrow> nat list \<Rightarrow> nat set \<Rightarrow> int \<Rightarrow> nat option \<Rightarrow> (nat \<Rightarrow> int option) \<Rightarrow>
    fd_tab task list \<Rightarrow> (string \<Rightarrow> string) \<Rightarrow> string set \<Rightarrow> (nat \<times> port \<times> string) list \<Rightarrow> bool" where
  "fifo_state N pd L q D s cur grant ps st fs pr =
     (ledger N L q D s cur grant \<and> length ps = Suc N \<and> st SERVER_FIFO = queued pd L q \<and>
      mail N pd grant st \<and>
      server_at (pd 0) (map_option (\<lambda>c. (pd c, L c)) cur) s (tcode (ps ! 0)) (handles (ps ! 0)) \<and>
      (\<forall>i\<in>{1..N}. client_in (pd i) (L i) (involved q D cur i) (grant i) (ps ! i) fs) \<and>
      (\<forall>i x. (i, Stdout, x) \<in> set pr \<longrightarrow> (\<exists>a. grant i = Some a \<and> x = show_int a @ [NL])))"

lemma client_fifo_neq_server [simp]: "client_fifo p \<noteq> SERVER_FIFO" "SERVER_FIFO \<noteq> client_fifo p"
  by (simp_all add: client_fifo_def SERVER_FIFO_def)

lemma client_fifo_inject [simp]: "client_fifo p = client_fifo p' \<longleftrightarrow> p = p'"
  by (simp add: client_fifo_def)

lemma mail_less: "mail N pd grant st \<Longrightarrow> \<forall>f. st' f = st f \<or> st' f = [] \<Longrightarrow> mail N pd grant st'"
  unfolding mail_def by metis

lemma mail_other: "mail N pd grant (st(SERVER_FIFO := d)) = mail N pd grant st"
  by (simp add: mail_def)

text \<open>FIFOs that nobody has open lose what is in them.\<close>

lemma fifo_state_settle:
  assumes "fifo_state N pd L q D s cur grant ps st fs pr" and "\<forall>f. st' f = st f \<or> st' f = []"
  shows "\<exists>q. fifo_state N pd L q D s cur grant ps st' fs pr"
proof (cases "st' SERVER_FIFO = st SERVER_FIFO")
  case True
  then show ?thesis using assms(1) mail_less [OF _ assms(2)] unfolding fifo_state_def by (intro exI [of _ q]) simp
next
  case False
  then have "st' SERVER_FIFO = queued pd L []" using assms(2) by (auto simp: queued_def)
  moreover have "client_in (pd i) (L i) (involved [] D cur i) (grant i) (ps ! i) fs" if "i \<in> {1..N}" for i
  proof -
    have "client_in (pd i) (L i) (involved q D cur i) (grant i) (ps ! i) fs" using assms(1) that by (simp add: fifo_state_def)
    then show ?thesis by (rule client_in_less) (auto simp: involved_def)
  qed
  ultimately show ?thesis using assms(1) mail_less [OF _ assms(2)] ledger_lose
    unfolding fifo_state_def by (intro exI [of _ "[]"]) blast
qed

lemma client_moves:
  assumes S: "fifo_state N pd L q D s cur grant ps st fs pr" and ok: "clients_ok N pd L" and i: "i \<in> {1..N}"
    and act: "fifo_act (pd i) mv (tcode (ps ! i)) (handles (ps ! i)) (st, fs) = Some (p, m, (st', fs'), t)"
  shows "\<exists>q. fifo_state N pd L q D s cur grant (ps[i := \<lparr>tcode = p, handles = m\<rparr>]) st' fs' (pr @ map (Pair i) t)"
proof -
  let ?P = "\<lparr>tcode = p, handles = m\<rparr>" and ?u = "involved q D cur i"
  note bound = ledger_bound [OF _ ok]
  have led: "ledger N L q D s cur grant" and cl: "client_in (pd i) (L i) ?u (grant i) (ps ! i) fs"
    and others: "\<And>j. j \<in> {1..N} \<Longrightarrow> client_in (pd j) (L j) (involved q D cur j) (grant j) (ps ! j) fs" and len: "length ps = Suc N"
    using S i by (auto simp: fifo_state_def)
  have "a \<le> INT_MAX \<and> 0 \<le> a" if "grant i = Some a" for a
  proof -
    have "0 \<le> L i" "0 \<le> a" "a + L i \<le> s" using that led ok i by (auto simp: ledger_def clients_ok_def)
    then show ?thesis using bound(2) [OF led] by linarith
  qed
  then have "st (client_fifo (pd i)) = [] \<or> (\<exists>a. grant i = Some a \<and> 0 \<le> a \<and> a \<le> INT_MAX \<and> st (client_fifo (pd i)) = int_bytes a)"
    using S i unfolding fifo_state_def mail_def by blast
  from client_in_act [OF cl act this] have fs: "spares {client_fifo (pd i)} fs fs'" and
    out: "\<forall>x. (Stdout, x) \<in> set t \<longrightarrow> (\<exists>a. grant i = Some a \<and> x = show_int a @ [NL])" and
    "client_in (pd i) (L i) ?u (grant i) ?P fs' \<and> (st' = st \<or> st' = st(client_fifo (pd i) := [])) \<or>
     \<not> ?u \<and> client_in (pd i) (L i) True (grant i) ?P fs' \<and> st' = st(SERVER_FIFO := st SERVER_FIFO @ request_bytes \<lparr>pid = pd i, seqLen = L i\<rparr>)"
    by blast+
  then consider (quiet) "client_in (pd i) (L i) ?u (grant i) ?P fs'" "st' = st \<or> st' = st(client_fifo (pd i) := [])"
    | (send) "\<not> ?u" "client_in (pd i) (L i) True (grant i) ?P fs'" "st' = st(SERVER_FIFO := st SERVER_FIFO @ request_bytes \<lparr>pid = pd i, seqLen = L i\<rparr>)"
    by blast
  moreover have rest: "client_in (pd j) (L j) (involved q D cur j) (grant j) (ps[i := ?P] ! j) fs'" if "j \<in> {1..N}" "j \<noteq> i" for j
  proof -
    have "pd j \<noteq> pd i" using ok that i unfolding clients_ok_def by (blast dest: inj_onD)
    then show ?thesis using client_in_spares [OF others [OF that(1)] fs] that(2) by simp
  qed
  ultimately show ?thesis
  proof cases
    case quiet
    then have "\<forall>f. st' f = st f \<or> st' f = []" "st' SERVER_FIFO = st SERVER_FIFO" by auto
    moreover have "client_in (pd j) (L j) (involved q D cur j) (grant j) (ps[i := ?P] ! j) fs'" if "j \<in> {1..N}" for j
      using rest [OF that] quiet(1) i len by (cases "j = i") simp_all
    ultimately show ?thesis using S i out mail_less [of N pd grant st st'] unfolding fifo_state_def
      by (intro exI [of _ q]) auto
  next
    case send
    have "involved (q @ [i]) D cur j = (j = i \<or> involved q D cur j)" for j by (auto simp: involved_def)
    then have "client_in (pd j) (L j) (involved (q @ [i]) D cur j) (grant j) (ps[i := ?P] ! j) fs'" if "j \<in> {1..N}" for j
      using rest [OF that] send(2) i len by (cases "j = i") simp_all
    then show ?thesis using S i out send(3) ledger_send [OF led i send(1)] unfolding fifo_state_def
      by (intro exI [of _ "q @ [i]"]) (auto simp: queued_def mail_other)
  qed
qed

lemma server_moves:
  assumes S: "fifo_state N pd L q D s cur grant ps st fs pr" and ok: "clients_ok N pd L"
    and act: "fifo_act (pd 0) mv (tcode (ps ! 0)) (handles (ps ! 0)) (st, fs) = Some (p, m, (st', fs'), t)"
  shows "\<exists>q D s cur grant. fifo_state N pd L q D s cur grant (ps[0 := \<lparr>tcode = p, handles = m\<rparr>]) st' fs' (pr @ map (Pair 0) t)"
proof -
  let ?ps = "ps[0 := \<lparr>tcode = p, handles = m\<rparr>]"
  have led: "ledger N L q D s cur grant" and mail: "mail N pd grant st" and len: "length ps = Suc N"
    and sv: "server_at (pd 0) (map_option (\<lambda>c. (pd c, L c)) cur) s (tcode (ps ! 0)) (handles (ps ! 0))"
    and q: "st SERVER_FIFO = queued pd L q" and pr: "\<And>i x. (i, Stdout, x) \<in> set pr \<Longrightarrow> \<exists>a. grant i = Some a \<and> x = show_int a @ [NL]"
    using S unfolding fifo_state_def by blast+
  have kids: "client_in (pd i) (L i) (involved q D cur i) (grant i) (?ps ! i) fs'" if "spares {SERVER_FIFO} fs fs'" "i \<in> {1..N}" for i
    using S that client_in_spares [OF _ that(1)] unfolding fifo_state_def by simp
  have new: "fifo_state N pd L q' D' s' cur' grant' ?ps st' fs' (pr @ map (Pair 0) t)"
    if "ledger N L q' D' s' cur' grant'" "mail N pd grant' st'" "st' SERVER_FIFO = queued pd L q'"
      "server_at (pd 0) (map_option (\<lambda>c. (pd c, L c)) cur') s' p m" "\<forall>x. (Stdout, x) \<notin> set t"
      "\<And>i. i \<in> {1..N} \<Longrightarrow> client_in (pd i) (L i) (involved q' D' cur' i) (grant' i) (?ps ! i) fs'"
      "\<And>i a. grant i = Some a \<Longrightarrow> grant' i = Some a" for q' D' s' cur' grant'
    using that pr len unfolding fifo_state_def by fastforce
  show ?thesis
  proof (cases cur)
    case None
    have ints: "\<forall>i\<in>set q. INT_MIN \<le> pd i \<and> pd i \<le> INT_MAX \<and> INT_MIN \<le> L i \<and> L i \<le> INT_MAX"
    proof
      fix i assume "i \<in> set q"
      then have i: "i \<in> {1..N}" using led by (auto simp: ledger_def)
      then have "INT_MIN \<le> pd i \<and> pd i \<le> INT_MAX" "0 \<le> L i" using ok unfolding clients_ok_def by blast+
      then show "INT_MIN \<le> pd i \<and> pd i \<le> INT_MAX \<and> INT_MIN \<le> L i \<and> L i \<le> INT_MAX"
        using clients_ok_L [OF ok i] by (simp add: int_limits)
    qed
    have sv: "server_at (pd 0) None s (tcode (ps ! 0)) (handles (ps ! 0))" using sv None by simp
    from server_idle_act [where pd = pd and len = L and q = q, OF sv act ledger_bound(1,2) [OF led ok] q [unfolded queued_def] ints]
    have out: "\<forall>x. (Stdout, x) \<notin> set t" and fs: "spares {SERVER_FIFO} fs fs'" and "server_at (pd 0) None s p m \<and> st' = st \<or>
      (\<exists>i q'. q = i # q' \<and> server_at (pd 0) (Some (pd i, L i)) s p m \<and> st' = st(SERVER_FIFO := queued pd L q'))"
      unfolding queued_def by blast+
    then consider (quiet) "server_at (pd 0) None s p m" "st' = st"
      | (request) i q' where "q = i # q'" "server_at (pd 0) (Some (pd i, L i)) s p m" "st' = st(SERVER_FIFO := queued pd L q')" by blast
    then show ?thesis
    proof cases
      case quiet
      then have "fifo_state N pd L q D s cur grant ?ps st' fs' (pr @ map (Pair 0) t)"
        using led mail q out kids [OF fs] None by (intro new) simp_all
      then show ?thesis by blast
    next
      case request
      have "involved q' D (Some i) = involved q D cur" by (auto simp: involved_def fun_eq_iff request(1) None)
      then have "fifo_state N pd L q' D s (Some i) grant ?ps st' fs' (pr @ map (Pair 0) t)"
        using ledger_take [of N L i q' D s grant] led request None mail out kids [OF fs] by (intro new) (simp_all add: mail_other)
      then show ?thesis by blast
    qed
  next
    case (Some i)
    have led: "ledger N L q D s (Some i) grant" and "server_at (pd 0) (Some (pd i, L i)) s (tcode (ps ! 0)) (handles (ps ! 0))"
      using led sv Some by simp_all
    from server_busy_act [OF this(2) act] have t: "t = []" and fs: "fs' = fs" and
      "st' = st \<and> (server_at (pd 0) (Some (pd i, L i)) s p m \<or> server_at (pd 0) None s p m \<or> server_at (pd 0) None (s + L i) p m) \<or>
       server_at (pd 0) None (s + L i) p m \<and> st' = st(client_fifo (pd i) := st (client_fifo (pd i)) @ int_bytes s)" by blast+
    then consider (quiet) "server_at (pd 0) (Some (pd i, L i)) s p m" "st' = st" | (gone) "server_at (pd 0) None s p m" "st' = st"
      | (unheard) "server_at (pd 0) None (s + L i) p m" "st' = st"
      | (served) "server_at (pd 0) None (s + L i) p m" "st' = st(client_fifo (pd i) := st (client_fifo (pd i)) @ int_bytes s)" by blast
    moreover have i: "i \<in> {1..N}" "grant i = None" using led by (auto simp: ledger_def)
    moreover have kids: "client_in (pd j) (L j) (involved q D (Some i) j) (grant j) (?ps ! j) fs'" if "j \<in> {1..N}" for j
      using kids [OF _ that] fs Some by simp
    moreover have inv: "involved q (insert i D) None = involved q D (Some i)" by (auto simp: involved_def fun_eq_iff)
    ultimately show ?thesis
    proof cases
      case quiet
      then have "fifo_state N pd L q D s (Some i) grant ?ps st' fs' (pr @ map (Pair 0) t)"
        using led mail q t kids by (intro new) simp_all
      then show ?thesis by blast
    next
      case gone
      have "client_in (pd j) (L j) (involved q D None j) (grant j) (?ps ! j) fs'" if "j \<in> {1..N}" for j
        using kids [OF that] by (rule client_in_less) (auto simp: involved_def)
      then have "fifo_state N pd L q D s None grant ?ps st' fs' (pr @ map (Pair 0) t)"
        using ledger_drop [OF led] gone mail q t by (intro new) simp_all
      then show ?thesis by blast
    next
      case unheard
      have "grant(i := None) = grant" using i(2) by auto
      then have "fifo_state N pd L q (insert i D) (s + L i) None grant ?ps st' fs' (pr @ map (Pair 0) t)"
        using ledger_serve [OF led ok, of None] unheard mail q t kids by (intro new) (simp_all add: inv)
      then show ?thesis by blast
    next
      case served
      let ?g = "grant(i \<mapsto> s)"
      have "mail N pd ?g st'"
        unfolding mail_def
      proof
        fix j assume j: "j \<in> {1..N}"
        show "st' (client_fifo (pd j)) = [] \<or> (\<exists>a. ?g j = Some a \<and> st' (client_fifo (pd j)) = int_bytes a)"
        proof (cases "j = i")
          case True
          have "st (client_fifo (pd i)) = []" using mail i by (auto simp: mail_def)
          then show ?thesis using True served(2) by simp
        next
          case False
          then have "pd j \<noteq> pd i" using ok i(1) j unfolding clients_ok_def by (blast dest: inj_onD)
          then show ?thesis using False served(2) mail j unfolding mail_def by simp
        qed
      qed
      moreover have "client_in (pd j) (L j) (involved q (insert i D) None j) (?g j) (?ps ! j) fs'" if "j \<in> {1..N}" for j
        using kids [OF that] client_in_grant i(2) by (cases "j = i") (auto simp: inv)
      ultimately have "fifo_state N pd L q (insert i D) (s + L i) None ?g ?ps st' fs' (pr @ map (Pair 0) t)"
        using ledger_serve [OF led ok, of "Some s"] served q t i(2) by (intro new) auto
      then show ?thesis by blast
    qed
  qed
qed

definition fifo_inv :: "nat \<Rightarrow> (nat \<Rightarrow> int) \<Rightarrow> (nat \<Rightarrow> int) \<Rightarrow> (fd_tab, fifo_files) sched \<Rightarrow> bool" where
  "fifo_inv N pd L S = (\<exists>q D s cur grant. fifo_state N pd L q D s cur grant (tasks S) (store S) (files S) (prints S))"

lemma fifo_inv_act:
  assumes "fifo_inv N pd L S" and ok: "clients_ok N pd L" and i: "i < length (tasks S)"
    and act: "fifo_act (pd i) mv (tcode (tasks S ! i)) (handles (tasks S ! i)) (shared S) = Some (p, m, s, t)"
  shows "fifo_inv N pd L \<lparr>tasks = (tasks S)[i := \<lparr>tcode = p, handles = m\<rparr>],
    shared = fifo_settle (map handles ((tasks S)[i := \<lparr>tcode = p, handles = m\<rparr>])) s, prints = prints S @ map (Pair i) t\<rparr>"
proof -
  obtain q D n cur grant where S: "fifo_state N pd L q D n cur grant (tasks S) (store S) (files S) (prints S)"
    using assms(1) by (auto simp: fifo_inv_def)
  obtain st fs where s: "s = (st, fs)" by (cases s)
  have act: "fifo_act (pd i) mv (tcode (tasks S ! i)) (handles (tasks S ! i)) (store S, files S) = Some (p, m, (st, fs), t)"
    using act s by simp
  have "\<exists>q D n cur grant. fifo_state N pd L q D n cur grant ((tasks S)[i := \<lparr>tcode = p, handles = m\<rparr>]) st fs (prints S @ map (Pair i) t)"
  proof (cases "i = 0")
    case True
    then show ?thesis using server_moves [OF S ok] act by simp
  next
    case False
    then have "i \<in> {1..N}" using i S by (auto simp: fifo_state_def)
    from client_moves [OF S ok this act] show ?thesis by blast
  qed
  then obtain q D n cur grant where "fifo_state N pd L q D n cur grant ((tasks S)[i := \<lparr>tcode = p, handles = m\<rparr>]) st fs (prints S @ map (Pair i) t)" by blast
  moreover have "\<forall>f. fst (fifo_settle ms (st, fs)) f = st f \<or> fst (fifo_settle ms (st, fs)) f = []" "snd (fifo_settle ms (st, fs)) = fs" for ms
    by (simp_all add: fifo_settle_def)
  ultimately show ?thesis using fifo_state_settle unfolding fifo_inv_def s by simp metis
qed

interpretation service: schedule_invariant fifo_answer "[]" fifo_settle pids
  "\<lambda>S. clients_ok N (\<lambda>i. pids ! i) L \<and> fifo_inv N (\<lambda>i. pids ! i) L S" for pids N L
  by unfold_locales (blast intro: fifo_inv_act)

lemma fifo_inv_boot:
  assumes ok: "clients_ok N pd L" and N: "N = length argvs" and L: "\<forall>i\<in>{1..N}. L i = wanted (argvs ! (i - 1))"
  shows "fifo_inv N pd L (fifo_boot fs n argvs)"
proof -
  have "client_in (pd i) (L i) False None \<lparr>tcode = fifo_client_main (argvs ! (i - 1)), handles = []\<rparr> fs" if "i \<in> {1..N}" for i
    using client_lead_in [of "pd i" "argvs ! (i - 1)"] client_creates [of "pd i" "argvs ! (i - 1)"] that ok L
    by (auto simp: client_in_def client_at_def file_at_def clients_ok_def)
  moreover have "tasks (fifo_boot fs n argvs) ! i = \<lparr>tcode = fifo_client_main (argvs ! (i - 1)), handles = []\<rparr>" if "i \<in> {1..N}" for i
    using that N by (cases i) (auto simp: fifo_boot_def sched_boot_def)
  ultimately have "fifo_state N pd L [] {} 0 None (\<lambda>_. None) (tasks (fifo_boot fs n argvs)) (\<lambda>_. []) fs []"
    using N sv_starting [OF server_lead_in] by (simp add: fifo_state_def ledger_start queued_def mail_def involved_def fifo_boot_def sched_boot_def)
  moreover have "store (fifo_boot fs n argvs) = (\<lambda>_. [])" "prints (fifo_boot fs n argvs) = []" "files (fifo_boot fs n argvs) = fs" by (simp_all add: fifo_boot_def sched_boot_def)
  ultimately show ?thesis unfolding fifo_inv_def by metis
qed

lemma server_not_undefined: "server_at self cur s p m \<Longrightarrow> p \<noteq> Halt Undefined"
proof (induction rule: server_at.induct)
  case (sv_looping sfd m n s p)
  have "fifo_server_loop n sfd s \<noteq> Halt Undefined" by (cases n) auto
  then show ?case using sv_looping(2) by (auto elim: lead_in.cases)
qed (auto simp: sv_start_def sv_dummy_def sv_open_def sv_write_def sv_close_def elim: lead_in.cases)

lemma clients_ok_argvs:
  assumes "length pids = Suc (length argvs)" and "distinct (tl pids)" and "\<forall>p\<in>set (tl pids). INT_MIN \<le> p \<and> p \<le> INT_MAX"
    and "\<forall>argv\<in>set argvs. 0 \<le> wanted argv" and "sum_list (map wanted argvs) \<le> INT_MAX"
  shows "clients_ok (length argvs) (\<lambda>i. pids ! i) (\<lambda>i. wanted (argvs ! (i - 1)))"
proof -
  let ?N = "length argvs" and ?L = "\<lambda>i. wanted (argvs ! (i - 1))"
  have nth: "pids ! i = tl pids ! (i - 1)" if "i \<in> {1..?N}" for i
    using that assms(1) by (cases pids; cases i) auto
  have shift: "{1..?N} = Suc ` {0..<?N}" by (simp add: atLeastLessThanSuc_atLeastAtMost)
  have "inj_on (\<lambda>i. pids ! i) {1..?N}"
    using assms(1,2) by (auto simp: inj_on_def nth nth_eq_iff_index_eq)
  moreover have "sum ?L {1..?N} = sum_list (map wanted argvs)"
    unfolding shift by (subst sum.reindex) (simp_all add: sum_list_sum_nth)
  moreover have "\<forall>i\<in>{1..?N}. INT_MIN \<le> pids ! i \<and> pids ! i \<le> INT_MAX \<and> 0 \<le> ?L i"
    using assms(1,3,4) by (auto simp: nth)
  ultimately show ?thesis using assms(5) by (simp add: clients_ok_def)
qed

lemma fifo_service_inv:
  assumes "fifo_run pids mvs (fifo_boot fs n argvs) = Some S"
    and ok: "clients_ok (length argvs) (\<lambda>i. pids ! i) (\<lambda>i. wanted (argvs ! (i - 1)))"
  shows "fifo_inv (length argvs) (\<lambda>i. pids ! i) (\<lambda>i. wanted (argvs ! (i - 1))) S"
  using service.run [OF assms(1) [unfolded fifo_run_def]] fifo_inv_boot [OF ok] ok by simp

text \<open>
  (C4) The FIFO sequence-number service as a whole, the server and any number of clients running at
  the same time: whatever the schedule, whatever calls fail and whichever processes are killed
  meanwhile, two clients never print numbers of overlapping ranges. Everything a client prints on
  its standard output is one number, the start of a range of the length it asked for within the
  numbers that the counter can represent. The server never overflows its counter. (The clients
  have different pids, ask for lengths that are not negative, and these sum up to an int.)
\<close>

theorem fifo_service_exclusive:
  assumes "fifo_run pids mvs (fifo_boot fs n argvs) = Some S"
    and "length pids = Suc (length argvs)" and "distinct (tl pids)" and "\<forall>p\<in>set (tl pids). INT_MIN \<le> p \<and> p \<le> INT_MAX"
    and "\<forall>argv\<in>set argvs. 0 \<le> wanted argv" and "sum_list (map wanted argvs) \<le> INT_MAX"
  shows "(\<forall>i x. (i, Stdout, x) \<in> set (prints S) \<longrightarrow> (\<exists>a. x = show_int a @ [NL] \<and> {a..<a + wanted (argvs ! (i - 1))} \<subseteq> {0..INT_MAX})) \<and>
    (\<forall>i j a b. i \<noteq> j \<and> (i, Stdout, show_int a @ [NL]) \<in> set (prints S) \<and> (j, Stdout, show_int b @ [NL]) \<in> set (prints S) \<longrightarrow>
       {a..<a + wanted (argvs ! (i - 1))} \<inter> {b..<b + wanted (argvs ! (j - 1))} = {}) \<and>
    tcode (tasks S ! 0) \<noteq> Halt Undefined"
proof -
  let ?N = "length argvs" and ?pd = "\<lambda>i. pids ! i" and ?L = "\<lambda>i. wanted (argvs ! (i - 1))"
  note ok = clients_ok_argvs [OF assms(2-6)]
  obtain q D s cur grant where "fifo_state ?N ?pd ?L q D s cur grant (tasks S) (store S) (files S) (prints S)"
    using fifo_service_inv [OF assms(1) ok] unfolding fifo_inv_def by blast
  then have led: "ledger ?N ?L q D s cur grant"
    and sv: "server_at (?pd 0) (map_option (\<lambda>c. (?pd c, ?L c)) cur) s (tcode (tasks S ! 0)) (handles (tasks S ! 0))"
    and pr: "\<And>i x. (i, Stdout, x) \<in> set (prints S) \<Longrightarrow> \<exists>a. grant i = Some a \<and> x = show_int a @ [NL]"
    unfolding fifo_state_def by blast+
  have range: "{a..<a + ?L i} \<subseteq> {0..INT_MAX}" if "grant i = Some a" for i a
  proof -
    have "0 \<le> a" "a + ?L i \<le> s" using led that unfolding ledger_def by blast+
    then show ?thesis using ledger_bound(2) [OF led ok] by auto
  qed
  have disj: "{a..<a + ?L i} \<inter> {b..<b + ?L j} = {}" if "i \<noteq> j" "grant i = Some a" "grant j = Some b" for i j a b
    using led that unfolding ledger_def by blast
  show ?thesis
  proof (intro conjI allI impI)
    fix i x assume "(i, Stdout, x) \<in> set (prints S)"
    then show "\<exists>a. x = show_int a @ [NL] \<and> {a..<a + ?L i} \<subseteq> {0..INT_MAX}" using pr range by metis
  next
    fix i j a b
    assume A: "i \<noteq> j \<and> (i, Stdout, show_int a @ [NL]) \<in> set (prints S) \<and> (j, Stdout, show_int b @ [NL]) \<in> set (prints S)"
    then have "grant i = Some a" "grant j = Some b" using pr by fastforce+
    then show "{a..<a + ?L i} \<inter> {b..<b + ?L j} = {}" using disj A by blast
  qed (rule server_not_undefined [OF sv])
qed

text \<open>Two clients, of which the second is served first although the first one started before it.\<close>

definition two_clients :: "(nat \<times> move) list" where
  "two_clients = map (\<lambda>(i, r). (i, Answer r))
    ([(0, ok 0), (0, ok 0), (0, ok 3), (0, ok 4), (0, ok 0),
      (1, ok 0), (2, ok 0), (1, ok 11), (2, ok 12), (1, ok 0), (2, ok 0), (1, ok 0), (2, ok 0), (1, ok 11), (2, ok 12),
      (1, ok 3), (2, ok 3), (2, ok 8), (1, ok 8), (1, ok 4), (2, ok 4),
      (0, got (request_bytes \<lparr>pid = 12, seqLen = 1\<rparr>)), (0, ok 5), (0, ok 4), (0, ok 0),
      (0, got (request_bytes \<lparr>pid = 11, seqLen = 4\<rparr>)), (0, ok 5), (0, ok 4), (0, ok 0),
      (1, got (int_bytes 1)), (2, got (int_bytes 0)), (1, ok 0), (2, ok 0), (1, ok 0), (2, ok 0)])"

lemma two_clients_run:
  "map_option prints (fifo_run [10, 11, 12] two_clients (fifo_boot {} 9 [[''client'', ''4''], [''client'']])) =
   Some [(1, Stdout, ''1\<newline>''), (2, Stdout, ''0\<newline>'')]"
  by code_simp

lemma wanted_two_clients: "wanted [''client'', ''4''] = 4" "wanted [''client''] = 1"
  by code_simp+

lemma two_clients_ok:
  "\<forall>argv\<in>set [[''client'', ''4''], [''client'']]. 0 \<le> wanted argv" "sum_list (map wanted [[''client'', ''4''], [''client'']]) \<le> INT_MAX"
  "\<forall>p\<in>set (tl [10, 11, 12]). INT_MIN \<le> p \<and> p \<le> INT_MAX"
  by (simp_all add: wanted_two_clients int_limits)

lemma fifo_service_exclusive_witness:
  "\<exists>S. fifo_run [10, 11, 12] two_clients (fifo_boot {} 9 [[''client'', ''4''], [''client'']]) = Some S \<and>
    prints S = [(1, Stdout, ''1\<newline>''), (2, Stdout, ''0\<newline>'')] \<and> {1..<1 + 4} \<inter> {0..<0 + 1 :: int} = {} \<and> tcode (tasks S ! 0) \<noteq> Halt Undefined"
proof -
  let ?argvs = "[[''client'', ''4''], [''client'']]"
  obtain S where S: "fifo_run [10, 11, 12] two_clients (fifo_boot {} 9 ?argvs) = Some S" "prints S = [(1, Stdout, ''1\<newline>''), (2, Stdout, ''0\<newline>'')]"
    using two_clients_run by auto
  have n: "show_int 1 = ''1''" "show_int 0 = ''0''" by code_simp+
  have "length [10, 11, 12 :: int] = Suc (length ?argvs)" "distinct (tl [10, 11, 12 :: int])" by simp_all
  note all = fifo_service_exclusive [OF S(1) this two_clients_ok(3,1,2), THEN conjunct2]
  have "(1, Stdout, show_int 1 @ [NL]) \<in> set (prints S)" "(2, Stdout, show_int 0 @ [NL]) \<in> set (prints S)"
    by (simp_all add: S(2) n)
  then have "{1..<1 + wanted (?argvs ! (1 - 1))} \<inter> {0..<0 + wanted (?argvs ! (2 - 1))} = {}"
    by (intro conjunct1 [OF all, rule_format, of 1 2 1 0]) simp
  moreover have "tcode (tasks S ! 0) \<noteq> Halt Undefined" by (rule conjunct2 [OF all])
  ultimately show ?thesis using S by (simp add: wanted_two_clients)
qed

text \<open>The server opens a FIFO of a client only while it is occupied with a request of that client.\<close>

fun opens :: "prog \<Rightarrow> string option" where
  "opens (Call (Io (Open f fl md)) k) = Some f"
| "opens _ = None"

lemma opens_Some: "opens p = Some f \<Longrightarrow> \<exists>fl md k. p = Call (Io (Open f fl md)) k"
  by (cases p rule: opens.cases) auto

lemma server_opens:
  assumes at: "server_at self cur s p m" and "opens p = Some f" and "f \<noteq> SERVER_FIFO"
  obtains i len where "cur = Some (i, len)" and "f = client_fifo i"
proof -
  obtain fl md k where p: "p = Call (Io (Open f fl md)) k" using opens_Some [OF assms(2)] by blast
  from at [unfolded p] show thesis
  proof (cases rule: server_at.cases)
    case (sv_looping sfd n)
    then have "fifo_server_loop n sfd s = Call (Io (Open f fl md)) k" by (blast dest: lead_in_Io)
    then show ?thesis by (cases n) auto
  qed (use assms(3) that in \<open>auto simp: sv_start_def sv_dummy_def sv_open_def sv_write_def sv_close_def dest!: lead_in_Io\<close>)
qed

text \<open>
  (C5) A client creates its FIFO before it sends its request, to avoid a race: whatever the
  schedule and the failures, when the server is about to open a FIFO other than its own, that is
  the FIFO of one of the clients, and it exists unless that client has already ended (it was
  killed, or it gave up and removed it).
\<close>

theorem fifo_no_race:
  assumes "fifo_run pids mvs (fifo_boot fs n argvs) = Some S"
    and "length pids = Suc (length argvs)" and "distinct (tl pids)" and "\<forall>p\<in>set (tl pids). INT_MIN \<le> p \<and> p \<le> INT_MAX"
    and "\<forall>argv\<in>set argvs. 0 \<le> wanted argv" and "sum_list (map wanted argvs) \<le> INT_MAX"
    and "opens (tcode (tasks S ! 0)) = Some f" and "f \<noteq> SERVER_FIFO"
  shows "\<exists>i\<in>{1..length argvs}. f = client_fifo (pids ! i) \<and> (f \<in> files S \<or> (\<exists>out. tcode (tasks S ! i) = Halt out))"
proof -
  let ?L = "\<lambda>i. wanted (argvs ! (i - 1))"
  obtain q D s cur grant where S: "fifo_state (length argvs) (\<lambda>i. pids ! i) ?L q D s cur grant (tasks S) (store S) (files S) (prints S)"
    using fifo_service_inv [OF assms(1) clients_ok_argvs [OF assms(2-6)]] unfolding fifo_inv_def by blast
  then have "server_at (pids ! 0) (map_option (\<lambda>c. (pids ! c, ?L c)) cur) s (tcode (tasks S ! 0)) (handles (tasks S ! 0))"
    by (simp add: fifo_state_def)
  then obtain i where i: "cur = Some i" "f = client_fifo (pids ! i)"
    using assms(8) by (auto elim!: server_opens [OF _ assms(7)])
  then have "i \<in> {1..length argvs}" using S by (auto simp: fifo_state_def ledger_def)
  moreover from this have "client_in (pids ! i) (?L i) (involved q D cur i) (grant i) (tasks S ! i) (files S)"
    using S by (simp add: fifo_state_def)
  then have "file_at f (pids ! i) (?L i) True (tcode (tasks S ! i)) (files S)" by (simp add: client_in_def involved_def i)
  ultimately show ?thesis using i by (auto simp: file_at_def)
qed

lemma two_clients_opens:
  "map_option (\<lambda>S. opens (tcode (tasks S ! 0))) (fifo_run [10, 11, 12] (take 22 two_clients) (fifo_boot {} 9 [[''client'', ''4''], [''client'']])) =
   Some (Some (client_fifo 12))"
  by code_simp

lemma fifo_no_race_witness:
  "\<exists>S. fifo_run [10, 11, 12] (take 22 two_clients) (fifo_boot {} 9 [[''client'', ''4''], [''client'']]) = Some S \<and>
    opens (tcode (tasks S ! 0)) = Some (client_fifo 12) \<and>
    (client_fifo 12 \<in> files S \<or> (\<exists>i\<in>{1..2}. \<exists>out. tcode (tasks S ! i) = Halt out))"
proof -
  let ?argvs = "[[''client'', ''4''], [''client'']]"
  obtain S where S: "fifo_run [10, 11, 12] (take 22 two_clients) (fifo_boot {} 9 ?argvs) = Some S" "opens (tcode (tasks S ! 0)) = Some (client_fifo 12)"
    using two_clients_opens by auto
  have "length [10, 11, 12 :: int] = Suc (length ?argvs)" "distinct (tl [10, 11, 12 :: int])" by simp_all
  from fifo_no_race [OF S(1) this two_clients_ok(3,1,2) S(2)] show ?thesis using S by auto
qed

end
