(* ===== verification/Sem_System.thy ===== *)
theory Sem_System
  imports Shared_Mem Schedules
begin

text \<open>
  Named semaphores shared by processes that run at the same time: any number of psem\_post.c,
  psem\_wait.c and psem\_getvalue.c (src/posix\_semaphores), complete from main on, on one semaphore,
  beside any other programs that leave this semaphore alone, such as psem\_create.c and psem\_unlink.c for
  other names. They are driven by a schedule in the sense of \<open>Schedules\<close>.

  The system keeps which name stands for which semaphore, the values of the semaphores, and for
  each process the semaphores it has opened. A wait succeeds only when the value is positive, and
  then takes one from it in the same step; a post adds one, unless the value is the largest possible
  one. Every call may fail at any time; so a wait may be interrupted, and a process that waits is one
  that the schedule does not choose.
\<close>

section \<open>The system\<close>

type_synonym sem_tab = "(int \<times> nat) list"
type_synonym sems = "(string \<Rightarrow> nat option) \<times> nat list"

definition SEM_VALUE_MAX :: int where "SEM_VALUE_MAX = INT_MAX"

fun sem_answer :: "(sem_tab, sems) answers" where
  "sem_answer self hs (names, vals) (Proc Getpid) r = (if rv r = self then Some (hs, names, vals) else None)"
| "sem_answer self hs (names, vals) (Ipc (Sem_open name fl md v)) r =
     (if rv r = -1 then Some (hs, names, vals)
      else case names name of
        Some x \<Rightarrow>
          if (fl AND O_CREAT = 0 \<or> fl AND O_EXCL = 0) \<and> (rv r \<notin> fst ` set hs \<or> map_of hs (rv r) = Some x)
          then Some ((rv r, x) # hs, names, vals) else None
      | None \<Rightarrow>
          if fl AND O_CREAT \<noteq> 0 \<and> 0 \<le> v \<and> v \<le> SEM_VALUE_MAX \<and> rv r \<notin> fst ` set hs
          then Some ((rv r, length vals) # hs, names(name \<mapsto> length vals), vals @ [nat v]) else None)"
| "sem_answer self hs (names, vals) (Ipc (Sem_unlink name)) r =
     (if rv r = -1 then Some (hs, names, vals)
      else if rv r = 0 \<and> names name \<noteq> None then Some (hs, names(name := None), vals) else None)"
| "sem_answer self hs (names, vals) (Ipc (Sem_post h)) r =
     (case map_of hs h of
        None \<Rightarrow> if rv r = -1 then Some (hs, names, vals) else None
      | Some x \<Rightarrow>
          if rv r = -1 then Some (hs, names, vals)
          else if rv r = 0 \<and> int (vals ! x) < SEM_VALUE_MAX then Some (hs, names, vals[x := Suc (vals ! x)]) else None)"
| "sem_answer self hs (names, vals) (Ipc (Sem_wait h)) r =
     (case map_of hs h of
        None \<Rightarrow> if rv r = -1 then Some (hs, names, vals) else None
      | Some x \<Rightarrow>
          if rv r = -1 then Some (hs, names, vals)
          else if rv r = 0 \<and> 0 < vals ! x then Some (hs, names, vals[x := vals ! x - 1]) else None)"
| "sem_answer self hs (names, vals) (Ipc (Sem_getvalue h)) r =
     (case map_of hs h of
        None \<Rightarrow> if rv r = -1 then Some (hs, names, vals) else None
      | Some x \<Rightarrow> if rv r = -1 \<or> rv r = 0 \<and> ints r = [int (vals ! x)] then Some (hs, names, vals) else None)"
| "sem_answer self hs s c r = Some (hs, s)"

abbreviation sem_act :: "int \<Rightarrow> move \<Rightarrow> prog \<Rightarrow> sem_tab \<Rightarrow> sems \<Rightarrow> (prog \<times> sem_tab \<times> sems \<times> (port \<times> string) list) option" where
  "sem_act \<equiv> sched_act sem_answer []"

text \<open>A semaphore keeps its value when nobody has it open.\<close>

definition sem_run :: "int list \<Rightarrow> (nat \<times> move) list \<Rightarrow> (sem_tab, sems) sched \<Rightarrow> (sem_tab, sems) sched option" where
  "sem_run = sched_run sem_answer [] (\<lambda>_ s. s)"

text \<open>What the processes do with the semaphore in question.\<close>

datatype sem_job = Posts | Waits | Reads | Apart prog

fun job_prog :: "string \<Rightarrow> sem_job \<Rightarrow> prog" where
  "job_prog name Posts = psem_post_main [''psem_post'', name]"
| "job_prog name Waits = psem_wait_main [''psem_wait'', name]"
| "job_prog name Reads = psem_getvalue_main [''psem_getvalue'', name]"
| "job_prog name (Apart p) = p"

definition sem_boot :: "string \<Rightarrow> sem_job list \<Rightarrow> sems \<Rightarrow> (sem_tab, sems) sched" where
  "sem_boot name jobs s = sched_boot [] s (map (job_prog name) jobs)"

section \<open>Code and the calls it makes\<close>

text \<open>
  \<open>foreign name p\<close>: whatever the answers, \<open>p\<close> neither opens nor removes the semaphore \<open>name\<close>, nor
  does it fork. \<open>spent W Q p\<close>: \<open>p\<close> makes no calls on semaphores, prints on ports in \<open>W\<close> only, and ends with
  an outcome in \<open>Q\<close>.
\<close>

definition leaves_alone :: "string \<Rightarrow> syscall \<Rightarrow> bool" where
  "leaves_alone name c = ((\<forall>fl md v. c \<noteq> Ipc (Sem_open name fl md v)) \<and> c \<noteq> Ipc (Sem_unlink name) \<and> c \<noteq> Proc Fork)"

primrec foreign :: "string \<Rightarrow> prog \<Rightarrow> bool" where
  "foreign name (Halt out) = True"
| "foreign name (Put q s p) = foreign name p"
| "foreign name (Call c f) = (leaves_alone name c \<and> (\<forall>r. foreign name (f r)))"

primrec spent :: "(port \<Rightarrow> bool) \<Rightarrow> (outcome \<Rightarrow> bool) \<Rightarrow> prog \<Rightarrow> bool" where
  "spent W Q (Halt out) = Q out"
| "spent W Q (Put q s p) = (W q \<and> spent W Q p)"
| "spent W Q (Call c f) = ((\<forall>i. c \<noteq> Ipc i) \<and> (\<forall>r. spent W Q (f r)))"

lemma answer_no_sem: "\<forall>i. c \<noteq> Ipc i \<Longrightarrow> sem_answer self hs s c r = Some (hs', s') \<Longrightarrow> s' = s"
  by (cases "(self, hs, s, c, r)" rule: sem_answer.cases) (auto split: if_splits)

lemma spent_act:
  assumes "spent W Q p" and "Q Aborted" and "sem_act self mv p hs s = Some (p', hs', s', t)"
  shows "spent W Q p' \<and> s' = s \<and> (\<forall>q x. (q, x) \<in> set t \<longrightarrow> W q)"
  using assms by (cases "(sem_answer, [] :: sem_tab, self, mv, p, hs, s)" rule: sched_act.cases)
    (auto split: option.splits dest: answer_no_sem)

text \<open>What a step of foreign code leaves as it is.\<close>

lemma foreign_answer:
  assumes "leaves_alone name c" and "sem_answer self hs (names, vals) c r = Some (hs', names', vals')"
    and "names name = Some x" and "\<forall>n. n \<noteq> name \<longrightarrow> names n \<noteq> Some x" and "x < length vals" and "x \<notin> snd ` set hs"
  shows "names' name = Some x \<and> (\<forall>n. n \<noteq> name \<longrightarrow> names' n \<noteq> Some x) \<and> x < length vals' \<and> vals' ! x = vals ! x \<and> x \<notin> snd ` set hs'"
proof -
  have no: "map_of hs h \<noteq> Some x" for h using assms(6) map_of_SomeD [of hs h x] by force
  have keep: "vals[y := w] ! x = vals ! x" if "map_of hs h = Some y" for h y w
    using that no [of h] by (cases "y = x") auto
  show ?thesis
  proof (cases "\<exists>n fl md v. c = Ipc (Sem_open n fl md v)")
    case True
    then obtain n fl md v where c: "c = Ipc (Sem_open n fl md v)" by blast
    then have n: "n \<noteq> name" using assms(1) by (auto simp: leaves_alone_def)
    show ?thesis
    proof (cases "names n")
      case None
      then have "(hs' = hs \<or> hs' = (rv r, length vals) # hs) \<and> (names' = names \<or> names' = names(n \<mapsto> length vals)) \<and> (vals' = vals \<or> vals' = vals @ [nat v])"
        using assms(2) unfolding c sem_answer.simps by (simp split: if_splits)
      then show ?thesis using assms(3-6) n by (elim conjE disjE) (simp_all add: nth_append)
    next
      case (Some y)
      then have "y \<noteq> x" using assms(4) n by blast
      moreover have "(hs' = hs \<or> hs' = (rv r, y) # hs) \<and> names' = names \<and> vals' = vals"
        using assms(2) Some unfolding c sem_answer.simps by (simp split: if_splits)
      ultimately show ?thesis using assms(3-6) by auto
    qed
  next
    case False
    then show ?thesis using assms no keep
      by (cases "(self, hs, (names, vals), c, r)" rule: sem_answer.cases)
         (simp_all add: leaves_alone_def split: if_splits option.splits, safe, simp_all split: if_splits)
  qed
qed

section \<open>The processes\<close>

definition post_at :: "int \<Rightarrow> prog" where
  "post_at h = Call (Ipc (Sem_post h)) (\<lambda>v. if rv v = -1 then perror ''sem_post'' (exit 1) else exit 0)"

definition wait_at :: "int \<Rightarrow> prog" where
  "wait_at h = Call (Ipc (Sem_wait h)) (\<lambda>v.
     if rv v = -1 then perror ''sem_wait'' (exit 1)
     else Call (Proc Getpid) (\<lambda>p. printf (show_int (rv p) @ '' sem_wait() succedded\<newline>'') (exit 0)))"

definition read_at :: "int \<Rightarrow> prog" where
  "read_at h = Call (Ipc (Sem_getvalue h)) (\<lambda>v.
     if rv v = -1 then perror ''sem_getvalue'' (exit 1) else printf (show_int (ints v ! 0) @ [NL]) (exit 0))"

abbreviation failing :: "prog \<Rightarrow> bool" where
  "failing \<equiv> spent (\<lambda>q. q \<noteq> Stdout) (\<lambda>out. out = Exited 1 \<or> out = Aborted)"

abbreviation succeeding :: "prog \<Rightarrow> bool" where
  "succeeding \<equiv> spent (\<lambda>_. True) (\<lambda>out. out = Exited 0 \<or> out = Aborted)"

fun job_calls :: "sem_job \<Rightarrow> int \<Rightarrow> prog" where
  "job_calls Posts = post_at"
| "job_calls Waits = wait_at"
| "job_calls Reads = read_at"
| "job_calls (Apart p) = (\<lambda>h. p)"

lemma job_prog_eq:
  "job = Posts \<or> job = Waits \<or> job = Reads \<Longrightarrow>
   job_prog name job = Call (sem_open name) (\<lambda>s. if rv s = -1 then perror ''sem_open'' (exit 1) else job_calls job (rv s)) \<or>
   failing (job_prog name job)"
  by (auto simp: psem_post_main_def psem_wait_main_def psem_getvalue_main_def post_at_def wait_at_def read_at_def cong: if_cong)

text \<open>
  Where a process is. It has not begun, it has the semaphore \<open>x\<close> open and is at its call on it, or it is
  past that: \<open>dn\<close> says that it has changed the value. \<open>B\<close> bounds the value of the semaphore.
\<close>

definition job_at :: "string \<Rightarrow> nat \<Rightarrow> nat \<Rightarrow> sem_job \<Rightarrow> bool \<Rightarrow> prog \<Rightarrow> sem_tab \<Rightarrow> bool" where
  "job_at name x B job dn p hs =
     (case job of
        Apart q \<Rightarrow> \<not> dn \<and> foreign name p \<and> x \<notin> snd ` set hs
      | _ \<Rightarrow>
        \<not> dn \<and> hs = [] \<and> p = job_prog name job \<or>
        \<not> dn \<and> (\<exists>h. hs = [(h, x)] \<and> p = job_calls job h) \<or>
        \<not> dn \<and> failing p \<or>
        dn \<and> job \<noteq> Reads \<and> succeeding p \<or>
        \<not> dn \<and> job = Reads \<and> (\<exists>v \<le> B. p = printf (show_int (int v) @ [NL]) (exit 0)) \<or>
        \<not> dn \<and> job = Reads \<and> (\<exists>out. p = Halt out))"

definition sem_ok :: "string \<Rightarrow> nat \<Rightarrow> sems \<Rightarrow> bool" where
  "sem_ok name x = (\<lambda>(names, vals). names name = Some x \<and> (\<forall>n. n \<noteq> name \<longrightarrow> names n \<noteq> Some x) \<and> x < length vals)"

lemma job_at_aborted: "\<forall>q. job \<noteq> Apart q \<Longrightarrow> job_at name x B job dn (Halt Aborted) hs \<or> dn \<and> job = Reads"
  by (cases job; cases dn) (auto simp: job_at_def)

lemma job_at_failing: "\<forall>q. job \<noteq> Apart q \<Longrightarrow> failing p \<Longrightarrow> job_at name x B job False p hs"
  by (cases job) (auto simp: job_at_def)

lemma foreign_act:
  assumes "foreign name p" and "x \<notin> snd ` set hs" and "sem_ok name x s" and "sem_act self mv p hs s = Some (p', hs', s', t)"
  shows "foreign name p' \<and> x \<notin> snd ` set hs' \<and> sem_ok name x s' \<and> snd s' ! x = snd s ! x"
proof (cases "\<exists>c f r. mv = Answer r \<and> p = Call c f")
  case True
  then obtain c f r where p: "mv = Answer r" "p = Call c f" by blast
  then obtain names' vals' where a: "sem_answer self hs (fst s, snd s) c r = Some (hs', names', vals')" and s': "s' = (names', vals')" and "p' = f r"
    using assms(4) by (auto split: option.splits)
  moreover have "leaves_alone name c" "foreign name (f r)" using assms(1) p by auto
  ultimately show ?thesis using foreign_answer [OF _ a, of name x] assms(2,3) unfolding sem_ok_def s' by (simp add: case_prod_beta)
next
  case False
  then have "s' = s \<and> foreign name p' \<and> set hs' \<subseteq> set hs"
    using assms(1,4) by (cases "(sem_answer, [] :: sem_tab, self, mv, p, hs, s)" rule: sched_act.cases) auto
  then show ?thesis using assms(2,3) by auto
qed

lemma begin_act:
  assumes "sem_act self (Answer r) (Call (sem_open name) f) [] s = Some (p', hs', s', t)" and "sem_ok name x s"
  shows "s' = s \<and> t = [] \<and> p' = f r \<and> (rv r = -1 \<or> hs' = [(rv r, x)])"
  using assms by (cases s) (auto simp: sem_open_def sem_ok_def split: if_splits)

lemma call_act:
  assumes "sem_act self (Answer r) (job_calls job h) [(h, x)] (names, vals) = Some (p', hs', s', t)" and "\<forall>q. job \<noteq> Apart q"
    and "x < length vals" and "vals ! x \<le> B"
  shows "t = [] \<and> fst s' = names \<and> length (snd s') = length vals \<and>
    (job_at name x B job False p' hs' \<and> snd s' ! x = vals ! x \<or>
     job = Posts \<and> job_at name x B job True p' hs' \<and> snd s' ! x = Suc (vals ! x) \<or>
     job = Waits \<and> job_at name x B job True p' hs' \<and> vals ! x = Suc (snd s' ! x))"
proof (cases job)
  case Posts
  then show ?thesis using assms by (auto simp: post_at_def job_at_def split: if_splits)
next
  case Waits
  then show ?thesis using assms by (auto simp: wait_at_def job_at_def split: if_splits)
next
  case Reads
  then show ?thesis using assms by (auto simp: read_at_def job_at_def split: if_splits)
qed (use assms in auto)

lemma job_act:
  assumes "job_at name x B job dn p hs" and "sem_act self mv p hs s = Some (p', hs', s', t)" and "sem_ok name x s" and "snd s ! x \<le> B"
  shows "sem_ok name x s' \<and>
    (job_at name x B job dn p' hs' \<and> snd s' ! x = snd s ! x \<or>
     \<not> dn \<and> job = Posts \<and> job_at name x B job True p' hs' \<and> snd s' ! x = Suc (snd s ! x) \<or>
     \<not> dn \<and> job = Waits \<and> job_at name x B job True p' hs' \<and> snd s ! x = Suc (snd s' ! x)) \<and>
    (job = Waits \<longrightarrow> (\<forall>y. (Stdout, y) \<in> set t \<longrightarrow> dn)) \<and>
    (job = Reads \<longrightarrow> (\<forall>y. (Stdout, y) \<in> set t \<longrightarrow> (\<exists>v \<le> B. y = show_int (int v) @ [NL])))"
proof (cases "\<exists>q. job = Apart q")
  case True
  then obtain q where "job = Apart q" by blast
  then show ?thesis using assms foreign_act [of name p x hs s self mv p' hs' s' t] by (simp add: job_at_def)
next
  case False
  then have apart: "\<forall>q. job \<noteq> Apart q" by blast
  have past: ?thesis if "spent W Q p" "Q Aborted" "\<And>hs. spent W Q p' \<Longrightarrow> job_at name x B job dn p' hs" "W Stdout \<Longrightarrow> job = Posts \<or> job = Waits \<and> dn" for W Q
    using spent_act [OF that(1,2) assms(2)] that(3) [of hs'] that(4) assms(3) by auto
  have "\<not> dn \<and> hs = [] \<and> p = job_prog name job \<or> \<not> dn \<and> (\<exists>h. hs = [(h, x)] \<and> p = job_calls job h) \<or>
        \<not> dn \<and> failing p \<or> dn \<and> job \<noteq> Reads \<and> succeeding p \<or>
        \<not> dn \<and> job = Reads \<and> (\<exists>v \<le> B. p = printf (show_int (int v) @ [NL]) (exit 0)) \<or>
        \<not> dn \<and> job = Reads \<and> (\<exists>out. p = Halt out)"
    using assms(1) apart by (auto simp: job_at_def split: sem_job.splits)
  then show ?thesis
  proof (elim disjE conjE exE)
    assume P: "\<not> dn" "failing p"
    show ?thesis by (rule past [OF P(2)]) (use P(1) apart job_at_failing in auto)
  next
    assume P: "dn" "job \<noteq> Reads" "succeeding p"
    show ?thesis by (rule past [OF P(3)]) (use P(1,2) apart in \<open>(cases job; auto simp: job_at_def)+\<close>)
  next
    assume P: "\<not> dn" "hs = []" "p = job_prog name job"
    show ?thesis
    proof (cases "failing p")
      case True
      show ?thesis by (rule past [OF True]) (use P(1) apart job_at_failing in auto)
    next
      case False
      let ?f = "\<lambda>s. if rv s = -1 then perror ''sem_open'' (exit 1) else job_calls job (rv s)"
      have p: "p = Call (sem_open name) ?f" using job_prog_eq [of job name] False P(3) apart by (cases job) auto
      show ?thesis
      proof (cases mv)
        case (Answer r)
        have "s' = s \<and> t = [] \<and> p' = ?f r \<and> (rv r = -1 \<or> hs' = [(rv r, x)])"
          using begin_act [OF _ assms(3)] assms(2) unfolding Answer p P(2) by blast
        then show ?thesis using assms(3) P(1) apart by (auto simp: job_at_def split: sem_job.splits)
      next
        case Killed
        then show ?thesis using assms(2,3) P(1) apart job_at_failing [OF apart, of "Halt Aborted"] by (auto simp: p)
      qed
    qed
  next
    fix h assume P: "\<not> dn" "hs = [(h, x)]" "p = job_calls job h"
    show ?thesis
    proof (cases mv)
      case (Answer r)
      obtain names vals where s: "s = (names, vals)" by (cases s)
      from call_act [of self r job h x names vals p' hs' s' t B name] show ?thesis
        using assms(2-4) P apart unfolding Answer s by (auto simp: sem_ok_def)
    next
      case Killed
      have "\<forall>out. p \<noteq> Halt out" using P(3) apart by (cases job) (auto simp: post_at_def wait_at_def read_at_def)
      from sched_act_killed [OF assms(2) [unfolded Killed] this] show ?thesis using assms(3) P(1) job_at_failing [OF apart, of "Halt Aborted"] by auto
    qed
  next
    fix v assume P: "\<not> dn" "job = Reads" "v \<le> B" "p = printf (show_int (int v) @ [NL]) (exit 0)"
    then show ?thesis using assms(2,3) by (cases mv) (auto simp: job_at_def)
  next
    fix out assume "\<not> dn" "job = Reads" "p = Halt out"
    then show ?thesis using assms(2,3) by (auto simp: job_at_def)
  qed
qed

section \<open>The invariant\<close>

text \<open>The processes of a job in a set.\<close>

definition those :: "sem_job list \<Rightarrow> sem_job \<Rightarrow> nat set \<Rightarrow> nat set" where
  "those jobs job D = {i \<in> D. i < length jobs \<and> jobs ! i = job}"

lemma finite_those [simp]: "finite (those jobs job D)"
  by (rule finite_subset [of _ "{..<length jobs}"]) (auto simp: those_def)

lemma card_those_insert:
  "i \<notin> D \<Longrightarrow> i < length jobs \<Longrightarrow> card (those jobs job (insert i D)) = (if jobs ! i = job then Suc (card (those jobs job D)) else card (those jobs job D))"
proof -
  assume A: "i \<notin> D" "i < length jobs"
  have "those jobs job (insert i D) = (if jobs ! i = job then insert i (those jobs job D) else those jobs job D)"
    using A by (auto simp: those_def)
  then show ?thesis using A(1) by (simp add: those_def)
qed

definition sem_inv :: "string \<Rightarrow> nat \<Rightarrow> nat \<Rightarrow> sem_job list \<Rightarrow> nat set \<Rightarrow> (sem_tab, sems) sched \<Rightarrow> bool" where
  "sem_inv name x v jobs D S =
     (length (tasks S) = length jobs \<and> sem_ok name x (shared S) \<and>
      snd (shared S) ! x + card (those jobs Waits D) = v + card (those jobs Posts D) \<and>
      (\<forall>i < length jobs. job_at name x (v + card (those jobs Posts UNIV)) (jobs ! i) (i \<in> D) (tcode (tasks S ! i)) (handles (tasks S ! i))) \<and>
      (\<forall>i y. (i, Stdout, y) \<in> set (prints S) \<longrightarrow> i < length jobs \<and> (jobs ! i = Waits \<longrightarrow> i \<in> D) \<and>
         (jobs ! i = Reads \<longrightarrow> (\<exists>w \<le> v + card (those jobs Posts UNIV). y = show_int (int w) @ [NL]))))"

lemma sem_inv_act:
  assumes inv: "sem_inv name x v jobs D S" and i: "i < length (tasks S)"
    and act: "sem_act self mv (tcode (tasks S ! i)) (handles (tasks S ! i)) (shared S) = Some (p, hs, s, t)"
  shows "\<exists>D. sem_inv name x v jobs D \<lparr>tasks = (tasks S)[i := \<lparr>tcode = p, handles = hs\<rparr>], shared = s, prints = prints S @ map (Pair i) t\<rparr>"
proof -
  let ?S = "\<lparr>tasks = (tasks S)[i := \<lparr>tcode = p, handles = hs\<rparr>], shared = s, prints = prints S @ map (Pair i) t\<rparr>"
  let ?B = "v + card (those jobs Posts UNIV)" and ?x = "snd (shared S) ! x" and ?x' = "snd s ! x"
  have len: "length (tasks S) = length jobs" and sum: "?x + card (those jobs Waits D) = v + card (those jobs Posts D)"
    using inv by (auto simp: sem_inv_def)
  have il: "i < length jobs" using i len by simp
  have "card (those jobs Posts D) \<le> card (those jobs Posts UNIV)" by (rule card_mono) (auto simp: those_def)
  then have "?x \<le> ?B" using sum by linarith
  moreover have "job_at name x ?B (jobs ! i) (i \<in> D) (tcode (tasks S ! i)) (handles (tasks S ! i))" "sem_ok name x (shared S)"
    using inv il by (auto simp: sem_inv_def)
  ultimately have ok: "sem_ok name x s" and
    out: "jobs ! i = Waits \<Longrightarrow> (Stdout, y) \<in> set t \<Longrightarrow> i \<in> D" "jobs ! i = Reads \<Longrightarrow> (Stdout, y) \<in> set t \<Longrightarrow> \<exists>w \<le> ?B. y = show_int (int w) @ [NL]" and
    moved: "job_at name x ?B (jobs ! i) (i \<in> D) p hs \<and> ?x' = ?x \<or>
      i \<notin> D \<and> jobs ! i = Posts \<and> job_at name x ?B (jobs ! i) True p hs \<and> ?x' = Suc ?x \<or>
      i \<notin> D \<and> jobs ! i = Waits \<and> job_at name x ?B (jobs ! i) True p hs \<and> ?x = Suc ?x'" for y
    using job_act [OF _ act] by blast+
  have new: "sem_inv name x v jobs D' ?S"
    if "?x' + card (those jobs Waits D') = v + card (those jobs Posts D')" "job_at name x ?B (jobs ! i) (i \<in> D') p hs" "D' = D \<or> D' = insert i D" for D'
    using inv that ok out len il by (auto simp: sem_inv_def nth_list_update)
  from moved consider (same) "job_at name x ?B (jobs ! i) (i \<in> D) p hs" "?x' = ?x"
    | (changed) "i \<notin> D" "job_at name x ?B (jobs ! i) True p hs" "jobs ! i = Posts \<and> ?x' = Suc ?x \<or> jobs ! i = Waits \<and> ?x = Suc ?x'"
    by blast
  then show ?thesis
  proof cases
    case same
    then show ?thesis using new [of D] sum by auto
  next
    case changed
    then have "?x' + card (those jobs Waits (insert i D)) = v + card (those jobs Posts (insert i D))"
      using sum by (auto simp: card_those_insert [OF _ il])
    then show ?thesis using new [of "insert i D"] changed(2) by auto
  qed
qed

interpretation semaphore: schedule_invariant sem_answer "[]" "\<lambda>_ s. s" pids "\<lambda>S. \<exists>D. sem_inv name x v jobs D S" for pids name x v jobs
  by unfold_locales (blast intro: sem_inv_act)

lemma sem_inv_boot:
  assumes "sem_ok name x s" and "\<forall>q. Apart q \<in> set jobs \<longrightarrow> foreign name q"
  shows "sem_inv name x (snd s ! x) jobs {} (sem_boot name jobs s)"
proof -
  have "job_at name x B (jobs ! i) False (job_prog name (jobs ! i)) []" if "i < length jobs" for i B
    using assms(2) nth_mem [OF that] by (cases "jobs ! i") (auto simp: job_at_def)
  then show ?thesis using assms(1) by (simp add: sem_inv_def sem_boot_def sched_boot_def those_def)
qed

lemma job_at_exit:
  assumes "job_at name x B job dn p hs" and "job = Posts \<or> job = Waits"
  shows "p = Halt (Exited 0) \<Longrightarrow> dn" "p = Halt (Exited 1) \<Longrightarrow> \<not> dn"
  using assms
  by (auto simp: job_at_def psem_post_main_def psem_wait_main_def post_at_def wait_at_def split: if_splits)

text \<open>
  (C14) Semaphores under concurrency. Any number of processes run psem\_post.c, psem\_wait.c and
  psem\_getvalue.c on one semaphore, beside any other programs that leave it alone, under any schedule,
  with any calls failing and any processes killed. Then a wait never gets through without a unit:
  the value and the waits that were announced as successful never exceed the initial value and the
  posts that did not fail. Once all posting and waiting processes have ended by themselves, nothing is lost
  either: the value and the successful waits add up to the initial value and the successful posts.
  And psem\_getvalue.c prints a value between zero and the initial value plus the number of posts.
\<close>

theorem semaphore_conserved:
  assumes "sem_run pids mvs (sem_boot name jobs (names, vals)) = Some S"
    and "names name = Some x" and "\<forall>n. n \<noteq> name \<longrightarrow> names n \<noteq> Some x" and "x < length vals"
    and "\<forall>q. Apart q \<in> set jobs \<longrightarrow> foreign name q"
  shows "let value = snd (shared S) ! x;
      exits = (\<lambda>k i. tcode (tasks S ! i) = Halt (Exited k));
      announced = (\<lambda>i. \<exists>y. (i, Stdout, y) \<in> set (prints S));
      number = (\<lambda>job P. card {i. i < length jobs \<and> jobs ! i = job \<and> P i})
    in value + number Waits announced \<le> vals ! x + number Posts (\<lambda>i. \<not> exits 1 i) \<and>
      ((\<forall>i < length jobs. jobs ! i = Posts \<or> jobs ! i = Waits \<longrightarrow> exits 0 i \<or> exits 1 i) \<longrightarrow>
         value + number Waits (exits 0) = vals ! x + number Posts (exits 0)) \<and>
      (\<forall>i y. i < length jobs \<and> jobs ! i = Reads \<and> (i, Stdout, y) \<in> set (prints S) \<longrightarrow>
         (\<exists>w \<le> vals ! x + number Posts (\<lambda>_. True). y = show_int (int w) @ [NL]))"
proof -
  let ?exits = "\<lambda>k i. tcode (tasks S ! i) = Halt (Exited k)" and ?announced = "\<lambda>i. \<exists>y. (i, Stdout, y) \<in> set (prints S)"
  let ?set = "\<lambda>job P. {i. i < length jobs \<and> jobs ! i = job \<and> P i}"
  have "sem_inv name x (vals ! x) jobs {} (sem_boot name jobs (names, vals))"
    using sem_inv_boot [of name x "(names, vals)" jobs] assms(2-5) by (simp add: sem_ok_def)
  then obtain D where inv: "sem_inv name x (vals ! x) jobs D S"
    using semaphore.run [OF assms(1) [unfolded sem_run_def], of name x "vals ! x" jobs] by blast
  have all: "those jobs Posts UNIV = ?set Posts (\<lambda>_. True)" by (auto simp: those_def)
  have sum: "snd (shared S) ! x + card (those jobs Waits D) = vals ! x + card (those jobs Posts D)"
    and pr: "\<And>i y. (i, Stdout, y) \<in> set (prints S) \<Longrightarrow> jobs ! i = Waits \<Longrightarrow> i \<in> D"
      "\<And>i y. (i, Stdout, y) \<in> set (prints S) \<Longrightarrow> jobs ! i = Reads \<Longrightarrow> \<exists>w \<le> vals ! x + card (?set Posts (\<lambda>_. True)). y = show_int (int w) @ [NL]"
    using inv unfolding sem_inv_def all by blast+
  have ends: "?exits 0 i \<Longrightarrow> i \<in> D" "?exits 1 i \<Longrightarrow> i \<notin> D" if "i < length jobs" "jobs ! i = Posts \<or> jobs ! i = Waits" for i
    using inv that job_at_exit unfolding sem_inv_def by blast+
  have "card (?set Waits ?announced) \<le> card (those jobs Waits D)" "card (those jobs Posts D) \<le> card (?set Posts (\<lambda>i. \<not> ?exits 1 i))"
    using pr(1) ends(2) by (auto simp: those_def intro!: card_mono)
  then have "snd (shared S) ! x + card (?set Waits ?announced) \<le> vals ! x + card (?set Posts (\<lambda>i. \<not> ?exits 1 i))"
    using sum by linarith
  moreover have "snd (shared S) ! x + card (?set Waits (?exits 0)) = vals ! x + card (?set Posts (?exits 0))"
    if "\<forall>i < length jobs. jobs ! i = Posts \<or> jobs ! i = Waits \<longrightarrow> ?exits 0 i \<or> ?exits 1 i"
  proof -
    have "those jobs job D = ?set job (?exits 0)" if "job = Posts \<or> job = Waits" for job
      using ends that \<open>\<forall>i < length jobs. _\<close> by (auto simp: those_def)
    then show ?thesis using sum by simp
  qed
  ultimately show ?thesis using pr(2) unfolding Let_def by blast
qed

text \<open>psem\_create.c and psem\_unlink.c for other names leave a semaphore alone.\<close>

lemma foreign_cx_opts: "foreign name (u self) \<Longrightarrow> (\<And>fl. foreign name (f fl)) \<Longrightarrow> foreign name (cx_opts u self opts fl f)"
  by (induction u self opts fl f rule: cx_opts.induct) simp_all

lemma foreign_psem_create: "snd (getopt cx_spec (drop 1 argv)) ! 0 \<noteq> name \<Longrightarrow> foreign name (psem_create_main argv)"
  by (auto simp: psem_create_main_def psem_usage_def leaves_alone_def Let_def split: prod.splits intro!: foreign_cx_opts)

lemma foreign_psem_unlink: "argv ! 1 \<noteq> name \<Longrightarrow> foreign name (psem_unlink_main argv)"
  by (auto simp: psem_unlink_main_def leaves_alone_def)

text \<open>
  Two waits, a post and a reader on a semaphore with value zero, while others create and remove
  another one: the first wait gets the unit, the second one is interrupted.
\<close>

definition sem_jobs :: "sem_job list" where
  "sem_jobs = [Waits, Waits, Posts, Reads, Apart (psem_create_main [''psem_create'', ''-c'', ''/t'']), Apart (psem_unlink_main [''psem_unlink'', ''/t''])]"

definition sem_moves :: "(nat \<times> move) list" where
  "sem_moves = map (\<lambda>(i, r). (i, Answer r))
     [(0, ok 7), (1, ok 7), (2, ok 7), (4, ok 8), (2, ok 0), (3, ok 7), (3, (ok 0)\<lparr>ints := [1]\<rparr>), (0, ok 0), (5, ok 0),
      (1, fail EINTR), (0, ok 20), (3, ok 0), (0, ok 0), (1, ok 0)]"

lemma sem_moves_run:
  "map_option (\<lambda>S. (snd (shared S), prints S, map (\<lambda>P. case tcode P of Halt (Exited k) \<Rightarrow> k = 0 | _ \<Rightarrow> False) (tasks S)))
     (sem_run [20, 21, 22, 23, 24, 25] sem_moves (sem_boot ''/s'' sem_jobs ([''/s'' \<mapsto> 0], [0]))) =
   Some ([0, 0], [(3, Stdout, ''1\<newline>''), (0, Stdout, ''20 sem_wait() succedded\<newline>''), (1, Perror, ''sem_wait'')], [True, False, True, True, True, True])"
  by code_simp

lemma sem_jobs_apart: "\<forall>q. Apart q \<in> set sem_jobs \<longrightarrow> foreign ''/s'' q"
proof -
  have "snd (getopt cx_spec (drop 1 [''psem_create'', ''-c'', ''/t''])) ! 0 \<noteq> ''/s''" by code_simp
  then show ?thesis using foreign_psem_create foreign_psem_unlink by (auto simp: sem_jobs_def)
qed

lemma semaphore_conserved_witness:
  "\<exists>S. sem_run [20, 21, 22, 23, 24, 25] sem_moves (sem_boot ''/s'' sem_jobs ([''/s'' \<mapsto> 0], [0])) = Some S \<and> (0, Stdout, ''20 sem_wait() succedded\<newline>'') \<in> set (prints S) \<and>
    snd (shared S) ! 0 + card {i. i < length sem_jobs \<and> sem_jobs ! i = Waits \<and> (\<exists>y. (i, Stdout, y) \<in> set (prints S))} \<le>
      card {i. i < length sem_jobs \<and> sem_jobs ! i = Posts \<and> tcode (tasks S ! i) \<noteq> Halt (Exited 1)}"
proof -
  obtain S where S: "sem_run [20, 21, 22, 23, 24, 25] sem_moves (sem_boot ''/s'' sem_jobs ([''/s'' \<mapsto> 0], [0])) = Some S"
    "prints S = [(3, Stdout, ''1\<newline>''), (0, Stdout, ''20 sem_wait() succedded\<newline>''), (1, Perror, ''sem_wait'')]"
    using sem_moves_run by auto
  have "\<forall>n. n \<noteq> ''/s'' \<longrightarrow> [''/s'' \<mapsto> 0] n \<noteq> Some (0 :: nat)" "[''/s'' \<mapsto> 0] ''/s'' = Some (0 :: nat)" "0 < length [0 :: nat]" by simp_all
  from semaphore_conserved [OF S(1) this(2,1,3) sem_jobs_apart, unfolded Let_def, THEN conjunct1]
  show ?thesis using S by (intro exI [of _ S]) simp
qed

end
