(* ===== verification/Mq_System.thy ===== *)
theory Mq_System
  imports Msg_Queue Schedules
begin

text \<open>
  A message queue shared by processes that run at the same time: any number of pmsg\_send.c and
  pmsg\_receive.c (src/posix\_message\_queues), complete from main on, driven by a schedule in the sense of
  \<open>Schedules\<close>. The system keeps the messages that wait, in the order of \<open>mq_insert\<close>, and what was
  written on standard output by which process. A send succeeds only when there is room and the
  message is not too long, a receive only when a message waits and the buffer is large enough;
  otherwise the process waits, that is, the schedule does not choose it, or the call fails. Every call
  may fail at any time, and a write may be partial.
\<close>

section \<open>The system\<close>

record mq_shared =
  waiting :: "(int \<times> string) list"
  written :: "(int \<times> string) list"

fun mq_answer :: "string \<Rightarrow> nat \<Rightarrow> int \<Rightarrow> (int list, mq_shared) answers" where
  "mq_answer name maxmsg msgsize self hs s (Ipc (Mq_open n fl md attr)) r =
     (if rv r = -1 then Some (hs, s) else if n = name \<and> rv r \<notin> set hs then Some (rv r # hs, s) else None)"
| "mq_answer name maxmsg msgsize self hs s (Ipc (Mq_send h m p)) r =
     (if rv r = -1 then Some (hs, s)
      else if h \<in> set hs \<and> rv r = 0 \<and> int (length m) \<le> msgsize \<and> length (waiting s) < maxmsg
      then Some (hs, s\<lparr>waiting := mq_insert (p, m) (waiting s)\<rparr>) else None)"
| "mq_answer name maxmsg msgsize self hs s (Ipc (Mq_receive h n)) r =
     (if rv r = -1 then Some (hs, s)
      else if h \<in> set hs \<and> msgsize \<le> n then
        (case waiting s of
           [] \<Rightarrow> None
         | (p, m) # ms \<Rightarrow> if bytes r = m \<and> rv r = int (length m) \<and> ints r = [p] then Some (hs, s\<lparr>waiting := ms\<rparr>) else None)
      else None)"
| "mq_answer name maxmsg msgsize self hs s (Ipc (Mq_getattr h)) r =
     (if rv r = -1 \<or> h \<in> set hs \<and> rv r = 0 \<and> ints r = [int maxmsg, msgsize, int (length (waiting s))] then Some (hs, s) else None)"
| "mq_answer name maxmsg msgsize self hs s (Io (Write fd d)) r =
     (if rv r = -1 then Some (hs, s)
      else if 0 \<le> rv r \<and> rv r \<le> int (length d)
      then Some (hs, if fd = 1 then s\<lparr>written := written s @ [(self, take (nat (rv r)) d)]\<rparr> else s) else None)"
| "mq_answer name maxmsg msgsize self hs s c r = Some (hs, s)"

abbreviation mq_act :: "string \<Rightarrow> nat \<Rightarrow> int \<Rightarrow> int \<Rightarrow> move \<Rightarrow> prog \<Rightarrow> int list \<Rightarrow> mq_shared \<Rightarrow> (prog \<times> int list \<times> mq_shared \<times> (port \<times> string) list) option" where
  "mq_act name maxmsg msgsize \<equiv> sched_act (mq_answer name maxmsg msgsize) []"

definition mq_run :: "string \<Rightarrow> nat \<Rightarrow> int \<Rightarrow> int list \<Rightarrow> (nat \<times> move) list \<Rightarrow> (int list, mq_shared) sched \<Rightarrow> (int list, mq_shared) sched option" where
  "mq_run name maxmsg msgsize = sched_run (mq_answer name maxmsg msgsize) [] (\<lambda>_ s. s)"

datatype mq_job = Sends string nat | Receives

fun mq_prog :: "string \<Rightarrow> mq_job \<Rightarrow> prog" where
  "mq_prog name (Sends m p) = pmsg_send_main [''pmsg_send'', name, m, show_nat p]"
| "mq_prog name Receives = pmsg_receive_main [''pmsg_receive'', name]"

definition mq_boot :: "string \<Rightarrow> mq_job list \<Rightarrow> (int list, mq_shared) sched" where
  "mq_boot name jobs = sched_boot [] \<lparr>waiting = [], written = []\<rparr> (map (mq_prog name) jobs)"

fun message :: "mq_job \<Rightarrow> int \<times> string" where
  "message (Sends m p) = (int p, m)"
| "message Receives = (0, [])"

definition proper_job :: "mq_job \<Rightarrow> bool" where
  "proper_job job = (case job of Sends m p \<Rightarrow> \<not> is_option m \<and> int p \<le> INT_MAX | Receives \<Rightarrow> True)"

section \<open>The processes\<close>

definition send_at :: "int \<times> string \<Rightarrow> int \<Rightarrow> prog" where
  "send_at x h = Call (Ipc (Mq_send h (snd x) (fst x))) (\<lambda>s. if rv s = -1 then perror ''mq_send'' (exit 1) else exit 0)"

definition tell_end :: prog where
  "tell_end = Call (Io (Write 1 [NL])) (\<lambda>_. exit 0)"

definition tell_text :: "string \<Rightarrow> prog" where
  "tell_text m = Call (Io (Write 1 m)) (\<lambda>w. if rv w = -1 then perror ''write'' (exit 1) else tell_end)"

definition read_line :: "int \<times> string \<Rightarrow> string" where
  "read_line x = ''Read '' @ show_int (int (length (snd x))) @ '' bytes; priority = '' @ show_int (fst x) @ [NL]"

definition receive_at :: "int \<Rightarrow> int \<Rightarrow> prog" where
  "receive_at h n = Call (Ipc (Mq_receive h n)) (\<lambda>r.
     if rv r = -1 then perror ''mq_receive'' (exit 1)
     else printf (''Read '' @ show_int (rv r) @ '' bytes; priority = '' @ show_int (ints r ! 0) @ [NL]) (tell_text (bytes r)))"

definition malloc_at :: "int \<Rightarrow> int \<Rightarrow> prog" where
  "malloc_at h n = Call (Sys (Malloc n)) (\<lambda>b. if rv b = 0 then perror ''malloc'' (exit 1) else receive_at h n)"

definition getattr_at :: "int \<Rightarrow> prog" where
  "getattr_at h = Call (Ipc (Mq_getattr h)) (\<lambda>a. if rv a = -1 then perror ''mq_getattr'' (exit 1) else malloc_at h (ints a ! 1))"

lemmas mq_stages = send_at_def tell_end_def tell_text_def receive_at_def malloc_at_def getattr_at_def

lemma mq_prog_Sends:
  assumes "\<not> is_option name" and "proper_job (Sends m p)"
  shows "mq_prog name (Sends m p) =
    Call (mq_open name 1) (\<lambda>q. if rv q = -1 then perror ''mq_open'' (exit 1) else send_at (message (Sends m p)) (rv q))"
proof -
  have p: "int p \<le> INT_MAX" "\<not> is_option m" using assms(2) by (auto simp: proper_job_def)
  have "atoi (show_nat p) = int p"
    using atoi_show_int [of "int p" "[]"] p(1) by (simp add: show_int_def int_limits)
  then have prio: "to_uint (atoi (show_nat p)) = int p" using p(1) by (simp add: to_uint_def int_limits)
  have "getopt pmsg_spec [name, m, show_nat p] = ([], [name, m, show_nat p])"
    using assms(1) p(2) digit_word_no_option by (intro getopt_operands) auto
  then show ?thesis by (simp add: pmsg_send_main_def prio send_at_def Let_def del: getopt.simps cong: if_cong)
qed

lemma mq_prog_Receives:
  assumes "\<not> is_option name"
  shows "mq_prog name Receives = Call (mq_open name 0) (\<lambda>q. if rv q = -1 then perror ''mq_open'' (exit 1) else getattr_at (rv q))"
proof -
  have "getopt pmsg_spec [name] = ([], [name])" using assms(1) by (intro getopt_operands) auto
  then show ?thesis by (simp add: pmsg_receive_main_def mq_stages Let_def del: getopt.simps cong: if_cong)
qed

declare mq_prog.simps [simp del]

text \<open>Where a process is. \<open>own\<close> is the message a receiver has taken, \<open>sent\<close> says that a sender's message is in the queue or was taken.\<close>

definition gives_up :: "prog \<Rightarrow> bool" where
  "gives_up p = ((\<exists>s. p = perror s (exit 1)) \<or> p = Halt (Exited 1) \<or> p = Halt Aborted)"

definition sender_at :: "string \<Rightarrow> mq_job \<Rightarrow> bool \<Rightarrow> prog \<Rightarrow> int list \<Rightarrow> bool" where
  "sender_at name job sent p hs =
     (if sent then p = Halt (Exited 0) \<or> p = Halt Aborted
      else hs = [] \<and> p = mq_prog name job \<or> (\<exists>h. hs = [h] \<and> p = send_at (message job) h) \<or> gives_up p)"

definition receiver_at :: "string \<Rightarrow> (int \<times> string) option \<Rightarrow> prog \<Rightarrow> int list \<Rightarrow> bool" where
  "receiver_at name own p hs =
     (case own of
        None \<Rightarrow> hs = [] \<and> p = mq_prog name Receives \<or> (\<exists>h n. hs = [h] \<and> p \<in> {getattr_at h, malloc_at h n, receive_at h n}) \<or> gives_up p
      | Some x \<Rightarrow> p \<in> {printf (read_line x) (tell_text (snd x)), tell_text (snd x), tell_end, Halt (Exited 0)} \<or> gives_up p)"

lemma gives_up_act:
  "gives_up p \<Longrightarrow> mq_act name maxmsg msgsize self mv p hs s = Some (p', hs', s', t) \<Longrightarrow> gives_up p' \<and> s' = s \<and> (\<forall>y. (Stdout, y) \<notin> set t)"
  by (cases mv) (auto simp: gives_up_def)

lemma gives_up_simps [simp]: "gives_up (Halt Aborted)" "gives_up (perror s (exit 1))"
  by (auto simp: gives_up_def)

lemma mq_sender_act:
  assumes "sender_at name job sent p hs" and "mq_act name maxmsg msgsize self mv p hs s = Some (p', hs', s', t)"
    and "\<not> is_option name" and "proper_job job" and "job \<noteq> Receives"
  shows "written s' = written s \<and> (\<forall>y. (Stdout, y) \<notin> set t) \<and>
    (sender_at name job sent p' hs' \<and> waiting s' = waiting s \<or>
     \<not> sent \<and> sender_at name job True p' hs' \<and> waiting s' = mq_insert (message job) (waiting s))"
proof -
  obtain m pr where job: "job = Sends m pr" using assms(5) by (cases job) auto
  note prog = mq_prog_Sends [OF assms(3) assms(4) [unfolded job]]
  have "p = Halt (Exited 0) \<and> sent \<or> p = Halt Aborted \<and> sent \<or> \<not> sent \<and> hs = [] \<and> p = mq_prog name job \<or>
    \<not> sent \<and> (\<exists>h. hs = [h] \<and> p = send_at (message job) h) \<or> \<not> sent \<and> gives_up p"
    using assms(1) by (auto simp: sender_at_def split: if_splits)
  then show ?thesis
  proof (elim disjE conjE exE)
    assume "\<not> sent" "gives_up p"
    then show ?thesis using gives_up_act [OF _ assms(2)] by (auto simp: sender_at_def)
  next
    assume P: "\<not> sent" "hs = []" "p = mq_prog name job"
    then show ?thesis using assms(2) by (cases mv) (auto simp: job prog mq_open_def sender_at_def split: if_splits)
  next
    fix h assume "\<not> sent" "hs = [h]" "p = send_at (message job) h"
    then show ?thesis using assms(2) by (cases mv) (auto simp: send_at_def sender_at_def split: if_splits)
  qed (use assms(2) in \<open>auto simp: sender_at_def\<close>)
qed

lemma mq_receiver_act:
  assumes "receiver_at name own p hs" and "mq_act name maxmsg msgsize self mv p hs s = Some (p', hs', s', t)" and "\<not> is_option name"
  shows "(\<forall>y. (Stdout, y) \<in> set t \<longrightarrow> (\<exists>x. own = Some x \<and> y = read_line x)) \<and>
    (receiver_at name own p' hs' \<and> waiting s' = waiting s \<and>
       (written s' = written s \<or> (\<exists>x d n. own = Some x \<and> written s' = written s @ [(self, d)] \<and> (d = take n (snd x) \<or> d = take n [NL]))) \<or>
     own = None \<and> written s' = written s \<and> (\<exists>x. waiting s = x # waiting s' \<and> receiver_at name (Some x) p' hs'))"
proof (cases own)
  case None
  note prog = mq_prog_Receives [OF assms(3)]
  have "hs = [] \<and> p = mq_prog name Receives \<or> (\<exists>h n. hs = [h] \<and> (p = getattr_at h \<or> p = malloc_at h n \<or> p = receive_at h n)) \<or> gives_up p"
    using assms(1) None by (auto simp: receiver_at_def)
  then show ?thesis
  proof (elim disjE conjE exE)
    assume "gives_up p"
    then show ?thesis using gives_up_act [OF _ assms(2)] None by (auto simp: receiver_at_def)
  next
    assume "hs = []" "p = mq_prog name Receives"
    then show ?thesis using assms(2) None by (cases mv) (auto simp: prog mq_open_def receiver_at_def split: if_splits)
  next
    fix h n assume "hs = [h]" "p = getattr_at h"
    then show ?thesis using assms(2) None by (cases mv) (auto simp: getattr_at_def receiver_at_def split: if_splits)
  next
    fix h n assume "hs = [h]" "p = malloc_at h n"
    then show ?thesis using assms(2) None by (cases mv) (auto simp: malloc_at_def receiver_at_def split: if_splits)
  next
    fix h n assume "hs = [h]" "p = receive_at h n"
    then show ?thesis using assms(2) None
      by (cases mv) (auto simp: receive_at_def receiver_at_def read_line_def split: if_splits list.splits)
  qed
next
  case (Some x)
  have "p = printf (read_line x) (tell_text (snd x)) \<or> p = tell_text (snd x) \<or> p = tell_end \<or> p = Halt (Exited 0) \<or> gives_up p"
    using assms(1) Some by (auto simp: receiver_at_def)
  then show ?thesis
  proof (elim disjE)
    assume "gives_up p"
    then show ?thesis using gives_up_act [OF _ assms(2)] Some by (auto simp: receiver_at_def)
  next
    assume "p = tell_text (snd x)"
    then show ?thesis using assms(2) Some by (cases mv) (auto simp: tell_text_def receiver_at_def split: if_splits)
  next
    assume "p = tell_end"
    then show ?thesis using assms(2) Some by (cases mv) (auto simp: tell_end_def receiver_at_def split: if_splits)
  next
    assume "p = printf (read_line x) (tell_text (snd x))"
    then show ?thesis using assms(2) Some by (cases mv) (auto simp: receiver_at_def)
  qed (use assms(2) Some in \<open>auto simp: receiver_at_def\<close>)
qed

section \<open>The invariant\<close>

text \<open>
  The senders whose messages wait in the queue (\<open>q\<close>), and which receiver has taken whose message
  (\<open>own\<close>): nobody's message is in two places.
\<close>

definition assigned :: "mq_job list \<Rightarrow> nat list \<Rightarrow> (nat \<Rightarrow> nat option) \<Rightarrow> bool" where
  "assigned jobs q own =
     (distinct q \<and> set q \<inter> ran own = {} \<and> inj_on own (dom own) \<and>
      (\<forall>j \<in> set q \<union> ran own. j < length jobs \<and> jobs ! j \<noteq> Receives) \<and> (\<forall>i \<in> dom own. i < length jobs \<and> jobs ! i = Receives))"

lemma assigned_send:
  assumes "assigned jobs q own" and "j < length jobs" and "jobs ! j \<noteq> Receives" and "j \<notin> set q \<union> ran own" and "set q' = insert j (set q)" and "distinct q'"
  shows "assigned jobs q' own"
  using assms by (auto simp: assigned_def)

lemma assigned_take:
  assumes "assigned jobs (j # q) own" and "i < length jobs" and "jobs ! i = Receives" and "own i = None"
  shows "assigned jobs q (own(i \<mapsto> j)) \<and> ran (own(i \<mapsto> j)) = insert j (ran own)"
proof -
  have ran: "ran (own(i \<mapsto> j)) = insert j (ran own)" using assms(4) by simp
  have new: "own k \<noteq> Some j" for k using assms(1) by (auto simp: assigned_def ran_def)
  have "inj_on (own(i \<mapsto> j)) (dom (own(i \<mapsto> j)))"
    using assms(1,4) new by (auto simp: assigned_def inj_on_def dom_def)
  then show ?thesis using assms ran by (auto simp: assigned_def)
qed

lemma mq_insert_map: "\<exists>q'. map f q' = mq_insert (f j) (map f q) \<and> set q' = insert j (set q) \<and> (j \<notin> set q \<and> distinct q \<longrightarrow> distinct q')"
proof (induction q)
  case Nil
  show ?case by (intro exI [of _ "[j]"]) simp
next
  case (Cons k q)
  from Cons.IH obtain q' where "map f q' = mq_insert (f j) (map f q) \<and> set q' = insert j (set q) \<and> (j \<notin> set q \<and> distinct q \<longrightarrow> distinct q')"
    by (rule exE)
  note q' = this [THEN conjunct1] this [THEN conjunct2]
  show ?case
  proof (cases "fst (f j) \<le> fst (f k)")
    case True
    then show ?thesis using q' by (intro exI [of _ "k # q'"]) auto
  next
    case False
    then show ?thesis by (intro exI [of _ "j # k # q"]) auto
  qed
qed

definition mq_inv :: "int list \<Rightarrow> string \<Rightarrow> mq_job list \<Rightarrow> nat list \<Rightarrow> (nat \<Rightarrow> nat option) \<Rightarrow> (int list, mq_shared) sched \<Rightarrow> bool" where
  "mq_inv pids name jobs q own S =
     (let msg = (\<lambda>j. message (jobs ! j)) in
      length (tasks S) = length jobs \<and> assigned jobs q own \<and>
      waiting (shared S) = map msg q \<and> sorted (map (\<lambda>x. - fst x) (waiting (shared S))) \<and>
      (\<forall>i < length jobs. jobs ! i \<noteq> Receives \<longrightarrow> sender_at name (jobs ! i) (i \<in> set q \<union> ran own) (tcode (tasks S ! i)) (handles (tasks S ! i))) \<and>
      (\<forall>i < length jobs. jobs ! i = Receives \<longrightarrow> receiver_at name (map_option msg (own i)) (tcode (tasks S ! i)) (handles (tasks S ! i))) \<and>
      (\<forall>i y. (i, Stdout, y) \<in> set (prints S) \<longrightarrow> (\<exists>j. own i = Some j \<and> y = read_line (msg j))) \<and>
      (\<forall>pd d. (pd, d) \<in> set (written (shared S)) \<longrightarrow>
         (\<exists>i j n. pd = pids ! i \<and> own i = Some j \<and> (d = take n (snd (msg j)) \<or> d = take n [NL]))))"

text \<open>A process does a step that concerns neither the queue nor who owns what.\<close>

lemma mq_inv_local:
  assumes "mq_inv pids name jobs q own S" and i: "i < length jobs"
    and "jobs ! i \<noteq> Receives \<Longrightarrow> sender_at name (jobs ! i) (i \<in> set q' \<union> ran own') p hs"
    and "jobs ! i = Receives \<Longrightarrow> receiver_at name (map_option (\<lambda>j. message (jobs ! j)) (own' i)) p hs"
    and "assigned jobs q' own'" and "waiting s = map (\<lambda>j. message (jobs ! j)) q'" and "sorted (map (\<lambda>x. - fst x) (waiting s))"
    and "set q' \<union> ran own' \<subseteq> insert i (set q \<union> ran own)" and "set q \<union> ran own \<subseteq> set q' \<union> ran own'"
    and "\<And>k. k \<noteq> i \<Longrightarrow> own' k = own k" and "own i \<noteq> None \<Longrightarrow> own' i = own i"
    and "\<And>y. (Stdout, y) \<in> set t \<Longrightarrow> \<exists>j. own' i = Some j \<and> y = read_line (message (jobs ! j))"
    and "\<And>d pd. (pd, d) \<in> set (written s) \<Longrightarrow> (pd, d) \<in> set (written (shared S)) \<or>
      (\<exists>j n. pd = pids ! i \<and> own' i = Some j \<and> (d = take n (snd (message (jobs ! j))) \<or> d = take n [NL]))"
  shows "mq_inv pids name jobs q' own' \<lparr>tasks = (tasks S)[i := \<lparr>tcode = p, handles = hs\<rparr>], shared = s, prints = prints S @ map (Pair i) t\<rparr>"
proof -
  have more: "own k = Some j \<Longrightarrow> own' k = Some j" for k j using assms(10,11) by (cases "k = i") auto
  have same: "k \<noteq> i \<Longrightarrow> (k \<in> set q' \<union> ran own') = (k \<in> set q \<union> ran own)" for k using assms(8,9) by auto
  have "sender_at name (jobs ! k) (k \<in> set q' \<union> ran own') (tcode ((tasks S)[i := \<lparr>tcode = p, handles = hs\<rparr>] ! k)) (handles ((tasks S)[i := \<lparr>tcode = p, handles = hs\<rparr>] ! k))"
    if "k < length jobs" "jobs ! k \<noteq> Receives" for k
    using assms(1,3) that same [of k] by (cases "k = i") (simp_all add: mq_inv_def Let_def)
  moreover have "receiver_at name (map_option (\<lambda>j. message (jobs ! j)) (own' k)) (tcode ((tasks S)[i := \<lparr>tcode = p, handles = hs\<rparr>] ! k)) (handles ((tasks S)[i := \<lparr>tcode = p, handles = hs\<rparr>] ! k))"
    if "k < length jobs" "jobs ! k = Receives" for k
    using assms(1,4,10) that by (cases "k = i") (simp_all add: mq_inv_def Let_def)
  moreover have "\<exists>j. own' k = Some j \<and> y = read_line (message (jobs ! j))" if "(k, Stdout, y) \<in> set (prints S @ map (Pair i) t)" for k y
    using that assms(1,12) more by (auto simp: mq_inv_def Let_def) metis
  moreover have "\<exists>i j n. pd = pids ! i \<and> own' i = Some j \<and> (d = take n (snd (message (jobs ! j))) \<or> d = take n [NL])" if "(pd, d) \<in> set (written s)" for pd d
    using assms(13) [OF that]
  proof
    assume "(pd, d) \<in> set (written (shared S))"
    then obtain k j n where "pd = pids ! k" "own k = Some j" "d = take n (snd (message (jobs ! j))) \<or> d = take n [NL]"
      using assms(1) unfolding mq_inv_def Let_def by blast
    then show ?thesis using more [of k j] by blast
  qed blast
  ultimately show ?thesis using assms(1,5-7) by (simp add: mq_inv_def Let_def)
qed

lemma mq_inv_act:
  assumes inv: "mq_inv pids name jobs q own S" and "i < length (tasks S)"
    and act: "mq_act name maxmsg msgsize (pids ! i) mv (tcode (tasks S ! i)) (handles (tasks S ! i)) (shared S) = Some (p, hs, s, t)"
    and name: "\<not> is_option name" and jobs: "\<forall>job\<in>set jobs. proper_job job"
  shows "\<exists>q own. mq_inv pids name jobs q own \<lparr>tasks = (tasks S)[i := \<lparr>tcode = p, handles = hs\<rparr>], shared = s, prints = prints S @ map (Pair i) t\<rparr>"
proof -
  let ?msg = "\<lambda>j. message (jobs ! j)"
  have i: "i < length jobs" using assms(1,2) by (simp add: mq_inv_def Let_def)
  have as: "assigned jobs q own" and wait: "waiting (shared S) = map ?msg q"
    and sorted: "sorted (map (\<lambda>x. - fst x) (waiting (shared S)))"
    using inv unfolding mq_inv_def Let_def by blast+
  show ?thesis
  proof (cases "jobs ! i = Receives")
    case False
    have own: "own i = None" using as False by (auto simp: assigned_def)
    have at: "sender_at name (jobs ! i) (i \<in> set q \<union> ran own) (tcode (tasks S ! i)) (handles (tasks S ! i))"
      using inv i False by (simp add: mq_inv_def Let_def)
    have "proper_job (jobs ! i)" using jobs i by simp
    from mq_sender_act [OF at act name this False] have w: "written s = written (shared S)" and out: "\<forall>y. (Stdout, y) \<notin> set t"
      and "sender_at name (jobs ! i) (i \<in> set q \<union> ran own) p hs \<and> waiting s = waiting (shared S) \<or>
        i \<notin> set q \<union> ran own \<and> sender_at name (jobs ! i) True p hs \<and> waiting s = mq_insert (?msg i) (waiting (shared S))"
      by blast+
    then consider (same) "sender_at name (jobs ! i) (i \<in> set q \<union> ran own) p hs" "waiting s = waiting (shared S)"
      | (sent) "i \<notin> set q \<union> ran own" "sender_at name (jobs ! i) True p hs" "waiting s = mq_insert (?msg i) (waiting (shared S))" by blast
    then show ?thesis
    proof cases
      case same
      then show ?thesis using as wait sorted w out False by (intro exI [of _ q] exI [of _ own] mq_inv_local [OF inv i]) auto
    next
      case sent
      obtain q' where q': "map ?msg q' = mq_insert (?msg i) (map ?msg q) \<and> set q' = insert i (set q) \<and> (i \<notin> set q \<and> distinct q \<longrightarrow> distinct q')"
        using mq_insert_map by (rule exE)
      then have set: "set q' = insert i (set q)" "distinct q'" "waiting s = map ?msg q'" using as sent wait by (auto simp: assigned_def)
      have "assigned jobs q' own" by (rule assigned_send [OF as i False sent(1) set(1,2)])
      moreover have "sorted (map (\<lambda>x. - fst x) (waiting s))" using sorted sorted_mq_insert sent(3) by simp
      moreover have "i \<in> set q' \<union> ran own" using set(1) by simp
      ultimately show ?thesis using sent(2) set w out False by (intro exI [of _ q'] exI [of _ own] mq_inv_local [OF inv i]) auto
    qed
  next
    case True
    have at: "receiver_at name (map_option ?msg (own i)) (tcode (tasks S ! i)) (handles (tasks S ! i))"
      using inv i True by (simp add: mq_inv_def Let_def)
    from mq_receiver_act [OF at act name]
    have out: "\<forall>y. (Stdout, y) \<in> set t \<longrightarrow> (\<exists>j. own i = Some j \<and> y = read_line (?msg j))" and
      "receiver_at name (map_option ?msg (own i)) p hs \<and> waiting s = waiting (shared S) \<and>
         (written s = written (shared S) \<or> (\<exists>j d n. own i = Some j \<and> written s = written (shared S) @ [(pids ! i, d)] \<and> (d = take n (snd (?msg j)) \<or> d = take n [NL]))) \<or>
       own i = None \<and> written s = written (shared S) \<and> (\<exists>x. waiting (shared S) = x # waiting s \<and> receiver_at name (Some x) p hs)"
      by (fastforce, cases "own i") auto
    then consider (same) "receiver_at name (map_option ?msg (own i)) p hs" "waiting s = waiting (shared S)"
        "written s = written (shared S) \<or> (\<exists>j d n. own i = Some j \<and> written s = written (shared S) @ [(pids ! i, d)] \<and> (d = take n (snd (?msg j)) \<or> d = take n [NL]))"
      | (took) j q' where "own i = None" "written s = written (shared S)" "q = j # q'" "waiting s = map ?msg q'" "receiver_at name (Some (?msg j)) p hs"
      using wait by (cases q) auto
    then show ?thesis
    proof cases
      case same
      then show ?thesis using as wait sorted out True by (intro exI [of _ q] exI [of _ own] mq_inv_local [OF inv i]) auto
    next
      case took
      have "assigned jobs q' (own(i \<mapsto> j)) \<and> ran (own(i \<mapsto> j)) = insert j (ran own)"
        using assigned_take [of jobs j q' own i] as i True took(1,3) by simp
      moreover have "sorted (map (\<lambda>x. - fst x) (waiting s))" using sorted took(3,4) wait by simp
      ultimately show ?thesis using took out True by (intro exI [of _ q'] exI [of _ "own(i \<mapsto> j)"] mq_inv_local [OF inv i]) auto
    qed
  qed
qed

interpretation message_queue: schedule_invariant "mq_answer name maxmsg msgsize" "[]" "\<lambda>_ s. s" pids
  "\<lambda>S. \<not> is_option name \<and> (\<forall>job\<in>set jobs. proper_job job) \<and> (\<exists>q own. mq_inv pids name jobs q own S)" for name maxmsg msgsize pids jobs
  by unfold_locales (blast intro: mq_inv_act)

lemma mq_inv_boot: "mq_inv pids name jobs [] (\<lambda>_. None) (mq_boot name jobs)"
  by (auto simp: mq_inv_def mq_boot_def sched_boot_def assigned_def sender_at_def receiver_at_def)

lemma sender_at_exit:
  assumes "sender_at name job sent p hs" and "\<not> is_option name" and "proper_job job" and "job \<noteq> Receives"
  shows "p = Halt (Exited 0) \<Longrightarrow> sent" "p = Halt (Exited 1) \<Longrightarrow> \<not> sent"
proof -
  obtain m pr where job: "job = Sends m pr" using assms(4) by (cases job) auto
  show "p = Halt (Exited 0) \<Longrightarrow> sent" "p = Halt (Exited 1) \<Longrightarrow> \<not> sent"
    using assms(1) mq_prog_Sends [OF assms(2) assms(3) [unfolded job]]
    by (auto simp: sender_at_def send_at_def gives_up_def job split: if_splits)
qed

lemma receiver_at_exit: "receiver_at name None p hs \<Longrightarrow> \<not> is_option name \<Longrightarrow> p \<noteq> Halt (Exited 0)"
  using mq_prog_Receives [of name] by (auto simp: receiver_at_def getattr_at_def malloc_at_def receive_at_def gives_up_def)

text \<open>
  (C15) Messages under concurrency. Any number of processes run pmsg\_send.c and pmsg\_receive.c on one
  queue that was empty, under any schedule, with any calls failing and any processes killed. Then every message is
  in at most one place: there are senders whose messages wait in the queue, in the order of falling priority,
  and each receiver that has taken a message has it from a sender of its own. A sender that exits
  with 0 has put its message in one of the two places, and one that exits with 1 has not. What a receiver prints is the
  length and the priority of the message it has taken, and what it writes is the text of this
  message and a newline, or a beginning of it where a write is partial; a receiver that exits with
  0 has taken one.
\<close>

theorem pmsg_exactly_once:
  assumes "mq_run name maxmsg msgsize pids mvs (mq_boot name jobs) = Some S" and "\<not> is_option name" and "\<forall>job\<in>set jobs. proper_job job"
  shows "\<exists>q own. distinct q \<and> set q \<inter> ran own = {} \<and> inj_on own (dom own) \<and>
    (\<forall>j \<in> set q \<union> ran own. j < length jobs \<and> jobs ! j \<noteq> Receives) \<and> (\<forall>i \<in> dom own. i < length jobs \<and> jobs ! i = Receives) \<and>
    waiting (shared S) = map (\<lambda>j. message (jobs ! j)) q \<and> sorted (map (\<lambda>x. - fst x) (waiting (shared S))) \<and>
    (\<forall>j < length jobs. jobs ! j \<noteq> Receives \<longrightarrow> (tcode (tasks S ! j) = Halt (Exited 0) \<longrightarrow> j \<in> set q \<union> ran own) \<and>
       (tcode (tasks S ! j) = Halt (Exited 1) \<longrightarrow> j \<notin> set q \<union> ran own)) \<and>
    (\<forall>i < length jobs. jobs ! i = Receives \<and> tcode (tasks S ! i) = Halt (Exited 0) \<longrightarrow> own i \<noteq> None) \<and>
    (\<forall>i y. (i, Stdout, y) \<in> set (prints S) \<longrightarrow> (\<exists>j. own i = Some j \<and> y = read_line (message (jobs ! j)))) \<and>
    (\<forall>pd d. (pd, d) \<in> set (written (shared S)) \<longrightarrow>
       (\<exists>i j n. pd = pids ! i \<and> own i = Some j \<and> (d = take n (snd (message (jobs ! j))) \<or> d = take n [NL])))"
proof -
  obtain q own where inv: "mq_inv pids name jobs q own S"
    using message_queue.run [OF assms(1) [unfolded mq_run_def]] mq_inv_boot assms(2,3) by blast
  have s: "sender_at name (jobs ! j) (j \<in> set q \<union> ran own) (tcode (tasks S ! j)) (handles (tasks S ! j))" if "j < length jobs" "jobs ! j \<noteq> Receives" for j
    using inv that by (simp add: mq_inv_def Let_def)
  have "(tcode (tasks S ! j) = Halt (Exited 0) \<longrightarrow> j \<in> set q \<union> ran own) \<and> (tcode (tasks S ! j) = Halt (Exited 1) \<longrightarrow> j \<notin> set q \<union> ran own)"
    if j: "j < length jobs" "jobs ! j \<noteq> Receives" for j
    using sender_at_exit [OF s [OF j] assms(2) _ j(2)] assms(3) j(1) by simp
  moreover have "own i \<noteq> None" if "i < length jobs" "jobs ! i = Receives" "tcode (tasks S ! i) = Halt (Exited 0)" for i
  proof
    assume "own i = None"
    moreover have "receiver_at name (map_option (\<lambda>j. message (jobs ! j)) (own i)) (tcode (tasks S ! i)) (handles (tasks S ! i))"
      using inv that(1,2) by (simp add: mq_inv_def Let_def)
    ultimately show False using receiver_at_exit [OF _ assms(2)] that(3) by (metis option.map(1))
  qed
  ultimately show ?thesis using inv unfolding mq_inv_def assigned_def Let_def
    by (intro exI [of _ q] exI [of _ own] conjI) (elim conjE, (assumption | blast))+
qed

text \<open>Two senders; a receiver takes the message that was sent later but has the higher priority.\<close>

definition mq_jobs :: "mq_job list" where
  "mq_jobs = [Sends ''low'' 1, Sends ''high'' 7, Receives, Receives]"

definition mq_moves :: "(nat \<times> move) list" where
  "mq_moves = map (\<lambda>(i, r). (i, Answer r))
     [(2, ok 3), (2, (ok 0)\<lparr>ints := [10, 8, 0]\<rparr>), (0, ok 3), (0, ok 0), (2, ok 1), (1, ok 3), (1, ok 0), (2, (got ''high'')\<lparr>ints := [7]\<rparr>),
      (2, ok 0), (2, ok 4), (2, ok 1)] @ [(3, Killed)]"

lemma mq_moves_run:
  "map_option (\<lambda>S. (waiting (shared S), written (shared S), prints S)) (mq_run ''/q'' 10 8 [30, 31, 32, 33] mq_moves (mq_boot ''/q'' mq_jobs)) =
   Some ([(1, ''low'')], [(32, ''high''), (32, [NL])], [(2, Stdout, ''Read 4 bytes; priority = 7\<newline>'')])"
  by code_simp

lemma pmsg_exactly_once_witness:
  "\<exists>S q own. mq_run ''/q'' 10 8 [30, 31, 32, 33] mq_moves (mq_boot ''/q'' mq_jobs) = Some S \<and> prints S = [(2, Stdout, ''Read 4 bytes; priority = 7\<newline>'')] \<and>
    distinct q \<and> waiting (shared S) = map (\<lambda>j. message (mq_jobs ! j)) q \<and> own (2 :: nat) \<noteq> None \<and> set q \<inter> ran own = {}"
proof -
  obtain S where S: "mq_run ''/q'' 10 8 [30, 31, 32, 33] mq_moves (mq_boot ''/q'' mq_jobs) = Some S" "prints S = [(2, Stdout, ''Read 4 bytes; priority = 7\<newline>'')]"
    using mq_moves_run by auto
  have "\<not> is_option ''/q''" "\<forall>job\<in>set mq_jobs. proper_job job" by (simp_all add: is_option_def mq_jobs_def proper_job_def int_limits)
  from pmsg_exactly_once [OF S(1) this] obtain q own where
    "distinct q" "set q \<inter> ran own = {}" "waiting (shared S) = map (\<lambda>j. message (mq_jobs ! j)) q"
    "\<forall>i y. (i, Stdout, y) \<in> set (prints S) \<longrightarrow> (\<exists>j. own i = Some j \<and> y = read_line (message (mq_jobs ! j)))"
    by blast
  moreover from this(4) have "own 2 \<noteq> None" using S(2) by force
  ultimately show ?thesis using S by blast
qed

end
