(* ===== verification/Signal_Sync.thy ===== *)
theory Signal_Sync
  imports Processes Interleaving
begin

text \<open>
  Parent and child of src/procexec/fork\_sig\_sync.c, which synchronise by a signal. The system
  keeps of each process its code, its pid and its parent's, which signals are blocked, pending and
  caught. A schedule is a list of moves of single processes: a call is answered, a fork creates a
  process with the mask and the handlers of its parent, a pending signal that is not blocked is
  delivered, or the process is killed. sigsuspend returns only when a signal that it does not block is
  caught; a call may fail at any time. Processes outside of the system send no signals, except to
  kill.

  The parent must not go on before the child has done its work, and must not miss the signal when
  it arrives before the parent waits for it. Both rest on the signal being blocked from before the
  fork until sigsuspend.
\<close>

section \<open>The system\<close>

record sigproc =
  scode :: prog
  spid :: int
  sparent :: int
  smask :: "int set"
  spend :: "int set"
  scaught :: "int set"

record sig_sys =
  sprocs :: "sigproc list"
  slog :: "(nat \<times> string) list"

datatype sig_move = Reply ret | Forked ret ret | Deliver int | Strike

fun halted :: "prog \<Rightarrow> bool" where
  "halted (Halt out) = True"
| "halted p = False"

definition post_signal :: "int \<Rightarrow> int \<Rightarrow> sigproc list \<Rightarrow> sigproc list" where
  "post_signal p sg ps = map (\<lambda>Q. if spid Q = p \<and> \<not> halted (scode Q) then Q\<lparr>spend := insert sg (spend Q)\<rparr> else Q) ps"

text \<open>
  The answer \<open>r\<close> to the call \<open>c\<close> of process \<open>i\<close>; \<open>f\<close> is the code that takes it. A process whose parent
  has ended is a child of process 1.
\<close>

fun sig_reply :: "sigproc list \<Rightarrow> nat \<Rightarrow> syscall \<Rightarrow> (ret \<Rightarrow> prog) \<Rightarrow> ret \<Rightarrow> sigproc list option" where
  "sig_reply ps i (Sig (Sigprocmask how X)) f r =
     (if rv r = -1 then Some (ps[i := (ps ! i)\<lparr>scode := f r\<rparr>])
      else if rv r = 0 \<and> set (ints r) = smask (ps ! i) then
        Some (ps[i := (ps ! i)\<lparr>scode := f r, smask :=
          (case X of
             None \<Rightarrow> smask (ps ! i)
           | Some X \<Rightarrow> if how = 0 then smask (ps ! i) \<union> X else if how = 1 then smask (ps ! i) - X else X)\<rparr>])
      else None)"
| "sig_reply ps i (Sig (Sigaction sg h sa M)) f r =
     (if rv r = -1 then Some (ps[i := (ps ! i)\<lparr>scode := f r\<rparr>])
      else if rv r = 0 then Some (ps[i := (ps ! i)\<lparr>scode := f r, scaught := insert sg (scaught (ps ! i))\<rparr>])
      else None)"
| "sig_reply ps i (Sig (Sigsuspend X)) f r =
     (if rv r = -1 \<and> err r = EINTR \<and> spend (ps ! i) \<inter> scaught (ps ! i) - X \<noteq> {} then
        Some (ps[i := (ps ! i)\<lparr>scode := f r, spend := spend (ps ! i) - (scaught (ps ! i) - X)\<rparr>])
      else None)"
| "sig_reply ps i (Sig (Kill p sg)) f r =
     (if rv r = -1 then Some (ps[i := (ps ! i)\<lparr>scode := f r\<rparr>])
      else if rv r = 0 \<and> p \<in> spid ` set ps then Some (post_signal p sg (ps[i := (ps ! i)\<lparr>scode := f r\<rparr>]))
      else None)"
| "sig_reply ps i (Sig c) f r = None"
| "sig_reply ps i (Proc Fork) f r = (if rv r = -1 then Some (ps[i := (ps ! i)\<lparr>scode := f r\<rparr>]) else None)"
| "sig_reply ps i (Proc Getpid) f r = (if rv r = spid (ps ! i) then Some (ps[i := (ps ! i)\<lparr>scode := f r\<rparr>]) else None)"
| "sig_reply ps i (Proc Getppid) f r =
     (if rv r = (if \<exists>Q\<in>set ps. spid Q = sparent (ps ! i) \<and> \<not> halted (scode Q) then sparent (ps ! i) else 1)
      then Some (ps[i := (ps ! i)\<lparr>scode := f r\<rparr>]) else None)"
| "sig_reply ps i c f r = Some (ps[i := (ps ! i)\<lparr>scode := f r\<rparr>])"

fun sig_act :: "sigproc list \<Rightarrow> nat \<Rightarrow> prog \<Rightarrow> sig_move \<Rightarrow> (sigproc list \<times> string list) option" where
  "sig_act ps i (Halt out) mv = None"
| "sig_act ps i p Strike = Some (ps[i := (ps ! i)\<lparr>scode := Halt Aborted\<rparr>], [])"
| "sig_act ps i p (Deliver sg) =
     (if sg \<in> spend (ps ! i) - smask (ps ! i) then
        Some (ps[i := if sg \<in> scaught (ps ! i) then (ps ! i)\<lparr>spend := spend (ps ! i) - {sg}\<rparr>
                      else (ps ! i)\<lparr>scode := Halt Aborted\<rparr>], [])
      else None)"
| "sig_act ps i (Put q s p) (Reply r) = Some (ps[i := (ps ! i)\<lparr>scode := p\<rparr>], [s])"
| "sig_act ps i (Call c f) (Reply r) = map_option (\<lambda>ps. (ps, [])) (sig_reply ps i c f r)"
| "sig_act ps i (Call (Proc Fork) f) (Forked r r') =
     (if 1 < rv r \<and> rv r \<notin> spid ` set ps \<and> rv r' = 0 then
        Some (ps[i := (ps ! i)\<lparr>scode := f r\<rparr>] @
          [\<lparr>scode = f r', spid = rv r, sparent = spid (ps ! i), smask = smask (ps ! i), spend = {}, scaught = scaught (ps ! i)\<rparr>], [])
      else None)"
| "sig_act ps i p (Forked r r') = None"

definition sig_step :: "nat \<times> sig_move \<Rightarrow> sig_sys \<Rightarrow> sig_sys option" where
  "sig_step = (\<lambda>(i, mv) S.
     if i < length (sprocs S) then
       map_option (\<lambda>(ps, t). \<lparr>sprocs = ps, slog = slog S @ map (Pair i) t\<rparr>) (sig_act (sprocs S) i (scode (sprocs S ! i)) mv)
     else None)"

fun sig_run :: "(nat \<times> sig_move) list \<Rightarrow> sig_sys \<Rightarrow> sig_sys option" where
  "sig_run [] S = Some S"
| "sig_run (mv # mvs) S = (case sig_step mv S of None \<Rightarrow> None | Some S' \<Rightarrow> sig_run mvs S')"

definition sync_boot :: "int \<Rightarrow> int \<Rightarrow> int set \<Rightarrow> sig_sys" where
  "sync_boot self up M =
     \<lparr>sprocs = [\<lparr>scode = fork_sig_sync_main, spid = self, sparent = up, smask = M, spend = {}, scaught = {}\<rparr>], slog = []\<rparr>"

section \<open>Code\<close>

text \<open>
  \<open>towards M G p\<close>: \<open>p\<close> makes no calls on signals and does not fork, prints no line that satisfies \<open>M\<close>, and
  does not end with \<open>_exit(0)\<close>, until it reaches code in \<open>G\<close>.
\<close>

definition easy :: "syscall \<Rightarrow> bool" where
  "easy c = ((\<forall>g. c \<noteq> Sig g) \<and> c \<noteq> Proc Fork)"

lemma easy_simps [simp]: "\<not> easy (Sig g)" "\<not> easy (Proc Fork)" "easy (Tm c)" "easy (Proc Getpid)" "easy (Proc (Sleep n))"
  by (simp_all add: easy_def)

inductive towards :: "(string \<Rightarrow> bool) \<Rightarrow> (prog \<Rightarrow> bool) \<Rightarrow> prog \<Rightarrow> bool" for M G where
  towards_goal: "G p \<Longrightarrow> towards M G p"
| towards_halt: "out \<noteq> Exited_now 0 \<Longrightarrow> towards M G (Halt out)"
| towards_Put: "\<not> M s \<Longrightarrow> towards M G p \<Longrightarrow> towards M G (Put q s p)"
| towards_Call: "easy c \<Longrightarrow> (\<And>r. towards M G (f r)) \<Longrightarrow> towards M G (Call c f)"

text \<open>Stamped lines are told apart by their texts.\<close>

definition says :: "string \<Rightarrow> string \<Rightarrow> bool" where
  "says text s = (\<exists>x. s = x @ text @ [NL])"

definition stamp :: "string \<Rightarrow> int \<Rightarrow> string \<Rightarrow> string" where
  "stamp t i text = ''['' @ t @ '' '' @ show_int i @ ''] '' @ text @ [NL]"

lemma says_stamp: "says text (stamp t i text)"
  unfolding says_def stamp_def by (metis append.assoc)

lemma says_stamp_iff:
  assumes "length text \<le> length text'"
  shows "says text (stamp t i text') \<longleftrightarrow> drop (length text' - length text) text' = text"
proof -
  have "says text (y @ text' @ [NL]) \<longleftrightarrow> drop (length text' - length text) text' = text" for y
  proof
    assume "says text (y @ text' @ [NL])"
    then obtain x where "(y @ text') @ [NL] = (x @ text) @ [NL]" by (auto simp: says_def)
    then have "y @ text' = x @ text" by simp
    then have "drop (length (y @ text') - length text) (y @ text') = text" by simp
    then show "drop (length text' - length text) text' = text" using assms by simp
  next
    assume A: "drop (length text' - length text) text' = text"
    have "y @ text' = (y @ take (length text' - length text) text') @ text"
      using append_take_drop_id [of "length text' - length text" text'] A by simp
    then show "says text (y @ text' @ [NL])" unfolding says_def by (metis append.assoc)
  qed
  from this [of "''['' @ t @ '' '' @ show_int i @ ''] ''"] show ?thesis by (simp add: stamp_def)
qed

lemma stamped_eq:
  "stamped text p = Call (Tm Time) (\<lambda>t. Call (Tm (Localtime (rv t))) (\<lambda>tm.
     if rv tm = 0 then Call (Proc Getpid) (\<lambda>i. Halt Undefined)
     else Call (Tm (Strftime ''%T'' (ints tm))) (\<lambda>s. Call (Proc Getpid) (\<lambda>i.
       if rv s = 0 then Halt Undefined else Put Stdout (stamp (take (CURR_TIME_BUF_SIZE - 1) (bytes s)) (rv i) text) p))))"
  by (auto simp: stamped_def currTime_def stamp_def fun_eq_iff)

lemma towards_stamped:
  assumes "\<And>t i. towards M G (Put Stdout (stamp t i text) p)"
  shows "towards M G (stamped text p)"
  unfolding stamped_eq by (auto intro!: towards_Call towards_halt assms split: if_splits)

lemma within_stamped: "within p n \<Longrightarrow> within (stamped text p) (n + 5)"
  by (simp add: stamped_eq eval_nat_numeral)

section \<open>Single moves\<close>

definition same_ids :: "sigproc \<Rightarrow> sigproc \<Rightarrow> bool" where
  "same_ids P Q = (spid Q = spid P \<and> sparent Q = sparent P \<and> smask Q = smask P \<and> scaught Q = scaught P)"

text \<open>A process is killed, or a signal that is not blocked is caught.\<close>

definition nudged :: "sigproc \<Rightarrow> sigproc \<Rightarrow> bool" where
  "nudged P Q = (same_ids P Q \<and>
     (scode Q = Halt Aborted \<and> spend Q = spend P \<or> scode Q = scode P \<and> (\<exists>sg. sg \<notin> smask P \<and> spend Q = spend P - {sg})))"

lemma update_ex: "R X \<Longrightarrow> \<exists>Q. ps[i := X] = ps[i := Q] \<and> R Q"
  by blast

lemma nudge:
  "sig_act ps i p mv = Some (ps', t) \<Longrightarrow> p = scode (ps ! i) \<Longrightarrow> mv = Strike \<or> mv = Deliver sg \<Longrightarrow>
   t = [] \<and> (\<exists>Q. ps' = ps[i := Q] \<and> nudged (ps ! i) Q)"
  by (cases "(ps, i, p, mv)" rule: sig_act.cases)
    (auto split: if_splits intro!: update_ex, auto simp: nudged_def same_ids_def)

lemma easy_reply: "easy c \<Longrightarrow> sig_reply ps i c f r = Some ps' \<Longrightarrow> ps' = ps[i := (ps ! i)\<lparr>scode := f r\<rparr>]"
  by (cases "(ps, i, c, f, r)" rule: sig_reply.cases) (auto simp: easy_def split: if_splits)

lemma easy_enabled: "easy c \<Longrightarrow> \<exists>r ps'. sig_reply ps i c f r = Some ps'"
proof -
  assume A: "easy c"
  define up :: int where "up = (if \<exists>Q\<in>set ps. spid Q = sparent (ps ! i) \<and> \<not> halted (scode Q) then sparent (ps ! i) else 1)"
  from A show ?thesis
    using exI [of "\<lambda>r. \<exists>ps'. sig_reply ps i c f r = Some ps'" "ok (if c = Proc Getppid then up else spid (ps ! i))"]
    by (cases "(ps, i, c, f, ok 0)" rule: sig_reply.cases) (auto simp: easy_def up_def)
qed

lemma nudged_towards:
  "nudged P Q \<Longrightarrow> towards M G (scode P) \<Longrightarrow> same_ids P Q \<and> towards M G (scode Q) \<and>
   (spend Q = spend P \<or> (\<exists>sg. sg \<notin> smask P \<and> spend Q = spend P - {sg}))"
  using towards_halt [of Aborted M G] unfolding nudged_def by (elim conjE disjE) (simp, metis)

lemma towards_act:
  assumes "towards M G p" and "\<not> G p" and "sig_act ps i p mv = Some (ps', t)" and "p = scode (ps ! i)"
  shows "(\<forall>s\<in>set t. \<not> M s) \<and> (\<exists>Q. ps' = ps[i := Q] \<and> same_ids (ps ! i) Q \<and> towards M G (scode Q) \<and>
    (spend Q = spend (ps ! i) \<or> (\<exists>sg. sg \<notin> smask (ps ! i) \<and> spend Q = spend (ps ! i) - {sg})))"
proof (cases mv)
  case (Reply r)
  from assms(1) show ?thesis
  proof (cases rule: towards.cases)
    case (towards_Put s p' q)
    then show ?thesis using assms(3) Reply by (auto simp: same_ids_def)
  next
    case (towards_Call c f)
    then obtain ps1 where "sig_reply ps i c f r = Some ps1" "ps' = ps1" "t = []" using assms(3) Reply by auto
    then have "ps' = ps[i := (ps ! i)\<lparr>scode := f r\<rparr>]" using easy_reply [OF towards_Call(2)] by blast
    then show ?thesis using towards_Call(3) \<open>t = []\<close>
      by (intro conjI exI [of _ "(ps ! i)\<lparr>scode := f r\<rparr>"]) (simp_all add: same_ids_def)
  qed (use assms in auto)
next
  case (Forked r r')
  have "\<not> easy c" if "sig_act ps i (Call c f) (Forked r r') = Some x" for c f x using that by (auto elim: sig_act.elims)
  with assms(1) show ?thesis using assms(2,3) Forked by cases auto
next
  case (Deliver sg)
  then show ?thesis using nudge [OF assms(3,4), of sg] nudged_towards assms(1,4) by fastforce
next
  case Strike
  then show ?thesis using nudge [OF assms(3,4)] nudged_towards assms(1,4) by fastforce
qed

lemma towards_enabled:
  assumes "towards M G p" and "\<not> G p" and "\<not> halted p"
  shows "\<exists>r ps' t. sig_act ps i p (Reply r) = Some (ps', t)"
  using assms(1)
proof (cases rule: towards.cases)
  case (towards_Call c f)
  then show ?thesis using easy_enabled [of c ps i f] by auto
qed (use assms in auto)

section \<open>Parent and child\<close>

abbreviation got_line :: "string \<Rightarrow> bool" where "got_line \<equiv> says ''Parent got signal''"
abbreviation ready_line :: "string \<Rightarrow> bool" where "ready_line \<equiv> says ''Child about to signal parent''"

definition restore_at :: "int set \<Rightarrow> prog" where
  "restore_at M = Call (Sig (Sigprocmask SIG_SETMASK (Some M))) (\<lambda>m.
     if rv m = -1 then perror ''sigprocmask'' (exit EXIT_FAILURE) else exit EXIT_SUCCESS)"

definition suspend_at :: "int set \<Rightarrow> prog" where
  "suspend_at M = Call (Sig (Sigsuspend {})) (\<lambda>s.
     if rv s = -1 \<and> err s \<noteq> EINTR then perror ''sigsuspend'' (exit EXIT_FAILURE)
     else stamped ''Parent got signal'' (restore_at M))"

definition kill_at :: "int \<Rightarrow> prog" where
  "kill_at p = Call (Sig (Kill p SYNC_SIG)) (\<lambda>k. if rv k = -1 then perror ''kill'' (exit EXIT_FAILURE) else exit_now EXIT_SUCCESS)"

definition ppid_at :: prog where
  "ppid_at = Call (Proc Getppid) (\<lambda>pp. kill_at (rv pp))"

definition fork_at :: "int set \<Rightarrow> prog" where
  "fork_at M = Call (Proc Fork) (\<lambda>f.
     if rv f = -1 then perror ''fork'' (exit EXIT_FAILURE)
     else if rv f = 0 then sig_sync_child else sig_sync_parent M)"

definition action_at :: "int set \<Rightarrow> prog" where
  "action_at M = Call (Sig (Sigaction SYNC_SIG ''handler'' SA_RESTART {})) (\<lambda>a.
     if rv a = -1 then perror ''sigaction'' (exit EXIT_FAILURE) else fork_at M)"

lemma fork_sig_sync_main_eq:
  "fork_sig_sync_main = Call (Sig (Sigprocmask SIG_BLOCK (Some {SYNC_SIG}))) (\<lambda>m.
     if rv m = -1 then perror ''sigprocmask'' (exit EXIT_FAILURE) else action_at (set (ints m)))"
  by (simp add: fork_sig_sync_main_def action_at_def fork_at_def cong: if_cong)

lemma not_says [simp]:
  "\<not> got_line ''sigprocmask''" "\<not> got_line ''sigaction''" "\<not> got_line ''fork''" "\<not> got_line ''sigsuspend''" "\<not> ready_line ''kill''"
  by (auto simp: says_def dest!: arg_cong [where f = length])

lemma parent_waits: "towards got_line (\<lambda>p. \<exists>M. p = suspend_at M) (sig_sync_parent M)"
proof -
  have "\<not> got_line (stamp t i ''Parent about to wait for signal'')" for t i by (subst says_stamp_iff) simp_all
  moreover have "sig_sync_parent M = stamped ''Parent about to wait for signal'' (suspend_at M)"
    by (simp add: sig_sync_parent_def suspend_at_def restore_at_def cong: if_cong)
  ultimately show ?thesis by (auto intro!: towards_stamped towards_Put intro: towards_goal)
qed

lemma child_works: "towards ready_line (\<lambda>p. \<exists>s. ready_line s \<and> p = Put Stdout s ppid_at) sig_sync_child"
proof -
  have other: "\<not> ready_line (stamp t i ''Child started - doing some work'')" for t i by (subst says_stamp_iff) simp_all
  have eq: "sig_sync_child = stamped ''Child started - doing some work'' (Call (Proc (Sleep 2)) (\<lambda>_. stamped ''Child about to signal parent'' ppid_at))"
    by (simp add: sig_sync_child_def ppid_at_def kill_at_def cong: if_cong)
  have "towards ready_line (\<lambda>p. \<exists>s. ready_line s \<and> p = Put Stdout s ppid_at) (stamped ''Child about to signal parent'' ppid_at)"
    by (auto intro!: towards_stamped intro: towards_goal says_stamp)
  then have "towards ready_line (\<lambda>p. \<exists>s. ready_line s \<and> p = Put Stdout s ppid_at)
      (Call (Proc (Sleep 2)) (\<lambda>_. stamped ''Child about to signal parent'' ppid_at))"
    by (intro towards_Call) simp
  then show ?thesis unfolding eq by (intro towards_stamped towards_Put other)
qed

lemma parent_restores: "towards (\<lambda>_. False) (\<lambda>p. \<exists>M. p = restore_at M) (stamped ''Parent got signal'' (restore_at M))"
  by (auto intro!: towards_stamped towards_Put intro: towards_goal)

section \<open>The invariant\<close>

text \<open>
  Before the fork, the parent (\<open>told\<close>: the child's kill has succeeded), and the child (\<open>said\<close>: it has
  printed that it is about to signal). While the parent waits, the signal is blocked, and it is
  pending as soon as it was sent.
\<close>

definition early :: "sigproc \<Rightarrow> bool" where
  "early P = (scode P = fork_sig_sync_main \<or>
     (\<exists>M. scode P = action_at M \<and> SYNC_SIG \<in> smask P) \<or>
     (\<exists>M. scode P = fork_at M \<and> SYNC_SIG \<in> smask P \<and> SYNC_SIG \<in> scaught P) \<or>
     towards got_line (\<lambda>_. False) (scode P))"

definition waiting :: "bool \<Rightarrow> sigproc \<Rightarrow> bool" where
  "waiting told P = (SYNC_SIG \<in> smask P \<and> SYNC_SIG \<in> scaught P \<and> spend P = (if told then {SYNC_SIG} else {}) \<and>
     towards got_line (\<lambda>p. \<exists>M. p = suspend_at M) (scode P))"

definition woken :: "bool \<Rightarrow> sigproc \<Rightarrow> bool" where
  "woken told P = (told \<and> towards (\<lambda>_. False) (\<lambda>p. \<exists>M. p = restore_at M) (scode P))"

definition parent_in :: "bool \<Rightarrow> sigproc \<Rightarrow> bool" where
  "parent_in told P = (halted (scode P) \<or> waiting told P \<or> woken told P)"

definition working :: "sigproc \<Rightarrow> bool" where
  "working C = towards ready_line (\<lambda>p. \<exists>s. ready_line s \<and> p = Put Stdout s ppid_at) (scode C)"

definition child_in :: "int \<Rightarrow> bool \<Rightarrow> bool \<Rightarrow> sigproc \<Rightarrow> bool" where
  "child_in p0 told said C = (sparent C = p0 \<and> spid C \<notin> {p0, 1} \<and> spend C = {} \<and>
     (\<not> told \<and> working C \<or>
      \<not> told \<and> said \<and> (scode C = ppid_at \<or> scode C \<in> {kill_at p0, kill_at 1}) \<or>
      told \<and> said \<and> scode C = exit_now EXIT_SUCCESS))"

definition logged :: "nat \<Rightarrow> (string \<Rightarrow> bool) \<Rightarrow> sig_sys \<Rightarrow> bool" where
  "logged i M S = (\<exists>s. (i, s) \<in> set (slog S) \<and> M s)"

definition alone :: "int \<Rightarrow> sig_sys \<Rightarrow> bool" where
  "alone p0 S = (\<exists>P. sprocs S = [P] \<and> spid P = p0 \<and> spend P = {} \<and> early P \<and> \<not> logged 0 got_line S)"

definition both :: "int \<Rightarrow> bool \<Rightarrow> bool \<Rightarrow> sig_sys \<Rightarrow> bool" where
  "both p0 told said S = (\<exists>P C. sprocs S = [P, C] \<and> spid P = p0 \<and> parent_in told P \<and> child_in p0 told said C \<and>
     (said \<longrightarrow> logged 1 ready_line S) \<and> (logged 0 got_line S \<longrightarrow> told))"

definition sync_inv :: "int \<Rightarrow> sig_sys \<Rightarrow> bool" where
  "sync_inv p0 S = (alone p0 S \<or> (\<exists>told said. both p0 told said S))"

text \<open>The one process before the fork.\<close>

lemma towards_failed [simp]: "\<not> M s \<Longrightarrow> out \<noteq> Exited_now 0 \<Longrightarrow> towards M G (Put q s (Halt out))"
  by (intro towards_Put towards_halt)

lemma early_nudged: "nudged P Q \<Longrightarrow> early P \<Longrightarrow> spend P = {} \<Longrightarrow> early Q \<and> spid Q = spid P \<and> spend Q = {}"
  unfolding nudged_def same_ids_def early_def by (auto intro: towards_halt)

lemma main_reply:
  "sig_act [P] 0 fork_sig_sync_main (Reply r) = Some (ps, t) \<Longrightarrow>
   t = [] \<and> (\<exists>Q. ps = [Q] \<and> early Q \<and> spid Q = spid P \<and> spend Q = spend P)"
  by (auto simp: fork_sig_sync_main_eq early_def split: if_splits)

lemma action_reply:
  "sig_act [P] 0 (action_at M) (Reply r) = Some (ps, t) \<Longrightarrow> SYNC_SIG \<in> smask P \<Longrightarrow>
   t = [] \<and> (\<exists>Q. ps = [Q] \<and> early Q \<and> spid Q = spid P \<and> spend Q = spend P)"
  by (auto simp: action_at_def early_def split: if_splits)

lemma fork_reply:
  "sig_act [P] 0 (fork_at M) (Reply r) = Some (ps, t) \<Longrightarrow>
   t = [] \<and> (\<exists>Q. ps = [Q] \<and> early Q \<and> spid Q = spid P \<and> spend Q = spend P)"
  by (auto simp: fork_at_def early_def split: if_splits)

lemma fork_both:
  assumes "sig_act [P] 0 (fork_at M) (Forked r r') = Some (ps, t)" and "SYNC_SIG \<in> smask P" and "SYNC_SIG \<in> scaught P" and "spend P = {}"
  shows "t = [] \<and> (\<exists>Q C. ps = [Q, C] \<and> spid Q = spid P \<and> parent_in False Q \<and> child_in (spid P) False False C)"
  using assms parent_waits [of M] child_works
  by (auto simp: fork_at_def parent_in_def waiting_def child_in_def working_def split: if_splits)

lemma no_fork: "sig_act ps i p (Forked r r') = Some x \<Longrightarrow> \<exists>f. p = Call (Proc Fork) f"
  by (auto elim: sig_act.elims)

lemma alone_act:
  assumes "spend P = {}" "early P" "1 < spid P" and act: "sig_act [P] 0 (scode P) mv = Some (ps, t)"
  shows "(\<forall>s\<in>set t. \<not> got_line s) \<and>
    ((\<exists>Q. ps = [Q] \<and> early Q \<and> spid Q = spid P \<and> spend Q = {}) \<or>
     (\<exists>Q C. ps = [Q, C] \<and> spid Q = spid P \<and> parent_in False Q \<and> child_in (spid P) False False C))"
proof (cases "towards got_line (\<lambda>_. False) (scode P)")
  case True
  then show ?thesis using towards_act [OF True _ act] assms(1) by (auto simp: same_ids_def early_def)
next
  case False
  show ?thesis
  proof (cases mv)
    case (Reply r)
    have "t = [] \<and> (\<exists>Q. ps = [Q] \<and> early Q \<and> spid Q = spid P \<and> spend Q = spend P)"
      using assms(2) False act Reply main_reply action_reply fork_reply unfolding early_def [of P] by metis
    then show ?thesis using assms(1) by auto
  next
    case (Forked r r')
    then obtain M where "scode P = fork_at M" "SYNC_SIG \<in> smask P" "SYNC_SIG \<in> scaught P"
      using assms False no_fork [of "[P]" 0 "scode P" r r'] by (auto simp: early_def fork_sig_sync_main_eq action_at_def)
    then show ?thesis using fork_both [of P M r r' ps t] Forked assms by auto
  next
    case (Deliver sg)
    then show ?thesis using nudge [OF act, of sg] early_nudged [of P] assms by fastforce
  next
    case Strike
    then show ?thesis using nudge [OF act] early_nudged [of P] assms by fastforce
  qed
qed

text \<open>The parent.\<close>

lemma waiting_nudged: "nudged P Q \<Longrightarrow> waiting told P \<Longrightarrow> parent_in told Q \<and> spid Q = spid P"
  unfolding nudged_def same_ids_def waiting_def parent_in_def by auto

lemma suspend_reply:
  assumes "sig_act ps i (suspend_at M) (Reply r) = Some (ps', t)" and "waiting told (ps ! i)"
  shows "t = [] \<and> (\<exists>Q. ps' = ps[i := Q] \<and> woken told Q \<and> spid Q = spid (ps ! i))"
proof -
  have "told" "t = []" "ps' = ps[i := (ps ! i)\<lparr>scode := stamped ''Parent got signal'' (restore_at M),
      spend := spend (ps ! i) - scaught (ps ! i)\<rparr>]"
    using assms by (auto simp: suspend_at_def waiting_def split: if_splits)
  then show ?thesis using parent_restores [of M] by (auto intro!: update_ex simp: woken_def)
qed

lemma waiting_act:
  assumes "waiting told (ps ! i)" and act: "sig_act ps i (scode (ps ! i)) mv = Some (ps', t)"
  shows "(\<forall>s\<in>set t. \<not> got_line s) \<and> (\<exists>Q. ps' = ps[i := Q] \<and> parent_in told Q \<and> spid Q = spid (ps ! i))"
proof (cases "\<exists>M. scode (ps ! i) = suspend_at M")
  case False
  have "towards got_line (\<lambda>p. \<exists>M. p = suspend_at M) (scode (ps ! i))" using assms by (simp add: waiting_def)
  from towards_act [OF this False act] assms(1) show ?thesis
    unfolding parent_in_def waiting_def same_ids_def by (auto split: if_splits)
next
  case True
  then obtain M where M: "scode (ps ! i) = suspend_at M" ..
  show ?thesis
  proof (cases mv)
    case (Reply r)
    then show ?thesis using suspend_reply [of ps i M r ps' t told] assms M by (auto simp: parent_in_def)
  next
    case (Forked r r')
    then show ?thesis using act M no_fork by (fastforce simp: suspend_at_def)
  next
    case (Deliver sg)
    then show ?thesis using nudge [OF act, of sg] waiting_nudged assms(1) by auto
  next
    case Strike
    then show ?thesis using nudge [OF act] waiting_nudged assms(1) by auto
  qed
qed

lemma woken_act:
  assumes "woken told (ps ! i)" and act: "sig_act ps i (scode (ps ! i)) mv = Some (ps', t)"
  shows "told \<and> (\<exists>Q. ps' = ps[i := Q] \<and> woken told Q \<and> spid Q = spid (ps ! i))"
proof (cases "\<exists>M. scode (ps ! i) = restore_at M")
  case False
  have "towards (\<lambda>_. False) (\<lambda>p. \<exists>M. p = restore_at M) (scode (ps ! i))" using assms by (simp add: woken_def)
  from towards_act [OF this False act] assms(1) show ?thesis unfolding woken_def same_ids_def by auto
next
  case True
  then obtain M where M: "scode (ps ! i) = restore_at M" ..
  have told using assms(1) by (simp add: woken_def)
  show ?thesis
  proof (cases mv)
    case (Reply r)
    then show ?thesis using act M \<open>told\<close>
      by (auto simp: restore_at_def woken_def split: if_splits intro!: update_ex towards_halt)
  next
    case (Forked r r')
    then show ?thesis using act M no_fork by (fastforce simp: restore_at_def)
  next
    case (Deliver sg)
    then show ?thesis using nudge [OF act, of sg] nudged_towards assms(1) by (auto simp: woken_def same_ids_def)
  next
    case Strike
    then show ?thesis using nudge [OF act] nudged_towards assms(1) by (auto simp: woken_def same_ids_def)
  qed
qed

lemma parent_act:
  assumes "parent_in told (ps ! i)" and "sig_act ps i (scode (ps ! i)) mv = Some (ps', t)"
  shows "((\<exists>s\<in>set t. got_line s) \<longrightarrow> told) \<and> (\<exists>Q. ps' = ps[i := Q] \<and> parent_in told Q \<and> spid Q = spid (ps ! i))"
proof -
  have "\<not> halted (scode (ps ! i))" using assms(2) by (auto elim: sig_act.elims)
  then show ?thesis
    using assms waiting_act [of told ps i mv ps' t] woken_act [of told ps i mv ps' t] unfolding parent_in_def by blast
qed

text \<open>The child.\<close>

lemma child_nudged:
  assumes "nudged C Q" and "child_in p0 told said C" and "\<not> halted (scode C)"
  shows "child_in p0 told said Q"
  using assms towards_halt [of Aborted] unfolding nudged_def same_ids_def child_in_def working_def by auto

lemma working_reply:
  assumes "sig_act [P, C] 1 (scode C) (Reply r) = Some (ps, t)" and "child_in p0 False said C" and "working C"
  shows "\<exists>Q. ps = [P, Q] \<and> child_in p0 False (said \<or> (\<exists>s\<in>set t. ready_line s)) Q"
proof (cases "\<exists>s. ready_line s \<and> scode C = Put Stdout s ppid_at")
  case True
  then show ?thesis using assms by (auto simp: child_in_def)
next
  case False
  have "towards ready_line (\<lambda>p. \<exists>s. ready_line s \<and> p = Put Stdout s ppid_at) (scode C)" using assms(3) by (simp add: working_def)
  from towards_act [OF this False assms(1)] assms(2) show ?thesis by (auto simp: child_in_def same_ids_def working_def)
qed

lemma told_parent: "parent_in False P \<Longrightarrow> \<not> halted (scode P) \<Longrightarrow> parent_in True (P\<lparr>spend := insert SYNC_SIG (spend P)\<rparr>)"
  by (auto simp: parent_in_def waiting_def woken_def)

lemma told_halted: "halted (scode P) \<Longrightarrow> parent_in told P"
  by (simp add: parent_in_def)

lemma kill_reply:
  assumes act: "sig_act [P, C] 1 (kill_at p) (Reply r) = Some (ps, t)" and "p \<in> {spid P, 1}" and "1 < spid P"
    and "parent_in False P" and "child_in (spid P) False said C" and said
  shows "t = [] \<and> (\<exists>told P' C'. ps = [P', C'] \<and> spid P' = spid P \<and> parent_in told P' \<and> child_in (spid P) told said C')"
proof (cases "rv r = -1")
  case True
  then show ?thesis using assms by (auto simp: kill_at_def child_in_def working_def)
next
  case False
  then have "p = spid P" "t = []" "ps = post_signal (spid P) SYNC_SIG [P, C\<lparr>scode := exit_now EXIT_SUCCESS\<rparr>]"
    using assms by (auto simp: kill_at_def child_in_def split: if_splits)
  then show ?thesis using assms told_parent [of P] told_halted [of P True]
    by (cases "halted (scode P)") (auto simp: post_signal_def child_in_def)
qed

lemma ppid_reply:
  assumes "sig_act [P, C] 1 ppid_at (Reply r) = Some (ps, t)" and "child_in (spid P) False said C" and said
  shows "t = [] \<and> (\<exists>Q. ps = [P, Q] \<and> child_in (spid P) False said Q)"
  using assms by (auto simp: ppid_at_def child_in_def split: if_splits)

lemma child_no_fork: "child_in p0 told said C \<Longrightarrow> scode C \<noteq> Call (Proc Fork) f"
  unfolding child_in_def working_def by (auto simp: ppid_at_def kill_at_def elim: towards.cases)

lemma child_reply:
  assumes act: "sig_act [P, C] 1 (scode C) (Reply r) = Some (ps, t)" and P: "parent_in told P" "1 < spid P"
    and C: "child_in (spid P) told said C"
  shows "\<exists>told' P' C'. (told \<longrightarrow> told') \<and> ps = [P', C'] \<and> spid P' = spid P \<and> parent_in told' P' \<and>
    child_in (spid P) told' (said \<or> (\<exists>s\<in>set t. ready_line s)) C'"
proof -
  consider "\<not> told" "working C" | "\<not> told" said "scode C = ppid_at"
    | p where "\<not> told" said "scode C = kill_at p" "p \<in> {spid P, 1}" | "scode C = exit_now EXIT_SUCCESS"
    using C by (auto simp: child_in_def)
  then show ?thesis
  proof cases
    case 1
    then show ?thesis using working_reply [of P C r ps t "spid P" said] act P C by auto
  next
    case 2
    then show ?thesis using ppid_reply [of P C r ps t said] act P C by auto
  next
    case 3
    then show ?thesis using kill_reply [of P C p r ps t said] act P C by auto
  qed (use act in simp)
qed

lemma child_act:
  assumes act: "sig_act [P, C] 1 (scode C) mv = Some (ps, t)" and P: "parent_in told P" "1 < spid P"
    and C: "child_in (spid P) told said C"
  shows "\<exists>told' P' C'. (told \<longrightarrow> told') \<and> ps = [P', C'] \<and> spid P' = spid P \<and> parent_in told' P' \<and>
    child_in (spid P) told' (said \<or> (\<exists>s\<in>set t. ready_line s)) C'"
proof -
  have nudged: ?thesis if mv: "mv = Strike \<or> mv = Deliver sg" for sg
  proof -
    have "\<not> halted (scode C)" using act by (auto elim: sig_act.elims)
    then obtain Q where "ps = [P, Q]" "t = []" "child_in (spid P) told said Q"
      using nudge [OF act _ mv] child_nudged [OF _ C] by auto
    then show ?thesis using P by auto
  qed
  show ?thesis
  proof (cases mv)
    case (Reply r)
    then show ?thesis using child_reply [of P C r ps t told said] act P C by simp
  next
    case (Forked r r')
    then obtain f where "scode C = Call (Proc Fork) f" using no_fork act by metis
    then show ?thesis using child_no_fork [OF C] by simp
  qed (use nudged in blast)+
qed

section \<open>Every schedule\<close>

lemma logged_append [simp]:
  "logged i M \<lparr>sprocs = ps, slog = slog S @ map (Pair j) t\<rparr> \<longleftrightarrow> logged i M S \<or> i = j \<and> (\<exists>s\<in>set t. M s)"
  by (auto simp: logged_def)

lemma sig_step_cases:
  assumes "sig_step (i, mv) S = Some S'"
  obtains ps t where "i < length (sprocs S)" "sig_act (sprocs S) i (scode (sprocs S ! i)) mv = Some (ps, t)"
    "S' = \<lparr>sprocs = ps, slog = slog S @ map (Pair i) t\<rparr>"
  using assms by (auto simp: sig_step_def split: if_splits)

lemma alone_step:
  assumes "sig_step (i, mv) S = Some S'" and "alone p0 S" and "1 < p0"
  shows "sync_inv p0 S'"
  using assms(1)
proof (rule sig_step_cases)
  fix ps t
  assume act: "i < length (sprocs S)" "sig_act (sprocs S) i (scode (sprocs S ! i)) mv = Some (ps, t)"
    "S' = \<lparr>sprocs = ps, slog = slog S @ map (Pair i) t\<rparr>"
  obtain P where "sprocs S = [P]" "spid P = p0" "spend P = {}" "early P" "\<not> logged 0 got_line S" using assms(2) by (auto simp: alone_def)
  moreover from this act have "i = 0" by simp
  ultimately have "alone p0 S' \<or> both p0 False False S'"
    using act assms(3) alone_act [of P mv ps t] unfolding alone_def both_def by auto
  then show ?thesis unfolding sync_inv_def by blast
qed

lemma both_step:
  assumes "sig_step (i, mv) S = Some S'" and "both p0 told said S" and "1 < p0"
  shows "\<exists>told' said'. both p0 told' said' S'"
  using assms(1)
proof (rule sig_step_cases)
  fix ps t
  assume act: "i < length (sprocs S)" "sig_act (sprocs S) i (scode (sprocs S ! i)) mv = Some (ps, t)"
    "S' = \<lparr>sprocs = ps, slog = slog S @ map (Pair i) t\<rparr>"
  obtain P C where "sprocs S = [P, C]" and PC: "spid P = p0" "parent_in told P" "child_in p0 told said C"
    and log: "said \<longrightarrow> logged 1 ready_line S" "logged 0 got_line S \<longrightarrow> told" using assms(2) by (auto simp: both_def)
  then consider "i = 0" "sig_act [P, C] 0 (scode P) mv = Some (ps, t)" | "i = 1" "sig_act [P, C] 1 (scode C) mv = Some (ps, t)"
    using act by (cases i) auto
  then show ?thesis
  proof cases
    case 1
    then show ?thesis using parent_act [of told "[P, C]" 0 mv ps t] PC log act(3)
      by (intro exI [of _ told] exI [of _ said]) (auto simp: both_def)
  next
    case 2
    from child_act [OF this(2) PC(2), of said] PC assms(3) obtain told' P' C' where
      "told \<longrightarrow> told'" "ps = [P', C']" "spid P' = p0" "parent_in told' P'"
      "child_in p0 told' (said \<or> (\<exists>s\<in>set t. ready_line s)) C'" by auto
    then have "both p0 told' (said \<or> (\<exists>s\<in>set t. ready_line s)) S'" using log act(3) 2(1) by (auto simp: both_def)
    then show ?thesis by blast
  qed
qed

lemma sync_inv_run:
  "sig_run mvs S = Some S' \<Longrightarrow> sync_inv p0 S \<Longrightarrow> 1 < p0 \<Longrightarrow> sync_inv p0 S'"
proof (induction mvs arbitrary: S)
  case (Cons mv mvs)
  then obtain S1 where S1: "sig_step mv S = Some S1" "sig_run mvs S1 = Some S'" by (auto split: option.splits)
  then have "sync_inv p0 S1"
    using Cons.prems alone_step both_step unfolding sync_inv_def by (cases mv) blast
  then show ?case using Cons S1 by blast
qed simp

lemma sync_inv_boot: "sync_inv self (sync_boot self up M)"
  by (simp add: sync_inv_def alone_def sync_boot_def early_def logged_def)

text \<open>Each answer to a process brings it one step nearer to its end; other moves do not take it back.\<close>

definition progress_of :: "nat \<Rightarrow> nat \<times> sig_move \<Rightarrow> bool" where
  "progress_of j = (\<lambda>(i, mv). i = j \<and> mv \<noteq> Strike \<and> (\<forall>sg. mv \<noteq> Deliver sg))"

lemma post_signal_codes [simp]: "map scode (post_signal p sg ps) = map scode ps"
  by (auto simp: post_signal_def)

lemma reply_codes: "sig_reply ps i c f r = Some ps' \<Longrightarrow> map scode ps' = (map scode ps)[i := f r]"
  by (cases "(ps, i, c, f, r)" rule: sig_reply.cases) (auto simp: map_update split: if_splits)

lemma act_codes:
  assumes "sig_act ps i p mv = Some (ps', t)" and "p = scode (ps ! i)" and "i < length ps"
  shows "\<exists>p' cs. map scode ps' = (map scode ps)[i := p'] @ cs \<and>
    (\<forall>n. within p n \<longrightarrow> (if progress_of i (i, mv) then 0 < n \<and> within p' (n - 1) else within p' n))"
  using assms
  by (cases "(ps, i, p, mv)" rule: sig_act.cases)
    (fastforce simp: progress_of_def map_update list_update_id dest: reply_codes split: if_splits)+

lemma step_progress:
  assumes "sig_step mv S = Some S'" and j: "j < length (sprocs S)" and "within (scode (sprocs S ! j)) n"
  shows "j < length (sprocs S') \<and>
    (if progress_of j mv then 0 < n \<and> within (scode (sprocs S' ! j)) (n - 1) else within (scode (sprocs S' ! j)) n)"
proof -
  obtain i m where mv: "mv = (i, m)" by (cases mv)
  from assms(1)[unfolded mv] show ?thesis
  proof (rule sig_step_cases)
    fix ps t
    assume i: "i < length (sprocs S)" and act: "sig_act (sprocs S) i (scode (sprocs S ! i)) m = Some (ps, t)"
      and S': "S' = \<lparr>sprocs = ps, slog = slog S @ map (Pair i) t\<rparr>"
    obtain p' cs where codes: "map scode ps = (map scode (sprocs S))[i := p'] @ cs"
      and p': "\<And>n. within (scode (sprocs S ! i)) n \<Longrightarrow>
        if progress_of i (i, m) then 0 < n \<and> within p' (n - 1) else within p' n"
      using act_codes [OF act refl i] by blast
    have len: "length ps = length (sprocs S) + length cs" using arg_cong [OF codes, of length] by simp
    have "scode (ps ! j) = (if j = i then p' else scode (sprocs S ! j))"
      using arg_cong [OF codes, of "\<lambda>xs. xs ! j"] j len by (auto simp: nth_append)
    then show ?thesis using p' assms(3) j len S' mv by (auto simp: progress_of_def)
  qed
qed

lemma run_progress:
  "sig_run mvs S = Some S' \<Longrightarrow> j < length (sprocs S) \<Longrightarrow> within (scode (sprocs S ! j)) n \<Longrightarrow>
   length (filter (progress_of j) mvs) \<le> n"
proof (induction mvs arbitrary: S n)
  case (Cons mv mvs)
  then obtain S1 where S1: "sig_step mv S = Some S1" "sig_run mvs S1 = Some S'" by (auto split: option.splits)
  from step_progress [OF S1(1) Cons.prems(2,3)] show ?case
    using Cons.IH [OF S1(2), of n] Cons.IH [OF S1(2), of "n - 1"] by (auto split: if_splits)
qed simp

lemma within_main: "within fork_sig_sync_main 17"
  by (simp add: fork_sig_sync_main_def sig_sync_child_def sig_sync_parent_def stamped_eq)

lemma parent_enabled:
  assumes "parent_in True (sprocs S ! i)" and "\<not> halted (scode (sprocs S ! i))" and "i < length (sprocs S)"
  shows "\<exists>r S'. sig_step (i, Reply r) S = Some S'"
proof -
  let ?P = "sprocs S ! i"
  have "\<exists>r ps t. sig_act (sprocs S) i (scode ?P) (Reply r) = Some (ps, t)"
  proof (cases "\<exists>M. scode ?P = suspend_at M \<and> waiting True ?P \<or> scode ?P = restore_at M")
    case True
    then show ?thesis
      by (auto simp: suspend_at_def restore_at_def waiting_def intro!: exI [of _ "fail EINTR"])
  next
    case False
    then show ?thesis using assms towards_enabled [of _ _ "scode ?P" "sprocs S" i]
      unfolding parent_in_def waiting_def woken_def by blast
  qed
  then show ?thesis using assms(3) by (fastforce simp: sig_step_def)
qed

text \<open>What the processes print comes line by line.\<close>

lemma act_lines: "sig_act ps i p mv = Some (ps', t) \<Longrightarrow> length t \<le> 1"
  by (cases "(ps, i, p, mv)" rule: sig_act.cases) (auto split: if_splits)

lemma step_lines: "sig_step mv S = Some S' \<Longrightarrow> \<exists>k. slog S' = slog S @ k \<and> length k \<le> 1"
  by (cases mv) (auto elim!: sig_step_cases dest: act_lines)

lemma run_lines: "sig_run mvs S = Some S' \<Longrightarrow> \<exists>k. slog S' = slog S @ k"
  by (induction mvs arbitrary: S) (simp, fastforce split: option.splits dest: step_lines)

lemma run_prefix:
  "sig_run mvs S = Some S' \<Longrightarrow> slog S' = l @ k \<Longrightarrow> length (slog S) \<le> length l \<Longrightarrow>
   \<exists>mvs1 S1. sig_run mvs1 S = Some S1 \<and> slog S1 = l"
proof (induction mvs arbitrary: S)
  case Nil
  then show ?case by (intro exI [of _ "[]"]) auto
next
  case (Cons mv mvs)
  then obtain S1 where S1: "sig_step mv S = Some S1" "sig_run mvs S1 = Some S'" by (auto split: option.splits)
  show ?case
  proof (cases "length (slog S) = length l")
    case True
    then have "slog S = l" using run_lines [OF Cons.prems(1)] Cons.prems(2) by auto
    then show ?thesis by (intro exI [of _ "[]"]) simp
  next
    case False
    then have "length (slog S1) \<le> length l" using step_lines [OF S1(1)] Cons.prems(3) by auto
    then obtain mvs1 S2 where "sig_run mvs1 S1 = Some S2" "slog S2 = l" using Cons.IH [OF S1(2) Cons.prems(2)] by blast
    then show ?thesis using S1(1) by (intro exI [of _ "mv # mvs1"]) simp
  qed
qed

lemma got_ready:
  assumes "sig_run mvs (sync_boot self up M) = Some S" and "1 < self" and "logged 0 got_line S"
  shows "logged 1 ready_line S"
  using sync_inv_run [OF assms(1) sync_inv_boot assms(2)] assms(3)
  by (auto simp: sync_inv_def alone_def both_def child_in_def)

section \<open>Properties\<close>

text \<open>(C8) Parent and child of fork\_sig\_sync.c under every schedule, with every failure of a call and with
  kills at any point: when the parent prints \<open>Parent got signal\<close>, the child has printed
  \<open>Child about to signal parent\<close> before. The parent never goes on ahead of the child's work.\<close>

theorem sig_sync_order:
  assumes "sig_run mvs (sync_boot self up M) = Some S" and "1 < self"
    and "slog S = before @ (0, line) # after" and "says ''Parent got signal'' line"
  shows "\<exists>line'. (1, line') \<in> set before \<and> says ''Child about to signal parent'' line'"
proof -
  obtain mvs1 S1 where S1: "sig_run mvs1 (sync_boot self up M) = Some S1" "slog S1 = before @ [(0, line)]"
    using run_prefix [OF assms(1), of "before @ [(0, line)]" after] assms(3) by (auto simp: sync_boot_def)
  have "logged 1 ready_line S1" using got_ready [OF S1(1) assms(2)] S1(2) assms(4) by (auto simp: logged_def)
  then show ?thesis using S1(2) by (auto simp: logged_def)
qed

text \<open>(C9) No wake-up is lost in fork\_sig\_sync.c. In no schedule, whatever has become of the child, does the
  parent make more than 17 steps; and whenever the child has signalled it and ended with status 0, the
  parent has ended or can make its next step, wherever it is when the signal arrives: in particular
  its sigsuspend does not wait for ever.\<close>

theorem sig_sync_wakes:
  assumes "sig_run mvs (sync_boot self up M) = Some S" and "1 < self"
  shows "length (filter (progress_of 0) mvs) \<le> 17 \<and>
    (1 < length (sprocs S) \<and> scode (sprocs S ! 1) = Halt (Exited_now 0) \<longrightarrow>
       halted (scode (sprocs S ! 0)) \<or> (\<exists>r S'. sig_step (0, Reply r) S = Some S'))"
proof (intro conjI impI)
  show "length (filter (progress_of 0) mvs) \<le> 17"
    using run_progress [OF assms(1), of 0 17] within_main by (simp add: sync_boot_def)
next
  assume child: "1 < length (sprocs S) \<and> scode (sprocs S ! 1) = Halt (Exited_now 0)"
  have "\<not> working C" if "scode C = Halt (Exited_now 0)" for C
    using that by (auto simp: working_def elim: towards.cases)
  then have "parent_in True (sprocs S ! 0)"
    using sync_inv_run [OF assms(1) sync_inv_boot assms(2)] child
    by (auto simp: sync_inv_def alone_def both_def child_in_def ppid_at_def kill_at_def)
  then show "halted (scode (sprocs S ! 0)) \<or> (\<exists>r S'. sig_step (0, Reply r) S = Some S')"
    using parent_enabled [of S 0] child by fastforce
qed

text \<open>
  A schedule in which the child does its work and signals before the parent has printed anything;
  then the parent goes on, through sigsuspend, to its end.
\<close>

definition stamp_replies :: "nat \<Rightarrow> int \<Rightarrow> (nat \<times> sig_move) list" where
  "stamp_replies i pid = map (Pair i) [Reply (ok 1000), Reply (ok 1), Reply (got ''10:15:00''), Reply (ok pid), Reply (ok 0)]"

definition signal_first :: "(nat \<times> sig_move) list" where
  "signal_first =
     [(0, Reply (ok 0)), (0, Reply (ok 0)), (0, Forked (ok 101) (ok 0))] @
     stamp_replies 1 101 @ [(1, Reply (ok 0))] @ stamp_replies 1 101 @ [(1, Reply (ok 100)), (1, Reply (ok 0))]"

definition then_parent :: "(nat \<times> sig_move) list" where
  "then_parent = stamp_replies 0 100 @ [(0, Reply (fail EINTR))] @ stamp_replies 0 100"

lemmas sync_demo_simps = sig_step_def sync_boot_def fork_sig_sync_main_def sig_sync_child_def sig_sync_parent_def stamped_eq
  stamp_replies_def post_signal_def

theorem sig_sync_wakes_witness:
  "\<exists>S r S'. sig_run signal_first (sync_boot 100 1 {}) = Some S \<and> SYNC_SIG \<in> spend (sprocs S ! 0) \<and>
     \<not> halted (scode (sprocs S ! 0)) \<and> sig_step (0, Reply r) S = Some S'"
proof -
  obtain S where S: "sig_run signal_first (sync_boot 100 1 {}) = Some S" "1 < length (sprocs S)"
    "scode (sprocs S ! 1) = Halt (Exited_now 0)" "SYNC_SIG \<in> spend (sprocs S ! 0)" "\<not> halted (scode (sprocs S ! 0))"
    by (simp add: signal_first_def sync_demo_simps)
  then show ?thesis using sig_sync_wakes [OF S(1)] by auto
qed

theorem sig_sync_order_witness:
  "\<exists>S before line after. sig_run (signal_first @ then_parent) (sync_boot 100 1 {}) = Some S \<and>
     slog S = before @ (0, line) # after \<and> says ''Parent got signal'' line \<and>
     (\<exists>line'. (1, line') \<in> set before \<and> says ''Child about to signal parent'' line')"
proof -
  obtain S where S: "sig_run (signal_first @ then_parent) (sync_boot 100 1 {}) = Some S"
    "slog S = map (Pair 1) [stamp ''10:15:00'' 101 ''Child started - doing some work'', stamp ''10:15:00'' 101 ''Child about to signal parent''] @
       map (Pair 0) [stamp ''10:15:00'' 100 ''Parent about to wait for signal'', stamp ''10:15:00'' 100 ''Parent got signal'']"
    by (simp add: signal_first_def then_parent_def sync_demo_simps CURR_TIME_BUF_SIZE_def)
  let ?before = "butlast (slog S)"
  have line: "slog S = ?before @ (0, stamp ''10:15:00'' 100 ''Parent got signal'') # []" using S(2) by simp
  have "\<exists>line'. (1, line') \<in> set ?before \<and> says ''Child about to signal parent'' line'"
    using sig_sync_order [OF S(1) _ line says_stamp] by simp
  then show ?thesis using S(1) line says_stamp by blast
qed

end
