(* ===== verification/Spec2Isabelle.thy ===== *)
theory Spec2Isabelle
  imports Seqnum_Net Ucase Udp_Echo Stream_Xfr Processes Pipes Pipe_Sync Simple_Pipe Inotify Tty Event_IO Msg_Queue Shared_Mem
    Files Signals Users Sys_Info Runtime Fifo_System Sem_System Mq_System Signal_Sync
begin

text \<open>
  Verification of the programs of the repository: about a hundred Linux system programs and
  library functions in C, one directory per subject, after the chapters of The Linux Programming
  Interface.

  \<^bold>\<open>The model.\<close> Every C function that does something observable is a \<open>prog\<close> (theory \<open>Syscalls\<close>): a
  tree of output (\<open>Put\<close>), calls of the kernel or of a library outside of the repository (\<open>Call\<close>),
  and ends of the process (\<open>Halt\<close>). Calls appear in the order of the source with its conditions
  between them; a call's answer (\<open>ret\<close>) holds its value, errno and what it stored through
  pointers. A function that returns takes its continuation as an argument. Undefined behaviour
  (a NULL argument, an index outside of an array, an overflowing int, a division by zero, a double
  free) is the outcome \<open>Undefined\<close>. What is not under src is either the kernel a program runs
  against or a parameter (\<open>strsignal\<close>, \<open>strerror\<close>, \<open>crypt\<close>, texts of floating-point numbers, getLong,
  errExit and fatal, which src/lib does not define in a form that compiles, strol, which nothing defines).

  A statement about every behaviour of the system quantifies over the kernel or uses \<open>always\<close>,
  \<open>calls_only\<close> and \<open>safe\<close> over all answers the manual pages allow (locale \<open>posix\<close>). A statement about
  what programs achieve uses a small kernel with the state that matters: connections
  (\<open>Net_Kernel\<close>), datagrams (\<open>Dgram\<close>, locale \<open>dgram_kernel\<close>), a descriptor table (\<open>Fd_Table\<close>, locale
  \<open>fd_table\<close>), streams to copy (\<open>Stream_Xfr\<close>, locale \<open>copy_kernel\<close>), priority queues of messages
  (\<open>Msg_Queue\<close>, locales \<open>mq_kernel\<close> and \<open>mq_limits\<close>), a file, a heap, pending signals, accounts. Several processes at
  once are systems in the sense of \<open>Interleaving\<close>, whose step relation lets any process go next (a
  program that forks and talks over a pipe), or of \<open>Schedules\<close>, where a list of moves decides (programs
  that are started independently of each other), or of \<open>Signal_Sync\<close> (a program that forks and
  talks by a signal).

  \<^bold>\<open>Loops and fuel.\<close> A loop over data is structural recursion, and \<open>free_loop\<close> has a termination
  proof. A loop that ends only when the system says so takes a number of turns, and \<open>Unfinished\<close>
  is the outcome when they are used up; the theorems about such loops either say how many turns
  are enough (one more than the bytes to read, the signals to catch, the children to wait for) or
  hold for every number. Servers that never end are modelled by their first n turns for every n.

  \<^bold>\<open>Theories, sources, results.\<close>
  \<^item> \<open>Prelude\<close>, \<open>C_Numbers\<close>, \<open>Getopt\<close>: bytes, C strings and character classes, int and long with
    their limits, strtol, atoi, decimal output and bytes of an int with their round trips, getopt.
  \<^item> \<open>Read_Line\<close> (sockets/read\_line.c), \<open>Seqnum_Net\<close> (sockets/net\_stream\_sock\_seqnum\_*.c): one line is read whatever the
    interruptions, the server answers like the allocator of \<open>Seq_Alloc\<close>, ranges are disjoint,
    client and server understand each other, no array is overrun.
  \<^item> \<open>Seqnum_Fifo\<close> (pipes\_and\_fifo/fifo\_seqnum\_*.c): the same contract (locale \<open>seq_allocator\<close>) for the FIFO server, struct
    bytes, names of FIFOs, their removal; negative requests break it. The theory at hand shows
    that the two servers agree.
  \<^item> \<open>Schedules\<close>, \<open>Fifo_System\<close>, \<open>Sem_System\<close>, \<open>Mq_System\<close>: programs that run at the same time and share state. A schedule says who goes
    next and what the system answers; invariants go through the locale \<open>schedule_invariant\<close>. The FIFO
    server with any number of clients never gives a number to two of them, and finds the FIFO of
    every client that has not ended; the semaphore programs (posix\_semaphores) conserve the units of
    a semaphore; a message that pmsg\_send.c sends (posix\_message\_queues) is received by at most one
    pmsg\_receive.c and never lost or altered; all under every schedule, with failing calls and
    killed processes.
  \<^item> \<open>Ucase\<close> (sockets/datagram\_unix\_sock\_ucase\_*.c, i6d\_ucase\_*.c), \<open>Udp_Echo\<close> (sockets/iterative\_udp\_echo\_*.c over \<open>Inet_Sockets\<close>, sockets/inet\_sockets.c, and \<open>Daemon\<close>,
    daemons/become\_daemon.c), \<open>Stream_Xfr\<close> (sockets/stream\_sock\_xfr\_*.c): servers and clients connected to each
    other, descriptors that are not leaked, the standard descriptors of a daemon.
  \<^item> \<open>Pipes\<close>, \<open>Interleaving\<close>, \<open>Pipe_Sync\<close>, \<open>Simple_Pipe\<close> (pipes\_and\_fifo): the wiring of ls and wc, the commands that popen\_glob
    gives to the shell, pipe\_sync as a barrier and the transfer of simple\_pipe under every scheduling;
    both always come to their end, with a bound of the steps and without deadlock. Invariants and
    measures go through the locales \<open>system_invariant\<close> and \<open>system_progress\<close>.
  \<^item> \<open>Wait_Status\<close>, \<open>Processes\<close> (procexec, time/curr\_time.c): wait statuses, fork, vfork, exec, exit handlers, waiting for
    all children in whatever order they end (locale \<open>parent_kernel\<close>).
  \<^item> \<open>Signal_Sync\<close> (procexec/fork\_sig\_sync.c): parent and child with their pids, masks, pending and caught signals.
    Under every schedule the parent goes on only after the child has announced its signal, and the
    signal is not lost when it arrives before the parent waits for it.
  \<^item> \<open>Signals\<close> (signals): a sender and a receiver over one system with a mask, pending signals and handlers; standard
    signals are merged, realtime signals arrive in order with their data.
  \<^item> \<open>Inotify\<close> (inotify), \<open>Tty\<close> (terminals, alternative\_io/demo\_sigio.c), \<open>Event_IO\<close> (alternative\_io): event buffers, terminal
    modes bit by bit and their restoration, select, poll and epoll.
  \<^item> \<open>Msg_Queue\<close>, \<open>Shared_Mem\<close> (posix\_message\_queues, posix\_semaphores, posix\_shared\_memory, memory\_mappings):
    priorities, notification, shared bytes.
  \<^item> \<open>Errors\<close>, \<open>Files\<close> (lib/error\_functions.c, fileio, files, filesys), \<open>Users\<close> (users\_and\_groups), \<open>Sys_Info\<close> (sysinfo, syslim, time),
    \<open>Runtime\<close> (mem\_alloc, proc, filebuff, threads, signals/t\_sigaltstack.c): error messages inside their arrays, reading
    back what was written, exact authentication, limits, the heap, int arithmetic, stdio buffers.

  \<^bold>\<open>Not modelled.\<close> errMsg, errExit, err\_exit and fatal of lib/error\_functions.c (they do not compile),
  lib/get\_num.c and getLong and getInt of its header (declarations only), lib/tlpi\_hdr.h, and
  sockets/concurrent\_tcp\_*.c (comments only). Floating-point output, the capacity of
  a pipe, and memory that is exhausted are outside of the model; so are the texts of perror, which
  are recorded by their argument. A signal handler runs at calls and not inside of library functions,
  so that the async-signal-unsafety that the sources mention in comments is not visible.
\<close>

section \<open>The two sequence-number services agree\<close>

text \<open>The starts of consecutive ranges of the given lengths.\<close>

fun range_starts :: "int \<Rightarrow> int list \<Rightarrow> int list" where
  "range_starts a [] = []"
| "range_starts a (n # ns) = a # range_starts (a + n) ns"

lemma range_starts_sums: "range_starts a ns = map (\<lambda>i. a + sum_list (take i ns)) [0..<length ns]"
proof (induction ns arbitrary: a)
  case (Cons n ns)
  have "[0..<length (n # ns)] = 0 # map Suc [0..<length ns]" by (simp add: upt_conv_Cons map_Suc_upt del: upt_Suc)
  then show ?case by (simp add: Cons.IH comp_def ac_simps del: upt_Suc)
qed simp

lemma sum_list_bound: "\<forall>n\<in>set ns. 0 \<le> n \<Longrightarrow> n \<in> set ns \<Longrightarrow> n \<le> sum_list (ns :: int list)"
  by (rule member_le_sum_list) auto

lemma tcp_replies_starts:
  assumes "\<forall>n\<in>set ns. 0 \<le> n" and "0 \<le> a" and "a + sum_list ns \<le> INT_MAX"
  shows "tcp_replies (word_of_int a) (map (\<lambda>n. show_int n @ [NL]) ns) = map (\<lambda>s. show_int s @ [NL]) (range_starts a ns)"
  using assms
proof (induction ns arbitrary: a)
  case (Cons n ns)
  have pos: "0 \<le> n" "0 \<le> sum_list ns" using Cons.prems(1) by (auto intro: sum_list_nonneg)
  then have len: "request_len (show_int n @ [NL]) = n" using Cons.prems by (intro request_len_show) auto
  have ih: "tcp_replies (word_of_int (a + n)) (map (\<lambda>n. show_int n @ [NL]) ns) =
      map (\<lambda>s. show_int s @ [NL]) (range_starts (a + n) ns)"
    using Cons.prems pos by (intro Cons.IH) (auto simp: ac_simps)
  have "sint (word_of_int a :: 32 word) = a"
    using Cons.prems(2,3) pos by (subst sint_eq_uint_small) (auto simp: int_limits unsigned_of_int take_bit_int_eq_self)
  then show ?case using pos ih by (simp add: tcp_serve_def len tcp_reply_def wi_hom_syms)
qed simp

lemma fifo_deliveries_starts:
  assumes "\<forall>(p, n)\<in>set rs. INT_MIN \<le> p \<and> p \<le> INT_MAX \<and> 0 \<le> n \<and> client_fifo p \<in> av" and "0 \<le> a" and "a + sum_list (map snd rs) \<le> INT_MAX"
  shows "fifo_deliveries av a (map (\<lambda>(p, n). request_bytes \<lparr>pid = p, seqLen = n\<rparr>) rs) =
      map2 (\<lambda>(p, n) s. (client_fifo p, int_bytes s)) rs (range_starts a (map snd rs)) \<and>
    all_fair (fifo_serve av) fifo_fair a (map (\<lambda>(p, n). request_bytes \<lparr>pid = p, seqLen = n\<rparr>) rs)"
  using assms
proof (induction rs arbitrary: a)
  case (Cons r rs)
  obtain p n where r: "r = (p, n)" by (cases r)
  have "\<forall>m\<in>set (map snd rs). 0 \<le> m" using Cons.prems(1) by auto
  then have "0 \<le> sum_list (map snd rs)" by (intro sum_list_nonneg) auto
  then have pos: "0 \<le> n" "0 \<le> sum_list (map snd rs)" using Cons.prems(1) r by auto
  then have p: "INT_MIN \<le> p" "p \<le> INT_MAX" "INT_MIN \<le> n" "n \<le> INT_MAX" "client_fifo p \<in> av"
    using Cons.prems r by (auto simp: int_limits)
  have ih: "fifo_deliveries av (a + n) (map (\<lambda>(p, n). request_bytes \<lparr>pid = p, seqLen = n\<rparr>) rs) =
      map2 (\<lambda>(p, n) s. (client_fifo p, int_bytes s)) rs (range_starts (a + n) (map snd rs)) \<and>
    all_fair (fifo_serve av) fifo_fair (a + n) (map (\<lambda>(p, n). request_bytes \<lparr>pid = p, seqLen = n\<rparr>) rs)"
    using Cons r pos by (intro Cons.IH) auto
  have "fifo_serve av a (request_bytes \<lparr>pid = p, seqLen = n\<rparr>) = (Some (a, n), a + n)"
    "fifo_fair a (request_bytes \<lparr>pid = p, seqLen = n\<rparr>)"
    using p pos Cons.prems(2,3) r by (simp_all add: fifo_serve_def fifo_fair_def request_bytes_decode client_fifo_fits int_limits)
  then show ?case using p ih by (simp add: r request_bytes_decode client_fifo_fits)
qed simp

text \<open>
  (C13) The FIFO server and the TCP server are interchangeable: for the same requests, with lengths
  that are not negative and whose sum is an int, they assign the same ranges. Both give the i-th
  client the sum of the lengths before it, the one as four bytes in the client's FIFO, the other as
  a decimal line on the client's connection.
\<close>

theorem services_agree:
  assumes "\<forall>(p, n)\<in>set rs. INT_MIN \<le> p \<and> p \<le> INT_MAX \<and> 0 \<le> n \<and> client_fifo p \<in> av" and "sum_list (map snd rs) \<le> INT_MAX"
    and "12 < rl" and "length b = INT_LEN"
  shows "let starts = map (\<lambda>i. sum_list (take i (map snd rs))) [0..<length rs] in
    outbox (final net_K (seqnum_server_loop (length rs) rl lfd 0 b)
      \<lparr>pending = map (\<lambda>(p, n). map Byte (show_int n @ [NL])) rs, conn = [], outbox = [], opened = 0\<rparr>) =
      map (\<lambda>s. show_int s @ [NL]) starts \<and>
    fifo_net.delivered (final fifo_K (fifo_server_loop (length rs) fd 0)
      \<lparr>inbox = map (\<lambda>(p, n). request_bytes \<lparr>pid = p, seqLen = n\<rparr>) rs, fifos = av, current = [], delivered = []\<rparr>) =
      map2 (\<lambda>(p, n) s. (client_fifo p, int_bytes s)) rs starts"
proof -
  let ?k = "\<lparr>pending = map (\<lambda>(p, n). map Byte (show_int n @ [NL])) rs, conn = [], outbox = [], opened = 0\<rparr>"
  let ?f = "\<lparr>inbox = map (\<lambda>(p, n). request_bytes \<lparr>pid = p, seqLen = n\<rparr>) rs, fifos = av, current = [], delivered = []\<rparr>"
  have starts: "map (\<lambda>i. sum_list (take i (map snd rs))) [0..<length rs] = range_starts 0 (map snd rs)"
    by (simp add: range_starts_sums)
  have pos: "\<forall>n\<in>set (map snd rs). 0 \<le> n" using assms(1) by auto
  have sent_Byte: "sent (map Byte s) = s" for s by (induction s) simp_all
  have small: "length (show_int n) \<le> 11" if "(p, n) \<in> set rs" for p n
    using sum_list_bound [OF pos, of n] that assms(1,2) by (intro length_show_int) (force simp: int_limits)+
  have "\<forall>x\<in>set (pending ?k). length x < rl" using small assms(3) by fastforce
  from seqnum_loop_serves [OF refl this assms(4), of 0 lfd] obtain k' where
    "outbox k' = tcp_replies 0 (map sent (pending ?k))"
    "reaches net_K (seqnum_server_loop (length rs) rl lfd 0 b) ?k (Halt Unfinished) k'" by auto
  moreover have "map sent (pending ?k) = map (\<lambda>n. show_int n @ [NL]) (map snd rs)"
    by (auto simp: sent_Byte simp del: map_append)
  moreover note fifo_deliveries_starts [OF assms(1) order_refl, unfolded add_0_left, OF assms(2)]
    tcp_replies_starts [OF pos order_refl, unfolded add_0_left, OF assms(2)]
  moreover from this(1) obtain f' where "fifo_net.delivered f' = fifo_deliveries av 0 (inbox ?f)"
    "reaches fifo_K (fifo_server_loop (length rs) fd 0) ?f (Halt Unfinished) f'"
    using fifo_server_loop_serves [of ?f "inbox ?f" 0 fd] by auto
  ultimately show ?thesis unfolding Let_def starts by (simp only: reaches_final final_simps) simp
qed

lemma services_agree_witness:
  "fifo_net.delivered (final fifo_K (fifo_server_loop 2 3 0)
     \<lparr>inbox = [request_bytes \<lparr>pid = 11, seqLen = 5\<rparr>, request_bytes \<lparr>pid = 12, seqLen = 2\<rparr>], fifos = {client_fifo 11, client_fifo 12},
      current = [], delivered = []\<rparr>) = [(client_fifo 11, int_bytes 0), (client_fifo 12, int_bytes 5)]"
  using services_agree [of "[(11, 5), (12, 2)]" "{client_fifo 11, client_fifo 12}" 13 "replicate INT_LEN NUL" 4 3]
  by (simp add: int_limits numeral_2_eq_2)

end
